(* ===== verification/Prelude.thy ===== *)
theory Prelude
  imports Main "HOL-Library.Word"
begin

text \<open>
  The prelude of the development: machine types, the faulting state monad in which every
  handler of \<^verbatim>\<open>Services/source\<close> is written, byte-level object representations, bounds-checked
  copies, and the hint collections that the component theories share.
  \<^item> \<^verbatim>\<open>prog_simps\<close> runs programs of the monad, \<^verbatim>\<open>const_simps\<close> unfolds the
    numeric \<^verbatim>\<open>#define\<close>s of the headers.
  \<^item> A fault is a C execution without a defined result: a copy past the end of a buffer, a use of a
    released block, a second release, and so on. It is a value of the model, so that
    absence of faults is a theorem and not an assumption.
\<close>

named_theorems prog_simps
named_theorems const_simps

subsection \<open>Machine types\<close>

type_synonym byte = "8 word"
type_synonym i8 = "8 word"
type_synonym u16 = "16 word"
type_synonym u32 = "32 word"
type_synonym i32 = "32 word"
type_synonym u64 = "64 word"
type_synonym bytes = "byte list"

datatype fault =
    OutOfBounds
  | NullDeref
  | UseAfterFree
  | DoubleFree
  | Deadlock
  | OutOfFuel
  | NoValue
  | IntOverflow

lemma unat_u16_less: "unat (x :: u16) < 65536"
  using unsigned_less [of x] by simp

lemma unat_u32_less: "unat (x :: u32) < 4294967296"
  using unsigned_less [of x] by simp

lemma unat_ucast_u32 [simp]: "unat (ucast (x :: u16) :: u32) = unat x"
  by (simp add: unsigned_ucast_eq take_bit_nat_eq_self unat_u16_less less_trans [OF unat_u16_less])

lemma ucast_ucast_u16 [simp]: "ucast (ucast (x :: u16) :: u32) = x"
  by (rule bit_word_eqI) (auto simp: bit_simps)

lemma unat_of_nat_u16: "k < 65536 \<Longrightarrow> unat (of_nat k :: u16) = k"
  by (simp add: unat_of_nat)

lemma unat_of_nat_u32: "k < 4294967296 \<Longrightarrow> unat (of_nat k :: u32) = k"
  by (simp add: unat_of_nat)

lemma of_nat_u16_nonzero: "k \<noteq> 0 \<Longrightarrow> k < 65536 \<Longrightarrow> of_nat k \<noteq> (0 :: u16)"
  by (metis unat_0 unat_of_nat_u16)

lemma unat_plus_one_word: "unat x + 1 < 2 ^ LENGTH('a) \<Longrightarrow> unat (x + 1 :: 'a::len word) = unat x + 1"
  by (simp add: unat_word_ariths)

subsection \<open>The faulting state monad\<close>

type_synonym ('s, 'a) prog = "'s \<Rightarrow> fault + ('a \<times> 's)"

definition ret :: "'a \<Rightarrow> ('s, 'a) prog" where
  "ret a = (\<lambda>s. Inr (a, s))"

definition bnd :: "('s, 'a) prog \<Rightarrow> ('a \<Rightarrow> ('s, 'b) prog) \<Rightarrow> ('s, 'b) prog" where
  "bnd m f = (\<lambda>s. case m s of Inl e \<Rightarrow> Inl e | Inr (a, s') \<Rightarrow> f a s')"

definition andthen :: "('s, 'a) prog \<Rightarrow> ('s, 'b) prog \<Rightarrow> ('s, 'b) prog" where
  "andthen m k = bnd m (\<lambda>_. k)"

definition fault :: "fault \<Rightarrow> ('s, 'a) prog" where
  "fault e = (\<lambda>_. Inl e)"

definition gets :: "('s \<Rightarrow> 'a) \<Rightarrow> ('s, 'a) prog" where
  "gets f = (\<lambda>s. Inr (f s, s))"

definition modify :: "('s \<Rightarrow> 's) \<Rightarrow> ('s, unit) prog" where
  "modify f = (\<lambda>s. Inr ((), f s))"

lemma ret_run [prog_simps]: "ret a s = Inr (a, s)"
  by (simp add: ret_def)

lemma fault_run [prog_simps]: "fault e s = Inl e"
  by (simp add: fault_def)

lemma gets_run [prog_simps]: "gets f s = Inr (f s, s)"
  by (simp add: gets_def)

lemma modify_run [prog_simps]: "modify f s = Inr ((), f s)"
  by (simp add: modify_def)

lemma bnd_run [prog_simps]:
  "bnd m f s = (case m s of Inl e \<Rightarrow> Inl e | Inr r \<Rightarrow> f (fst r) (snd r))"
  by (simp add: bnd_def split: sum.splits prod.splits)

lemma andthen_run [prog_simps]:
  "andthen m k s = (case m s of Inl e \<Rightarrow> Inl e | Inr r \<Rightarrow> k (snd r))"
  by (simp add: andthen_def bnd_run)

lemma bnd_ret [simp]: "bnd (ret a) f = f a"
  by (rule ext) (simp add: prog_simps)

lemma bnd_assoc: "bnd (bnd m f) g = bnd m (\<lambda>a. bnd (f a) g)"
  by (rule ext) (simp add: prog_simps split: sum.splits)

subsection \<open>Total-correctness triples\<close>

text \<open>
  \<^verbatim>\<open>hoare P m Q\<close>: from every state with \<open>P\<close> the program \<open>m\<close> ends without a fault, in a
  result and state with \<open>Q\<close>.
\<close>

definition hoare :: "('s \<Rightarrow> bool) \<Rightarrow> ('s, 'a) prog \<Rightarrow> ('a \<Rightarrow> 's \<Rightarrow> bool) \<Rightarrow> bool" where
  "hoare P m Q \<longleftrightarrow> (\<forall>s. P s \<longrightarrow> (\<exists>a s'. m s = Inr (a, s') \<and> Q a s'))"

lemma hoareI: "(\<And>s. P s \<Longrightarrow> \<exists>a s'. m s = Inr (a, s') \<and> Q a s') \<Longrightarrow> hoare P m Q"
  by (simp add: hoare_def)

lemma hoareD: "hoare P m Q \<Longrightarrow> P s \<Longrightarrow> \<exists>a s'. m s = Inr (a, s') \<and> Q a s'"
  by (simp add: hoare_def)

lemma hoare_bnd:
  assumes "hoare P m R" and "\<And>a. hoare (R a) (f a) Q"
  shows "hoare P (bnd m f) Q"
proof (rule hoareI)
  fix s assume "P s"
  with assms(1) obtain a s' where "m s = Inr (a, s')" "R a s'"
    by (auto simp: hoare_def)
  moreover from assms(2) \<open>R a s'\<close> obtain b t where "f a s' = Inr (b, t)" "Q b t"
    by (fastforce simp: hoare_def)
  ultimately show "\<exists>b t. bnd m f s = Inr (b, t) \<and> Q b t"
    by (simp add: bnd_run)
qed

lemma hoare_andthen:
  "hoare P m (\<lambda>_. R) \<Longrightarrow> hoare R k Q \<Longrightarrow> hoare P (andthen m k) Q"
  unfolding andthen_def by (rule hoare_bnd) auto

lemma hoare_ret: "(\<And>s. P s \<Longrightarrow> Q a s) \<Longrightarrow> hoare P (ret a) Q"
  by (simp add: hoare_def ret_run)

lemma hoare_conseq:
  "hoare P' m Q' \<Longrightarrow> (\<And>s. P s \<Longrightarrow> P' s) \<Longrightarrow> (\<And>a s. Q' a s \<Longrightarrow> Q a s) \<Longrightarrow> hoare P m Q"
  by (fastforce simp: hoare_def)

lemma hoare_if:
  "(b \<Longrightarrow> hoare P m Q) \<Longrightarrow> (\<not> b \<Longrightarrow> hoare P k Q) \<Longrightarrow> hoare P (if b then m else k) Q"
  by simp

subsection \<open>Bounds-checked copies\<close>

definition mem_read :: "nat \<Rightarrow> nat \<Rightarrow> bytes \<Rightarrow> fault + bytes" where
  "mem_read off n bs =
     (if off + n \<le> length bs then Inr (take n (drop off bs)) else Inl OutOfBounds)"

definition overlay :: "nat \<Rightarrow> 'a list \<Rightarrow> 'a list \<Rightarrow> 'a list" where
  "overlay off xs bs = take off bs @ xs @ drop (off + length xs) bs"

definition mem_write :: "nat \<Rightarrow> bytes \<Rightarrow> bytes \<Rightarrow> fault + bytes" where
  "mem_write off xs bs =
     (if off + length xs \<le> length bs then Inr (overlay off xs bs) else Inl OutOfBounds)"

lemma length_overlay [simp]:
  "off + length xs \<le> length bs \<Longrightarrow> length (overlay off xs bs) = length bs"
  by (simp add: overlay_def)

lemma nth_overlay:
  assumes "off + length xs \<le> length bs" and "i < length bs"
  shows "overlay off xs bs ! i =
    (if off \<le> i \<and> i < off + length xs then xs ! (i - off) else bs ! i)"
  using assms by (auto simp: overlay_def nth_append min_def)

lemma nth_overlay_before: "i < off \<Longrightarrow> off \<le> length bs \<Longrightarrow> overlay off xs bs ! i = bs ! i"
  by (simp add: overlay_def nth_append)

lemma nth_overlay_inside:
  "off \<le> i \<Longrightarrow> i < off + length xs \<Longrightarrow> off \<le> length bs \<Longrightarrow> overlay off xs bs ! i = xs ! (i - off)"
  by (auto simp: overlay_def nth_append min_def)

lemma overlay_same [simp]:
  "off + length xs \<le> length bs \<Longrightarrow> take (length xs) (drop off (overlay off xs bs)) = xs"
  by (simp add: overlay_def min_def)

lemma overlay_before:
  "off + length xs \<le> length bs \<Longrightarrow> o' + n \<le> off \<Longrightarrow>
   take n (drop o' (overlay off xs bs)) = take n (drop o' bs)"
  by (rule nth_equalityI) (auto simp: nth_overlay)

lemma overlay_after:
  "off + length xs \<le> length bs \<Longrightarrow> off + length xs \<le> o' \<Longrightarrow>
   take n (drop o' (overlay off xs bs)) = take n (drop o' bs)"
  by (rule nth_equalityI) (auto simp: nth_overlay)

lemma overlay_adjacent:
  "off + length xs + length ys \<le> length bs \<Longrightarrow>
   overlay (off + length xs) ys (overlay off xs bs) = overlay off (xs @ ys) bs"
  by (rule nth_equalityI) (auto simp: nth_overlay nth_append)

subsection \<open>Object representations of integers\<close>

text \<open>
  \<^verbatim>\<open>SYSTEM_ENDIANESS\<close> of the board header selects one of the two orders named in
  \<^verbatim>\<open>Services/include/subsystems_ids.h\<close>; the development is generic in it.
\<close>

datatype endianness = SYS_LITTLE_ENDIAN | SYS_BIG_ENDIAN

primrec le_bytes :: "nat \<Rightarrow> 'a::len word \<Rightarrow> bytes" where
  "le_bytes 0 w = []"
| "le_bytes (Suc n) w = ucast w # le_bytes n (drop_bit 8 w)"

primrec le_word :: "bytes \<Rightarrow> 'a::len word" where
  "le_word [] = 0"
| "le_word (b # bs) = or (ucast b) (push_bit 8 (le_word bs))"

definition to_bytes :: "endianness \<Rightarrow> nat \<Rightarrow> 'a::len word \<Rightarrow> bytes" where
  "to_bytes e n w = (case e of SYS_LITTLE_ENDIAN \<Rightarrow> le_bytes n w | SYS_BIG_ENDIAN \<Rightarrow> rev (le_bytes n w))"

definition of_bytes :: "endianness \<Rightarrow> bytes \<Rightarrow> 'a::len word" where
  "of_bytes e bs = le_word (case e of SYS_LITTLE_ENDIAN \<Rightarrow> bs | SYS_BIG_ENDIAN \<Rightarrow> rev bs)"

lemma length_le_bytes [simp]: "length (le_bytes n w) = n"
  by (induction n arbitrary: w) auto

lemma length_to_bytes [simp]: "length (to_bytes e n w) = n"
  by (cases e) (auto simp: to_bytes_def)

lemma le_word_le_bytes: "le_word (le_bytes n w) = take_bit (8 * n) (w :: 'a::len word)"
proof (induction n arbitrary: w)
  case 0
  show ?case by simp
next
  case (Suc n)
  show ?case
    by (rule bit_word_eqI)
      (auto simp: Suc bit_simps less_diff_conv2)
qed

lemma le_bytes_take_bit: "8 * n \<le> m \<Longrightarrow> le_bytes n (take_bit m w) = le_bytes n w"
proof (induction n arbitrary: m w)
  case 0
  show ?case by simp
next
  case (Suc n)
  have "(ucast (take_bit m w) :: byte) = ucast w"
    using Suc.prems by (auto intro!: bit_word_eqI simp: bit_simps)
  moreover have "drop_bit 8 (take_bit m w) = take_bit (m - 8) (drop_bit 8 w)"
    using Suc.prems by (auto intro!: bit_word_eqI simp: bit_simps)
  ultimately show ?case using Suc by simp
qed

lemma le_bytes_le_word:
  "8 * length bs \<le> LENGTH('a::len) \<Longrightarrow> le_bytes (length bs) (le_word bs :: 'a word) = bs"
proof (induction bs)
  case Nil
  show ?case by simp
next
  case (Cons b bs)
  have hd: "(ucast (or (ucast b) (push_bit 8 (le_word bs)) :: 'a word) :: byte) = b"
    using Cons.prems by (auto intro!: bit_word_eqI simp: bit_simps)
  have tl: "le_bytes (length bs) (drop_bit 8 (or (ucast b) (push_bit 8 (le_word bs)) :: 'a word)) = bs"
    (is "le_bytes _ (drop_bit 8 ?w) = _")
  proof -
    have eq: "drop_bit 8 ?w = take_bit (LENGTH('a) - 8) (le_word bs :: 'a word)"
      by (rule bit_word_eqI) (auto simp: bit_simps dest: bit_imp_le_length)
    show ?thesis unfolding eq using Cons by (simp add: le_bytes_take_bit)
  qed
  show ?case by (simp only: length_Cons le_bytes.simps le_word.simps hd tl)
qed

lemma of_bytes_to_bytes [simp]:
  "LENGTH('a::len) \<le> 8 * n \<Longrightarrow> of_bytes e (to_bytes e n (w :: 'a word)) = w"
  by (cases e) (simp_all add: of_bytes_def to_bytes_def le_word_le_bytes take_bit_word_eq_self)

lemma to_bytes_of_bytes [simp]:
  assumes "length bs = n" and "8 * n \<le> LENGTH('a::len)"
  shows "to_bytes e n (of_bytes e bs :: 'a word) = bs"
proof (cases e)
  case SYS_LITTLE_ENDIAN
  then show ?thesis using assms le_bytes_le_word [of bs, where 'a = 'a]
    by (simp add: of_bytes_def to_bytes_def)
next
  case SYS_BIG_ENDIAN
  then show ?thesis using assms le_bytes_le_word [of "rev bs", where 'a = 'a]
    by (simp add: of_bytes_def to_bytes_def)
qed

lemma of_bytes_rev:
  "of_bytes SYS_BIG_ENDIAN bs = of_bytes SYS_LITTLE_ENDIAN (rev bs)"
  by (simp add: of_bytes_def)

end
