(* ===== verification/Csp.thy ===== *)
theory Csp
  imports Prelude
begin

text \<open>
  Packets, reply idioms and buffer ownership: the part of the services that
  \<^verbatim>\<open>Services/include/services.h\<close>, \<^verbatim>\<open>Services/source/util/service_utilities.c\<close> and
  the identical server tasks share.

  libcsp itself is not part of the repository. What the services use of it enters as the record
  \<^verbatim>\<open>csp_ops\<close> of operations over an arbitrary world \<open>'w\<close>.

  There are two levels. A \<^verbatim>\<open>*_service_app\<close> that only rewrites the request packet is a
  program over \<open>'w hst\<close> (the packet in hand and the world). The tasks and the handlers that
  send or release packets themselves are programs over \<open>'w pool\<close>: the buffers that the
  service owns, by handle, and the world. Sending a packet passes its buffer to
  libcsp, releasing it ends its life; touching a handle that is no longer owned is a fault.
\<close>

subsection \<open>Packets and return states\<close>

record csp_packet =
  pkt_length :: u16
  pkt_data :: bytes

datatype SAT_returnState = SATR_OK | SATR_ERROR | SATR_PKT_ILLEGAL_SUBSERVICE

definition SUBSERVICE_BYTE :: nat where [const_simps]: "SUBSERVICE_BYTE = 0"
definition STATUS_BYTE :: nat where [const_simps]: "STATUS_BYTE = 1"
definition IN_DATA_BYTE :: nat where [const_simps]: "IN_DATA_BYTE = 1"
definition OUT_DATA_BYTE :: nat where [const_simps]: "OUT_DATA_BYTE = 2"

record 'w hst =
  packet :: csp_packet
  world :: 'w

abbreviation data :: "'w hst \<Rightarrow> bytes" where
  "data s \<equiv> pkt_data (packet s)"

text \<open>\<^verbatim>\<open>n\<close> bytes read from \<^verbatim>\<open>&packet->data[off]\<close>, and one of them.\<close>

definition pkt_read :: "nat \<Rightarrow> nat \<Rightarrow> ('w hst, bytes) prog" where
  "pkt_read off n = (\<lambda>s. case mem_read off n (data s) of Inl e \<Rightarrow> Inl e | Inr bs \<Rightarrow> Inr (bs, s))"

definition pkt_byte :: "nat \<Rightarrow> ('w hst, byte) prog" where
  "pkt_byte off = (\<lambda>s. if off < length (data s) then Inr (data s ! off, s) else Inl OutOfBounds)"

text \<open>\<^verbatim>\<open>memcpy(&packet->data[off], bs, sizeof bs)\<close>.\<close>

definition pkt_write :: "nat \<Rightarrow> bytes \<Rightarrow> ('w hst, unit) prog" where
  "pkt_write off bs = (\<lambda>s. case mem_write off bs (data s) of
     Inl e \<Rightarrow> Inl e
   | Inr d \<Rightarrow> Inr ((), s\<lparr>packet := (packet s)\<lparr>pkt_data := d\<rparr>\<rparr>))"

definition set_packet_length :: "nat \<Rightarrow> ('w hst, unit) prog" where
  "set_packet_length n = modify (\<lambda>s. s\<lparr>packet := (packet s)\<lparr>pkt_length := of_nat n\<rparr>\<rparr>)"

text \<open>A call into a driver or another subsystem: an operation on the world.\<close>

definition hal :: "('w \<Rightarrow> 'a \<times> 'w) \<Rightarrow> ('w hst, 'a) prog" where
  "hal f = (\<lambda>s. case f (world s) of (a, w) \<Rightarrow> Inr (a, s\<lparr>world := w\<rparr>))"

text \<open>
  The two reply idioms of the handlers: the status byte alone, and the status byte followed by a
  datum. Both set the length to the bytes written after the subservice byte plus one.
\<close>

definition reply_status :: "i8 \<Rightarrow> ('w hst, unit) prog" where
  "reply_status st = andthen (pkt_write STATUS_BYTE [st]) (set_packet_length (1 + 1))"

definition reply_data :: "i8 \<Rightarrow> bytes \<Rightarrow> ('w hst, unit) prog" where
  "reply_data st bs =
     andthen (pkt_write STATUS_BYTE [st])
    (andthen (pkt_write OUT_DATA_BYTE bs)
             (set_packet_length (1 + length bs + 1)))"

lemma pkt_read_run [prog_simps]:
  "pkt_read off n s =
    (if off + n \<le> length (data s) then Inr (take n (drop off (data s)), s) else Inl OutOfBounds)"
  by (simp add: pkt_read_def mem_read_def)

lemma pkt_byte_run [prog_simps]:
  "pkt_byte off s = (if off < length (data s) then Inr (data s ! off, s) else Inl OutOfBounds)"
  by (simp add: pkt_byte_def)

lemma pkt_write_run [prog_simps]:
  "pkt_write off bs s =
    (if off + length bs \<le> length (data s)
     then Inr ((), s\<lparr>packet := (packet s)\<lparr>pkt_data := overlay off bs (data s)\<rparr>\<rparr>)
     else Inl OutOfBounds)"
  by (simp add: pkt_write_def mem_write_def)

lemma set_packet_length_run [prog_simps]:
  "set_packet_length n s = Inr ((), s\<lparr>packet := (packet s)\<lparr>pkt_length := of_nat n\<rparr>\<rparr>)"
  by (simp add: set_packet_length_def modify_run)

lemma hal_run [prog_simps]: "hal f s = Inr (fst (f (world s)), s\<lparr>world := snd (f (world s))\<rparr>)"
  by (simp add: hal_def split: prod.splits)

definition status_packet :: "i8 \<Rightarrow> csp_packet \<Rightarrow> csp_packet" where
  "status_packet st p = \<lparr>pkt_length = 2, pkt_data = overlay 1 [st] (pkt_data p)\<rparr>"

definition data_packet :: "i8 \<Rightarrow> bytes \<Rightarrow> csp_packet \<Rightarrow> csp_packet" where
  "data_packet st bs p =
    \<lparr>pkt_length = of_nat (length bs + 2), pkt_data = overlay 1 (st # bs) (pkt_data p)\<rparr>"

lemma reply_status_run [prog_simps]:
  "reply_status st s =
    (if 2 \<le> length (data s) then Inr ((), s\<lparr>packet := status_packet st (packet s)\<rparr>)
     else Inl OutOfBounds)"
  by (simp add: reply_status_def prog_simps const_simps status_packet_def)

lemma reply_data_run [prog_simps]:
  "reply_data st bs s =
    (if length bs + 2 \<le> length (data s)
     then Inr ((), s\<lparr>packet := data_packet st bs (packet s)\<rparr>)
     else Inl OutOfBounds)"
  using overlay_adjacent [of 1 "[st]" bs "data s"]
  by (auto simp: reply_data_def prog_simps const_simps data_packet_def eval_nat_numeral)

text \<open>
  The handlers for the radios and the attitude control: a driver whose status is the reply, and a reply
  whose size is checked against that of a buffer. The check changes the result and nothing
  else. \<open>checked\<close> is the size that is checked.
\<close>

definition set_reply :: "('w \<Rightarrow> i8 \<times> 'w) \<Rightarrow> ('w hst, SAT_returnState) prog" where
  "set_reply f = bnd (hal f) (\<lambda>status. andthen (reply_status status) (ret SATR_OK))"

definition checked_reply :: "nat \<Rightarrow> nat \<Rightarrow> i8 \<Rightarrow> bytes \<Rightarrow> ('w hst, SAT_returnState) prog" where
  "checked_reply limit checked status bs =
     andthen (reply_data status bs) (ret (if checked + 1 > limit then SATR_ERROR else SATR_OK))"

lemma set_reply_run [prog_simps]:
  "set_reply f s = (if 2 \<le> length (data s) then Inr (SATR_OK, s\<lparr>world := snd (f (world s)),
     packet := status_packet (fst (f (world s))) (packet s)\<rparr>) else Inl OutOfBounds)"
  by (simp add: set_reply_def prog_simps)

lemma checked_reply_run [prog_simps]:
  "checked_reply limit checked st bs s = (if length bs + 2 \<le> length (data s)
     then Inr (if checked + 1 > limit then SATR_ERROR else SATR_OK, s\<lparr>packet := data_packet st bs (packet s)\<rparr>)
     else Inl OutOfBounds)"
  by (simp add: checked_reply_def prog_simps)

text \<open>What a reply packet says: subservice byte, status byte, datum.\<close>

lemma status_packet_data:
  "2 \<le> length (pkt_data p) \<Longrightarrow>
   length (pkt_data (status_packet st p)) = length (pkt_data p) \<and>
   pkt_data (status_packet st p) ! 0 = pkt_data p ! 0 \<and>
   pkt_data (status_packet st p) ! 1 = st"
  by (simp add: status_packet_def nth_overlay_before nth_overlay_inside)

lemma data_packet_data:
  assumes "length bs + 2 \<le> length (pkt_data p)"
  shows "length (pkt_data (data_packet st bs p)) = length (pkt_data p)"
    and "pkt_data (data_packet st bs p) ! 0 = pkt_data p ! 0"
    and "pkt_data (data_packet st bs p) ! 1 = st"
    and "take (length bs) (drop 2 (pkt_data (data_packet st bs p))) = bs"
  using assms overlay_same [of 1 "st # bs" "pkt_data p"]
  by (simp_all add: data_packet_def nth_overlay_before nth_overlay_inside drop_Suc)
    (auto simp: overlay_def)

subsection \<open>Handlers that stay inside their packet\<close>

text \<open>
  \<open>safe n m\<close>: on a packet with room for \<open>n\<close> bytes the program ends without a fault and keeps
  the room and the subservice byte. The rules follow the structure of a handler.
\<close>

definition safe :: "nat \<Rightarrow> ('w hst, 'a) prog \<Rightarrow> bool" where
  "safe n m \<longleftrightarrow> (\<forall>s. n \<le> length (data s) \<longrightarrow>
     (\<exists>a s'. m s = Inr (a, s') \<and> length (data s') = length (data s) \<and> data s' ! 0 = data s ! 0))"

named_theorems safe_intros

lemma safeI:
  "(\<And>s. n \<le> length (data s) \<Longrightarrow>
     \<exists>a s'. m s = Inr (a, s') \<and> length (data s') = length (data s) \<and> data s' ! 0 = data s ! 0) \<Longrightarrow> safe n m"
  unfolding safe_def by blast

lemma safeD:
  "safe n m \<Longrightarrow> n \<le> length (data s) \<Longrightarrow>
   \<exists>a s'. m s = Inr (a, s') \<and> length (data s') = length (data s) \<and> data s' ! 0 = data s ! 0"
  unfolding safe_def by blast

lemma safe_ret [safe_intros]: "safe n (ret a)"
  by (simp add: safe_def ret_run)

lemma safe_bnd [safe_intros]:
  assumes "safe n m" and "\<And>a. safe n (f a)"
  shows "safe n (bnd m f)"
proof (rule safeI)
  fix s :: "'a hst" assume len: "n \<le> length (data s)"
  from safeD [OF assms(1) len] obtain a s' where
    1: "m s = Inr (a, s')" "length (data s') = length (data s)" "data s' ! 0 = data s ! 0" by blast
  from safeD [OF assms(2), of s' a] len 1 show
    "\<exists>b t. bnd m f s = Inr (b, t) \<and> length (data t) = length (data s) \<and> data t ! 0 = data s ! 0"
    by (simp add: bnd_run)
qed

lemma safe_andthen [safe_intros]: "safe n m \<Longrightarrow> safe n k \<Longrightarrow> safe n (andthen m k)"
  unfolding andthen_def by (rule safe_bnd)

lemma safe_if [safe_intros]: "(b \<Longrightarrow> safe n m) \<Longrightarrow> (\<not> b \<Longrightarrow> safe n k) \<Longrightarrow> safe n (if b then m else k)"
  by simp

lemma safe_prod [safe_intros]: "(\<And>a b. r = (a, b) \<Longrightarrow> safe n (f a b)) \<Longrightarrow> safe n (case r of (a, b) \<Rightarrow> f a b)"
  by (cases r) simp

lemma safe_option [safe_intros]:
  "(r = None \<Longrightarrow> safe n m) \<Longrightarrow> (\<And>a. r = Some a \<Longrightarrow> safe n (f a)) \<Longrightarrow>
   safe n (case r of None \<Rightarrow> m | Some a \<Rightarrow> f a)"
  by (cases r) simp_all

lemma safe_let [safe_intros]: "safe n (f a) \<Longrightarrow> safe n (let x = a in f x)"
  by simp

lemma safe_hal [safe_intros]: "safe n (hal f)"
  by (simp add: safe_def hal_run)

lemma safe_bnd_hal:
  assumes "\<And>w. safe n (k (fst (f w)))"
  shows "safe n (bnd (hal f) k)"
proof (rule safeI)
  fix s :: "'a hst" assume "n \<le> length (data s)"
  then show "\<exists>a s'. bnd (hal f) k s = Inr (a, s') \<and> length (data s') = length (data s) \<and> data s' ! 0 = data s ! 0"
    using safeD [OF assms, of "s\<lparr>world := snd (f (world s))\<rparr>" "world s"] by (simp add: prog_simps)
qed

lemma safe_pkt_byte [safe_intros]: "off < n \<Longrightarrow> safe n (pkt_byte off)"
  by (auto simp: safe_def pkt_byte_run)

lemma safe_pkt_read [safe_intros]: "off + k \<le> n \<Longrightarrow> safe n (pkt_read off k)"
  by (auto simp: safe_def pkt_read_run)

lemma safe_pkt_write [safe_intros]: "0 < off \<Longrightarrow> off + length bs \<le> n \<Longrightarrow> safe n (pkt_write off bs)"
  by (auto simp: safe_def pkt_write_run nth_overlay_before)

lemma safe_set_packet_length [safe_intros]: "safe n (set_packet_length k)"
  by (simp add: safe_def set_packet_length_run)

lemma safe_reply_status [safe_intros]: "2 \<le> n \<Longrightarrow> safe n (reply_status st)"
  unfolding reply_status_def by (intro safe_intros) (simp_all add: const_simps)

lemma safe_reply_data [safe_intros]: "length bs + 2 \<le> n \<Longrightarrow> safe n (reply_data st bs)"
  unfolding reply_data_def by (intro safe_intros) (simp_all add: const_simps)

lemma safe_set_reply [safe_intros]: "2 \<le> n \<Longrightarrow> safe n (set_reply f)"
  unfolding set_reply_def by (intro safe_intros)

lemma safe_checked_reply [safe_intros]: "length bs + 2 \<le> n \<Longrightarrow> safe n (checked_reply limit k st bs)"
  unfolding checked_reply_def by (intro safe_intros)

text \<open>
  \<open>safe_but n fails m\<close>: the same for a program that has faults. \<open>fails\<close> tells in which states it ends
  in a fault, and in which one; in all other states it is safe.
\<close>

definition safe_but :: "nat \<Rightarrow> ('w hst \<Rightarrow> fault option) \<Rightarrow> ('w hst, 'a) prog \<Rightarrow> bool" where
  "safe_but n fails m \<longleftrightarrow> (\<forall>s. n \<le> length (data s) \<longrightarrow> (case fails s of
     Some f \<Rightarrow> m s = Inl f
   | None \<Rightarrow> \<exists>a s'. m s = Inr (a, s') \<and> length (data s') = length (data s) \<and> data s' ! 0 = data s ! 0))"

lemma safe_but_none: "safe_but n (\<lambda>_. None) m \<longleftrightarrow> safe n m"
  by (simp add: safe_but_def safe_def)

lemma safe_butI:
  assumes "\<And>s f. n \<le> length (data s) \<Longrightarrow> fails s = Some f \<Longrightarrow> m s = Inl f"
    and "\<And>s. n \<le> length (data s) \<Longrightarrow> fails s = None \<Longrightarrow>
      \<exists>a s'. m s = Inr (a, s') \<and> length (data s') = length (data s) \<and> data s' ! 0 = data s ! 0"
  shows "safe_but n fails m"
  unfolding safe_but_def using assms by (auto split: option.split)

lemma safe_but_fault: "safe_but n fails m \<Longrightarrow> n \<le> length (data s) \<Longrightarrow> fails s = Some f \<Longrightarrow> m s = Inl f"
  unfolding safe_but_def by (auto split: option.splits)

lemma safe_but_run:
  "safe_but n fails m \<Longrightarrow> n \<le> length (data s) \<Longrightarrow> fails s = None \<Longrightarrow>
   \<exists>a s'. m s = Inr (a, s') \<and> length (data s') = length (data s) \<and> data s' ! 0 = data s ! 0"
  unfolding safe_but_def by (auto split: option.splits)

end
