(* ===== verification/Utilities.thy ===== *)
theory Utilities
  imports Csp
begin

text \<open>
  \<^verbatim>\<open>Services/source/util/service_utilities.c\<close>: the conversions between integers and bytes
  through \<^verbatim>\<open>union _cnv\<close>, and \<^verbatim>\<open>htons\<close>/\<^verbatim>\<open>ntohs\<close>.
  The union is its bytes; which byte of an integer member is \<^verbatim>\<open>cnv8[i]\<close> is decided by the
  byte order of the host. \<^verbatim>\<open>float\<close> and \<^verbatim>\<open>double\<close> members are their bit patterns.

  Two contracts are stated as locales. \<^verbatim>\<open>byte_codec\<close> is what a pair of conversions owes its
  callers (fixed width and mutual inversion), \<^verbatim>\<open>net_order\<close> is what a host/network
  conversion owes them: the bytes of the converted value are the big-endian bytes of the value.
\<close>

subsection \<open>The conversions\<close>

definition cnv32_8 :: "endianness \<Rightarrow> u32 \<Rightarrow> bytes" where
  "cnv32_8 e from = (let cnv8 = to_bytes e 4 from in [cnv8 ! 0, cnv8 ! 1, cnv8 ! 2, cnv8 ! 3])"

definition cnv16_8 :: "endianness \<Rightarrow> u16 \<Rightarrow> bytes" where
  "cnv16_8 e from = (let cnv8 = to_bytes e 2 from in [cnv8 ! 0, cnv8 ! 1])"

definition cnv8_32 :: "endianness \<Rightarrow> bytes \<Rightarrow> u32" where
  "cnv8_32 e from = of_bytes e [from ! 0, from ! 1, from ! 2, from ! 3]"

definition cnv8_16LE :: "endianness \<Rightarrow> bytes \<Rightarrow> u16" where
  "cnv8_16LE e from = of_bytes e [from ! 0, from ! 1]"

definition cnv8_16 :: "endianness \<Rightarrow> bytes \<Rightarrow> u16" where
  "cnv8_16 e from = of_bytes e [from ! 1, from ! 0]"

definition cnvF_8 :: "endianness \<Rightarrow> u32 \<Rightarrow> bytes" where
  "cnvF_8 e from = (let cnv8 = to_bytes e 4 from in [cnv8 ! 0, cnv8 ! 1, cnv8 ! 2, cnv8 ! 3])"

definition cnv8_F :: "endianness \<Rightarrow> bytes \<Rightarrow> u32" where
  "cnv8_F e from = of_bytes e [from ! 0, from ! 1, from ! 2, from ! 3]"

definition cnvD_8 :: "endianness \<Rightarrow> u64 \<Rightarrow> bytes" where
  "cnvD_8 e from = (let cnv8 = to_bytes e 8 from in
     [cnv8 ! 0, cnv8 ! 1, cnv8 ! 2, cnv8 ! 3, cnv8 ! 4, cnv8 ! 5, cnv8 ! 6, cnv8 ! 7])"

definition cnv8_D :: "endianness \<Rightarrow> bytes \<Rightarrow> u64" where
  "cnv8_D e from = of_bytes e
     [from ! 0, from ! 1, from ! 2, from ! 3, from ! 4, from ! 5, from ! 6, from ! 7]"

definition htons :: "endianness \<Rightarrow> u16 \<Rightarrow> u16" where
  "htons e x = (case e of
     SYS_LITTLE_ENDIAN \<Rightarrow> or (drop_bit 8 (and x 0xFF00)) (push_bit 8 (and x 0x00FF))
   | SYS_BIG_ENDIAN \<Rightarrow> x)"

definition ntohs :: "endianness \<Rightarrow> u16 \<Rightarrow> u16" where
  "ntohs e x = htons e x"

lemma list_of_2: "length bs = 2 \<Longrightarrow> [bs ! 0, bs ! 1] = bs"
  by (rule nth_equalityI) (auto simp: less_Suc_eq numeral_2_eq_2)

lemma list_of_4: "length bs = 4 \<Longrightarrow> [bs ! 0, bs ! 1, bs ! 2, bs ! 3] = bs"
  by (rule nth_equalityI) (auto simp: less_Suc_eq eval_nat_numeral)

lemma list_of_8:
  "length bs = 8 \<Longrightarrow> [bs ! 0, bs ! 1, bs ! 2, bs ! 3, bs ! 4, bs ! 5, bs ! 6, bs ! 7] = bs"
  by (rule nth_equalityI) (auto simp: less_Suc_eq eval_nat_numeral)

lemma cnv_to_bytes:
  "cnv32_8 e x = to_bytes e 4 x" "cnv16_8 e y = to_bytes e 2 y"
  "cnvF_8 e x = to_bytes e 4 x" "cnvD_8 e z = to_bytes e 8 z"
  by (simp_all only: cnv32_8_def cnv16_8_def cnvF_8_def cnvD_8_def Let_def
      list_of_2 list_of_4 list_of_8 length_to_bytes)

lemma cnv_of_bytes:
  "length bs = 4 \<Longrightarrow> cnv8_32 e bs = of_bytes e bs"
  "length bs = 4 \<Longrightarrow> cnv8_F e bs = of_bytes e bs"
  "length cs = 2 \<Longrightarrow> cnv8_16LE e cs = of_bytes e cs"
  "length ds = 8 \<Longrightarrow> cnv8_D e ds = of_bytes e ds"
  by (simp_all only: cnv8_32_def cnv8_F_def cnv8_16LE_def cnv8_D_def list_of_2 list_of_4 list_of_8)

lemma cnv8_16_of_bytes: "length cs = 2 \<Longrightarrow> cnv8_16 e cs = of_bytes e (rev cs)"
  by (cases cs; cases "tl cs") (auto simp: cnv8_16_def)

subsection \<open>Fixed-width codecs\<close>

primrec decode_many :: "nat \<Rightarrow> (bytes \<Rightarrow> 'a) \<Rightarrow> nat \<Rightarrow> bytes \<Rightarrow> 'a list" where
  "decode_many w dec 0 bs = []"
| "decode_many w dec (Suc n) bs = dec (take w bs) # decode_many w dec n (drop w bs)"

lemma length_decode_many [simp]: "length (decode_many w dec n bs) = n"
  by (induction n arbitrary: bs) auto

lemma nth_decode_many:
  "i < n \<Longrightarrow> decode_many w dec n bs ! i = dec (take w (drop (i * w) bs))"
  by (induction n arbitrary: bs i) (auto simp: nth_Cons' gr0_conv_Suc ac_simps split: nat.splits)

locale byte_codec =
  fixes enc :: "'a \<Rightarrow> bytes" and dec :: "bytes \<Rightarrow> 'a" and w :: nat
  assumes length_enc: "length (enc x) = w"
    and dec_enc: "dec (enc x) = x"
    and enc_dec: "length bs = w \<Longrightarrow> enc (dec bs) = bs"
begin

lemma enc_inj: "enc x = enc y \<longleftrightarrow> x = y"
  by (metis dec_enc)

lemma dec_inj: "length bs = w \<Longrightarrow> length cs = w \<Longrightarrow> dec bs = dec cs \<longleftrightarrow> bs = cs"
  by (metis enc_dec)

lemma length_concat_enc: "length (concat (map enc xs)) = length xs * w"
  by (induction xs) (auto simp: length_enc)

lemma decode_many_encode: "decode_many w dec (length xs) (concat (map enc xs) @ rest) = xs"
  by (induction xs) (simp_all add: length_enc dec_enc)

lemma dec_at: "i < length xs \<Longrightarrow> dec (take w (drop (i * w) (concat (map enc xs)))) = xs ! i"
  using decode_many_encode [of xs "[]"] by (metis append_Nil2 nth_decode_many)

end

interpretation cnv32: byte_codec "cnv32_8 e" "cnv8_32 e" 4 for e
  by unfold_locales (simp_all add: cnv_to_bytes cnv_of_bytes)

interpretation cnv16: byte_codec "cnv16_8 e" "cnv8_16LE e" 2 for e
  by unfold_locales (simp_all add: cnv_to_bytes cnv_of_bytes)

interpretation cnvF: byte_codec "cnvF_8 e" "cnv8_F e" 4 for e
  by unfold_locales (simp_all add: cnv_to_bytes cnv_of_bytes)

interpretation cnvD: byte_codec "cnvD_8 e" "cnv8_D e" 8 for e
  by unfold_locales (simp_all add: cnv_to_bytes cnv_of_bytes)

subsection \<open>Network byte order\<close>

locale net_order =
  fixes e :: endianness and n :: nat
    and hton :: "'a::len word \<Rightarrow> 'a word" and ntoh :: "'a word \<Rightarrow> 'a word"
  assumes width: "8 * n = LENGTH('a)"
    and wire: "to_bytes e n (hton x) = to_bytes SYS_BIG_ENDIAN n x"
    and ntoh_hton: "ntoh (hton x) = x"
begin

lemma hton_inj: "hton x = hton y \<longleftrightarrow> x = y"
  by (metis ntoh_hton)

lemma hton_of_bytes: "hton x = of_bytes e (to_bytes SYS_BIG_ENDIAN n x)"
proof -
  have "LENGTH('a) \<le> 8 * n" using width by simp
  then show ?thesis using of_bytes_to_bytes [of n e "hton x"] by (simp add: wire)
qed

lemma hton_surj: "hton (of_bytes SYS_BIG_ENDIAN (to_bytes e n y)) = y"
  by (simp add: hton_of_bytes width [symmetric])

lemma ntoh_of_bytes: "ntoh y = of_bytes SYS_BIG_ENDIAN (to_bytes e n y)"
  by (metis hton_surj ntoh_hton)

lemma hton_ntoh: "hton (ntoh y) = y"
  by (simp only: ntoh_of_bytes hton_surj)

text \<open>Decoding the wire with the host's order and converting is decoding it as big-endian.\<close>

lemma ntoh_decode: "length bs = n \<Longrightarrow> ntoh (of_bytes e bs) = of_bytes SYS_BIG_ENDIAN bs"
  by (simp add: ntoh_of_bytes width [symmetric])

end

lemma to_bytes_2: "to_bytes e 2 (x :: u16) = (case e of
    SYS_LITTLE_ENDIAN \<Rightarrow> [ucast x, ucast (drop_bit 8 x)]
  | SYS_BIG_ENDIAN \<Rightarrow> [ucast (drop_bit 8 x), ucast x])"
  by (cases e) (simp_all add: to_bytes_def eval_nat_numeral)

lemma byte_masks: "(0x00FF :: u16) = mask 8" "(0xFF00 :: u16) = push_bit 8 (mask 8)"
  by (simp_all add: mask_eq_exp_minus_1 push_bit_eq_mult)

lemma htons_little_bytes:
  "(ucast (htons SYS_LITTLE_ENDIAN x) :: byte) = ucast (drop_bit 8 x)"
  "(ucast (drop_bit 8 (htons SYS_LITTLE_ENDIAN x)) :: byte) = ucast x"
  unfolding htons_def byte_masks
  by (auto simp: bit_simps intro!: bit_word_eqI)

lemma htons_involutive: "htons e (htons e x) = x"
  unfolding htons_def byte_masks
  by (cases e) (auto simp: bit_simps intro!: bit_word_eqI)

interpretation htons: net_order e 2 "htons e" "ntohs e" for e
proof
  show "to_bytes e 2 (htons e x) = to_bytes SYS_BIG_ENDIAN 2 x" for x
    by (cases e) (simp_all add: to_bytes_2 htons_little_bytes, simp add: htons_def)
qed (simp_all add: ntohs_def htons_involutive)

subsection \<open>The byte-order functions of libcsp\<close>

record csp_endian =
  host :: endianness
  csp_hton16 :: "u16 \<Rightarrow> u16"
  csp_ntoh16 :: "u16 \<Rightarrow> u16"
  csp_hton32 :: "u32 \<Rightarrow> u32"
  csp_ntoh32 :: "u32 \<Rightarrow> u32"
  csp_htonflt :: "u32 \<Rightarrow> u32"
  csp_ntohflt :: "u32 \<Rightarrow> u32"

definition csp_endian_ok :: "csp_endian \<Rightarrow> bool" where
  "csp_endian_ok c \<longleftrightarrow>
     net_order (host c) 2 (csp_hton16 c) (csp_ntoh16 c) \<and>
     net_order (host c) 4 (csp_hton32 c) (csp_ntoh32 c) \<and>
     net_order (host c) 4 (csp_htonflt c) (csp_ntohflt c)"

subsection \<open>Parameters of a request\<close>

text \<open>\<^verbatim>\<open>cnv8_32\<close> and \<^verbatim>\<open>cnv8_16\<close> of a place in the packet, in host order.\<close>

definition read_u32 :: "csp_endian \<Rightarrow> nat \<Rightarrow> ('w hst, u32) prog" where
  "read_u32 ce off = bnd (pkt_read off 4) (\<lambda>bs. ret (csp_ntoh32 ce (cnv8_32 (host ce) bs)))"

definition read_u16 :: "csp_endian \<Rightarrow> nat \<Rightarrow> ('w hst, u16) prog" where
  "read_u16 ce off = bnd (pkt_read off 2) (\<lambda>bs. ret (csp_ntoh16 ce (cnv8_16 (host ce) bs)))"

lemma read_u32_run [prog_simps]:
  "read_u32 ce off s = (if off + 4 \<le> length (data s)
     then Inr (csp_ntoh32 ce (cnv8_32 (host ce) (take 4 (drop off (data s)))), s) else Inl OutOfBounds)"
  by (simp add: read_u32_def prog_simps)

lemma read_u16_run [prog_simps]:
  "read_u16 ce off s = (if off + 2 \<le> length (data s)
     then Inr (csp_ntoh16 ce (cnv8_16 (host ce) (take 2 (drop off (data s)))), s) else Inl OutOfBounds)"
  by (simp add: read_u16_def prog_simps)

lemma safe_read_word [safe_intros]:
  "off + 4 \<le> n \<Longrightarrow> safe n (read_u32 ce off)" "off + 2 \<le> n \<Longrightarrow> safe n (read_u16 ce off)"
  unfolding read_u32_def read_u16_def by (intro safe_intros; simp)+

end
