(* ===== verification/Hk_Timestamps.thy ===== *)
theory Hk_Timestamps
  imports Utilities
begin

text \<open>
  The in-memory index of \<^verbatim>\<open>Services/source/housekeeping/housekeeping_service.c\<close>: the
  global state of the service, the dynamic array \<^verbatim>\<open>timestamps\<close> with its
  handler, and the search of the file that holds a given time.

  The pointer \<^verbatim>\<open>timestamps\<close> is \<^verbatim>\<open>NULL\<close>, a live block, or dangling; reading a dangling
  pointer or releasing it again is a fault. FreeRTOS' \<^verbatim>\<open>pvPortMalloc\<close> is a parameter: it
  fails or yields a block whose indeterminate contents it chooses.
  All variables have the width of the code; the search loop runs on fuel, and
  \<^verbatim>\<open>search_loop_total\<close> shows that the fuel given is enough.
\<close>

subsection \<open>State\<close>

datatype Result = SUCCESS | FAILURE

datatype ts_ptr = TsNull | TsBlock "u32 list" | TsFreed

datatype lock = LockNull | LockFree | LockHeld

record 'f hk_state =
  MAX_FILES :: u16
  current_file :: u16
  config_loaded :: byte
  timestamps :: ts_ptr
  hk_timestamp_array_size :: u16
  tempTime :: u32
  f_count_lock :: lock
  dev :: 'f

definition hk_init :: "'f \<Rightarrow> 'f hk_state" where
  "hk_init f = \<lparr>MAX_FILES = 20160, current_file = 1, config_loaded = 0, timestamps = TsNull,
     hk_timestamp_array_size = 0, tempTime = 1000, f_count_lock = LockNull, dev = f\<rparr>"

record 'f os_ops =
  pvPortMalloc :: "nat \<Rightarrow> 'f \<Rightarrow> (nat \<Rightarrow> u32) option \<times> 'f"
  xSemaphoreCreateMutex :: "'f \<Rightarrow> bool \<times> 'f"

text \<open>A call of an operation of the environment.\<close>

definition sys :: "('f \<Rightarrow> 'a \<times> 'f) \<Rightarrow> ('f hk_state, 'a) prog" where
  "sys f = (\<lambda>s. case f (dev s) of (a, d) \<Rightarrow> Inr (a, s\<lparr>dev := d\<rparr>))"

lemma sys_run [prog_simps]: "sys f s = Inr (fst (f (dev s)), s\<lparr>dev := snd (f (dev s))\<rparr>)"
  by (simp add: sys_def split: prod.splits)

subsection \<open>Array accesses\<close>

text \<open>\<^verbatim>\<open>timestamps[i]\<close>, \<^verbatim>\<open>timestamps[i] = v\<close> and \<^verbatim>\<open>vPortFree(timestamps)\<close>.\<close>

definition ts_read :: "u32 \<Rightarrow> ('f hk_state, u32) prog" where
  "ts_read i = (\<lambda>s. case timestamps s of
     TsNull \<Rightarrow> Inl NullDeref
   | TsFreed \<Rightarrow> Inl UseAfterFree
   | TsBlock xs \<Rightarrow> (if unat i < length xs then Inr (xs ! unat i, s) else Inl OutOfBounds))"

definition ts_write :: "u32 \<Rightarrow> u32 \<Rightarrow> ('f hk_state, unit) prog" where
  "ts_write i v = (\<lambda>s. case timestamps s of
     TsNull \<Rightarrow> Inl NullDeref
   | TsFreed \<Rightarrow> Inl UseAfterFree
   | TsBlock xs \<Rightarrow> (if unat i < length xs then Inr ((), s\<lparr>timestamps := TsBlock (xs[unat i := v])\<rparr>)
       else Inl OutOfBounds))"

definition ts_free :: "('f hk_state, unit) prog" where
  "ts_free = (\<lambda>s. case timestamps s of
     TsNull \<Rightarrow> Inr ((), s)
   | TsFreed \<Rightarrow> Inl DoubleFree
   | TsBlock xs \<Rightarrow> Inr ((), s\<lparr>timestamps := TsFreed\<rparr>))"

text \<open>\<^verbatim>\<open>memcpy(tmp, timestamps, sizeof(uint32_t) * n)\<close>, as the first \<open>n\<close> items.\<close>

definition ts_copy :: "nat \<Rightarrow> ('f hk_state, u32 list) prog" where
  "ts_copy n = (\<lambda>s. if n = 0 then Inr ([], s) else (case timestamps s of
     TsNull \<Rightarrow> Inl NullDeref
   | TsFreed \<Rightarrow> Inl UseAfterFree
   | TsBlock xs \<Rightarrow> (if n \<le> length xs then Inr (take n xs, s) else Inl OutOfBounds)))"

lemmas ts_op_defs = ts_read_def ts_write_def ts_free_def ts_copy_def

subsection \<open>The search\<close>

primrec search_loop ::
  "nat \<Rightarrow> u32 \<Rightarrow> u32 \<Rightarrow> u32 \<Rightarrow> u32 \<Rightarrow> ('f hk_state, u32) prog" where
  "search_loop 0 offset timestamp left right = fault OutOfFuel"
| "search_loop (Suc n) offset timestamp left right =
     (if left < right then
        (let middle = (left + right) div 2 in
         bnd (ts_read (middle - offset)) (\<lambda>v.
           if v < timestamp then search_loop n offset timestamp (middle + 1) right
           else search_loop n offset timestamp left middle))
      else ret left)"

definition threshold :: u32 where "threshold = 15"

text \<open>The checks around the position that the loop found.\<close>

definition check_neighbours :: "u16 \<Rightarrow> u32 \<Rightarrow> u32 \<Rightarrow> ('f hk_state, u16) prog" where
  "check_neighbours asize timestamp true_position =
     (if true_position > 1 then
        bnd (ts_read (true_position - 1)) (\<lambda>below.
        if timestamp - below \<le> threshold then ret (ucast (true_position - 1))
        else if true_position \<noteq> ucast asize then
          bnd (ts_read true_position) (\<lambda>self.
          if self - timestamp \<le> threshold then ret (ucast true_position) else ret 0)
        else
          bnd (ts_read true_position) (\<lambda>self.
          if timestamp > self \<and> timestamp - self \<le> threshold then ret (ucast true_position)
          else if self - timestamp \<le> threshold then ret (ucast true_position) else ret 0))
      else
        bnd (ts_read true_position) (\<lambda>self.
        if self - timestamp \<le> threshold then ret (ucast true_position) else ret 0))"

definition search_from :: "u16 \<Rightarrow> u32 \<Rightarrow> u32 \<Rightarrow> u32 \<Rightarrow> u32 \<Rightarrow> ('f hk_state, u16) prog" where
  "search_from asize timestamp left right offset =
     bnd (search_loop (Suc (unat (right - left))) offset timestamp left right) (\<lambda>l.
     check_neighbours asize timestamp (l - offset))"

definition get_file_id_from_timestamp :: "u32 \<Rightarrow> ('f hk_state, u16) prog" where
  "get_file_id_from_timestamp timestamp =
     bnd (gets (\<lambda>s. (timestamps s, current_file s, hk_timestamp_array_size s))) (\<lambda>(ts, cur, asize).
     if ts = TsNull then ret 0
     else bnd (ts_read (ucast cur)) (\<lambda>v.
       if v = 0 then
         (if cur = 1 then ret 0
          else search_from asize timestamp 1 (ucast cur - 1) 0)
       else
         search_from asize timestamp (ucast cur) (ucast cur + ucast asize - 1) (ucast cur - 1)))"

subsection \<open>The array handler\<close>

text \<open>\<^verbatim>\<open>for (i = size + 1; i <= num_items; i++) timestamps[i] = 0;\<close> with a 16-bit \<open>i\<close>.\<close>

primrec clear_loop :: "nat \<Rightarrow> u16 \<Rightarrow> u16 \<Rightarrow> ('f hk_state, unit) prog" where
  "clear_loop 0 i num_items = fault OutOfFuel"
| "clear_loop (Suc n) i num_items =
     (if i \<le> num_items then andthen (ts_write (ucast i) 0) (clear_loop n (i + 1) num_items)
      else ret ())"

definition dynamic_timestamp_array_handler :: "'f os_ops \<Rightarrow> u16 \<Rightarrow> ('f hk_state, Result) prog" where
  "dynamic_timestamp_array_handler os num_items =
     (if num_items = 0 then
        bnd (gets timestamps) (\<lambda>ts.
        andthen (if ts \<noteq> TsNull then ts_free else ret ())
       (andthen (modify (\<lambda>s. s\<lparr>hk_timestamp_array_size := 0\<rparr>))
                (ret SUCCESS)))
      else
        bnd (gets hk_timestamp_array_size) (\<lambda>old.
        if num_items \<noteq> old then
          bnd (sys (pvPortMalloc os (4 * (unat num_items + 1)))) (\<lambda>tmp.
          case tmp of
            None \<Rightarrow> ret FAILURE
          | Some g \<Rightarrow>
              bnd (gets timestamps) (\<lambda>ts.
              bnd (if ts \<noteq> TsNull \<and> old < num_items
                   then bnd (ts_copy (unat old)) (\<lambda>xs. andthen ts_free (ret xs))
                   else ret []) (\<lambda>xs.
              andthen (modify (\<lambda>s. s\<lparr>timestamps :=
                TsBlock (overlay 0 xs (map g [0..<unat num_items + 1]))\<rparr>))
             (andthen (clear_loop (unat num_items + 2) (old + 1) num_items)
             (andthen (modify (\<lambda>s. s\<lparr>hk_timestamp_array_size := num_items\<rparr>))
                      (ret SUCCESS))))))
        else ret SUCCESS))"

subsection \<open>The search loop\<close>


lemma ts_read_block:
  "timestamps s = TsBlock xs \<Longrightarrow> unat i < length xs \<Longrightarrow> ts_read i s = Inr (xs ! unat i, s)"
  by (simp add: ts_read_def)

lemma middle_facts:
  fixes l r :: u32
  assumes "l < r" and "unat r < 2 ^ 31"
  defines "m \<equiv> (l + r) div 2"
  shows "unat m = (unat l + unat r) div 2" and "unat l \<le> unat m" and "unat m < unat r"
    and "unat (m + 1) = unat m + 1"
proof -
  have lr: "unat l < unat r" using assms(1) by (simp add: word_less_nat_alt)
  have "unat (l + r) = unat l + unat r"
    using lr assms(2) by (simp add: unat_word_ariths)
  then show um: "unat m = (unat l + unat r) div 2"
    by (simp add: m_def unat_div)
  show "unat l \<le> unat m" and mr: "unat m < unat r" using um lr by auto
  show "unat (m + 1) = unat m + 1"
    using mr assms(2) by (simp add: unat_word_ariths)
qed

text \<open>
  The loop ends within its fuel, reads in bounds only, and stops at a position \<open>p\<close> that is
  the left end or follows a smaller item, and is the right end or holds an item that is not smaller.
  No order on the array is needed for this. The first comparison says on which side of the
  middle \<open>p\<close> is.
\<close>

lemma search_loop_total:
  assumes "timestamps s = TsBlock xs" and "offset \<le> left" and "left \<le> right"
    and "unat right < 2 ^ 31" and "unat right - unat offset < length xs"
    and "unat right - unat left < n"
  shows "\<exists>p. search_loop n offset t left right s = Inr (p, s) \<and> left \<le> p \<and> p \<le> right \<and>
     (left < p \<longrightarrow> xs ! (unat p - unat offset - 1) < t) \<and>
     (p < right \<longrightarrow> t \<le> xs ! (unat p - unat offset)) \<and>
     (left < right \<longrightarrow>
       (xs ! ((unat left + unat right) div 2 - unat offset) < t \<longleftrightarrow> (unat left + unat right) div 2 < unat p))"
  using assms(2-)
proof (induction n arbitrary: left right)
  case 0
  then show ?case by simp
next
  case (Suc n)
  show ?case
  proof (cases "left < right")
    case False
    with Suc.prems(2) show ?thesis by (auto simp: ret_run)
  next
    case True
    define m where "m = (left + right) div 2"
    note mf = middle_facts [OF True Suc.prems(3), folded m_def]
    have om: "unat offset \<le> unat m"
      using Suc.prems(1) mf(2) by (simp add: word_le_nat_alt)
    then have um: "unat (m - offset) = unat m - unat offset"
      by (simp add: unat_sub word_le_nat_alt)
    have rd: "ts_read (m - offset) s = Inr (xs ! (unat m - unat offset), s)"
      using assms(1) um mf(3) Suc.prems(4) om by (simp add: ts_read_block)
    let ?v = "xs ! (unat m - unat offset)"
    have step: "search_loop (Suc n) offset t left right s =
        (if ?v < t then search_loop n offset t (m + 1) right s else search_loop n offset t left m s)"
      using True rd by (simp add: m_def [symmetric] bnd_run Let_def)
    show ?thesis
    proof (cases "?v < t")
      case True
      have pre: "offset \<le> m + 1" "m + 1 \<le> right" "unat right - unat (m + 1) < n"
        using om mf Suc.prems(5) by (auto simp: word_le_nat_alt)
      from Suc.IH [OF pre(1,2) Suc.prems(3,4) pre(3)] obtain p where
        p: "search_loop n offset t (m + 1) right s = Inr (p, s)" "m + 1 \<le> p" "p \<le> right"
          "m + 1 < p \<Longrightarrow> xs ! (unat p - unat offset - 1) < t"
          "p < right \<Longrightarrow> t \<le> xs ! (unat p - unat offset)"
        by blast
      have "xs ! (unat p - unat offset - 1) < t"
      proof (cases "p = m + 1")
        case True
        then have "unat p - unat offset - 1 = unat m - unat offset" using mf(4) om by simp
        then show ?thesis using \<open>?v < t\<close> by simp
      next
        case False
        then show ?thesis using p(2,4) by (auto simp: order.strict_iff_order)
      qed
      moreover have "left \<le> p" using p(2) mf by (simp add: word_le_nat_alt)
      moreover have "unat m < unat p" using p(2) mf(4) by (simp add: word_le_nat_alt)
      ultimately show ?thesis using step True p mf(1) by auto
    next
      case False
      have pre: "left \<le> m" "unat m < 2 ^ 31" "unat m - unat offset < length xs"
        "unat m - unat left < n"
        using mf Suc.prems by (auto simp: word_le_nat_alt)
      from Suc.IH [OF Suc.prems(1) pre] obtain p where
        p: "search_loop n offset t left m s = Inr (p, s)" "left \<le> p" "p \<le> m"
          "left < p \<Longrightarrow> xs ! (unat p - unat offset - 1) < t"
          "p < m \<Longrightarrow> t \<le> xs ! (unat p - unat offset)"
        by blast
      have "t \<le> xs ! (unat p - unat offset)"
        using p(3,5) False by (cases "p = m") auto
      moreover have "p \<le> right" using p(3) mf by (simp add: word_le_nat_alt)
      moreover have "\<not> unat m < unat p" using p(3) by (simp add: word_le_nat_alt)
      ultimately show ?thesis using step False p mf(1) by auto
    qed
  qed
qed

subsection \<open>What the search returns\<close>


definition ts_inv :: "'f hk_state \<Rightarrow> bool" where
  "ts_inv s \<longleftrightarrow> (case timestamps s of
     TsNull \<Rightarrow> hk_timestamp_array_size s = 0
   | TsFreed \<Rightarrow> False
   | TsBlock xs \<Rightarrow> hk_timestamp_array_size s \<noteq> 0 \<and> length xs = unat (hk_timestamp_array_size s) + 1)"

definition search_ok :: "'f hk_state \<Rightarrow> bool" where
  "search_ok s \<longleftrightarrow> ts_inv s \<and> current_file s \<noteq> 0 \<and>
     (timestamps s \<noteq> TsNull \<longrightarrow> current_file s \<le> hk_timestamp_array_size s)"

text \<open>How many items, from item 1, the search looks at.\<close>

definition searchable :: "u32 list \<Rightarrow> nat \<Rightarrow> nat \<Rightarrow> nat" where
  "searchable xs cur n = (if xs ! cur = 0 then cur - 1 else n)"

definition neighbour_spec :: "u32 list \<Rightarrow> nat \<Rightarrow> u32 \<Rightarrow> nat \<Rightarrow> nat" where
  "neighbour_spec xs n t q =
    (if 1 < q \<and> t - xs ! (q - 1) \<le> 15 then q - 1
     else if xs ! q - t \<le> 15 then q
     else if 1 < q \<and> q = n \<and> xs ! q < t \<and> t - xs ! q \<le> 15 then q
     else 0)"

lemma check_neighbours_run:
  assumes "timestamps s = TsBlock xs" and "length xs = unat asize + 1"
    and "unat q \<le> unat asize"
  shows "check_neighbours asize t q s = Inr (of_nat (neighbour_spec xs (unat asize) t (unat q)), s)"
proof -
  have q: "unat q < length xs" and q': "unat (q - 1) < length xs" if "1 < q"
    using assms(2,3) that by (auto simp: unat_sub word_less_nat_alt word_le_nat_alt)
  have q1: "unat (q - 1) = unat q - 1" if "1 < q"
    using that by (simp add: unat_sub word_less_nat_alt word_le_nat_alt)
  have eq: "q = ucast asize \<longleftrightarrow> unat q = unat asize"
    by (metis unat_ucast_u32 word_unat_eq_iff)
  have rq: "ts_read q s = Inr (xs ! unat q, s)"
    using assms by (simp add: ts_read_block)
  have rq': "1 < q \<Longrightarrow> ts_read (q - 1) s = Inr (xs ! (unat q - 1), s)"
    using assms(1) q' q1 by (simp add: ts_read_block)
  have c: "(ucast q :: u16) = of_nat (unat q)" "1 < q \<Longrightarrow> (ucast (q - 1) :: u16) = of_nat (unat q - 1)"
    by simp (metis of_nat_unat q1)
  have lt: "1 < q \<longleftrightarrow> 1 < unat q" by (simp add: word_less_nat_alt)
  show ?thesis
    using rq rq' c eq lt
    by (auto simp: check_neighbours_def neighbour_spec_def threshold_def prog_simps)
qed

text \<open>
  On a well-formed state the search ends without a fault and leaves the state as it is. Unless
  there is nothing to search, it answers from a position \<open>q\<close> that separates smaller items from
  the others, on the side that the comparison with the item in the middle selects.
\<close>

lemma get_file_id_sides:
  assumes ok: "search_ok s" and xs: "timestamps s = TsBlock xs"
  defines "cur \<equiv> unat (current_file s)" and "n \<equiv> unat (hk_timestamp_array_size s)"
  defines "m \<equiv> searchable xs cur n"
  shows "if m = 0 then get_file_id_from_timestamp t s = Inr (0, s)
    else \<exists>q. 1 \<le> q \<and> q \<le> m \<and> (1 < q \<longrightarrow> xs ! (q - 1) < t) \<and> (q < m \<longrightarrow> t \<le> xs ! q) \<and>
      (1 < m \<longrightarrow> (xs ! ((m + 1) div 2) < t \<longleftrightarrow> (m + 1) div 2 < q)) \<and>
      get_file_id_from_timestamp t s = Inr (of_nat (neighbour_spec xs n t q), s)"
proof -
  let ?c = "current_file s" and ?n = "hk_timestamp_array_size s"
  from ok xs have c: "1 \<le> cur" "cur \<le> n" and len: "length xs = n + 1"
    by (auto simp: search_ok_def ts_inv_def cur_def n_def word_le_nat_alt Suc_le_eq unat_gt_0)
  have n: "n < 65536" by (simp add: n_def unat_u16_less)
  have rd: "ts_read (ucast ?c) s = Inr (xs ! cur, s)"
    using c len xs by (simp add: ts_read_block cur_def)
  have from_: "\<exists>q. 1 \<le> q \<and> q \<le> k \<and> (1 < q \<longrightarrow> xs ! (q - 1) < t) \<and> (q < k \<longrightarrow> t \<le> xs ! q) \<and>
      (1 < k \<longrightarrow> (xs ! ((k + 1) div 2) < t \<longleftrightarrow> (k + 1) div 2 < q)) \<and>
      search_from ?n t l r off s = Inr (of_nat (neighbour_spec xs n t q), s)"
    if l: "unat l = unat off + 1" and r: "unat r = unat off + k" and k: "1 \<le> k" "k \<le> n"
      and off: "unat off < n" for l r off :: u32 and k
  proof -
    have rl: "unat (r - l) = unat r - unat l" and le: "off \<le> l" "l \<le> r"
      using l r k by (simp_all add: unat_sub word_le_nat_alt)
    have b: "unat r < 2 ^ 31" "unat r - unat off < length xs" "unat r - unat l < Suc (unat (r - l))"
      using r k off n len rl by auto
    from search_loop_total [OF xs le b, of t] obtain p where
      p: "search_loop (Suc (unat (r - l))) off t l r s = Inr (p, s)" "l \<le> p" "p \<le> r"
        "l < p \<Longrightarrow> xs ! (unat p - unat off - 1) < t" "p < r \<Longrightarrow> t \<le> xs ! (unat p - unat off)"
        "l < r \<Longrightarrow> xs ! ((unat l + unat r) div 2 - unat off) < t \<longleftrightarrow> (unat l + unat r) div 2 < unat p"
      by blast
    have mid: "(unat l + unat r) div 2 = unat off + (k + 1) div 2" using l r by simp
    have po: "unat (p - off) = unat p - unat off"
      using p(2) le(1) by (simp add: unat_sub word_le_nat_alt)
    have "unat (p - off) \<le> unat ?n"
      using po p(3) r k by (simp add: word_le_nat_alt n_def)
    from check_neighbours_run [OF xs _ this, of t] len po have
      "check_neighbours ?n t (p - off) s = Inr (of_nat (neighbour_spec xs n t (unat p - unat off)), s)"
      by (simp add: n_def)
    then have run: "search_from ?n t l r off s =
        Inr (of_nat (neighbour_spec xs n t (unat p - unat off)), s)"
      by (simp add: search_from_def bnd_run p(1) del: search_loop.simps)
    show ?thesis
    proof (intro exI [of _ "unat p - unat off"] conjI impI)
      show "1 \<le> unat p - unat off" "unat p - unat off \<le> k"
        using p(2,3) l r by (auto simp: word_le_nat_alt)
      show "xs ! (unat p - unat off - 1) < t" if "1 < unat p - unat off"
        using that p(4) l by (auto simp: word_less_nat_alt)
      show "t \<le> xs ! (unat p - unat off)" if "unat p - unat off < k"
        using that p(5) r by (auto simp: word_less_nat_alt)
      show "xs ! ((k + 1) div 2) < t \<longleftrightarrow> (k + 1) div 2 < unat p - unat off" if "1 < k"
      proof -
        have "l < r" using that l r by (simp add: word_less_nat_alt)
        from p(6) [OF this] show ?thesis unfolding mid by (simp add: less_diff_conv add.commute)
      qed
    qed (rule run)
  qed
  show ?thesis
  proof (cases "xs ! cur = 0")
    case True
    show ?thesis
    proof (cases "cur = 1")
      case one: True
      then have "?c = 1" by (simp add: cur_def word_unat_eq_iff)
      moreover have "ts_read 1 s = Inr (xs ! 1, s)" using rd one calculation by simp
      ultimately show ?thesis using True one
        by (simp add: m_def searchable_def get_file_id_from_timestamp_def prog_simps xs)
    next
      case False
      have ne: "?c \<noteq> 1" using False by (auto simp: cur_def)
      have "unat (ucast ?c - 1 :: u32) = cur - 1"
        using c by (subst unat_minus_one) (auto simp: cur_def simp flip: unat_eq_0)
      with from_ [of 1 0 "ucast ?c - 1" "cur - 1"] c False
      have "\<exists>q. 1 \<le> q \<and> q \<le> cur - 1 \<and> (1 < q \<longrightarrow> xs ! (q - 1) < t) \<and> (q < cur - 1 \<longrightarrow> t \<le> xs ! q) \<and>
      (1 < cur - 1 \<longrightarrow> (xs ! ((cur) div 2) < t \<longleftrightarrow> (cur) div 2 < q)) \<and>
        search_from ?n t 1 (ucast ?c - 1) 0 s = Inr (of_nat (neighbour_spec xs n t q), s)"
        by simp
      with True False c show ?thesis
        by (simp add: m_def searchable_def get_file_id_from_timestamp_def prog_simps xs rd ne)
    qed
  next
    case False
    have o: "unat (ucast ?c - 1 :: u32) = cur - 1"
      using c by (subst unat_minus_one) (auto simp: cur_def simp flip: unat_eq_0)
    have a: "unat (ucast ?c + ucast ?n :: u32) = cur + n"
      using n c by (simp add: unat_word_ariths cur_def n_def)
    then have "unat (ucast ?c + ucast ?n - 1 :: u32) = cur + n - 1"
      using c by (subst unat_minus_one) (auto simp flip: unat_eq_0)
    with from_ [of "ucast ?c" "ucast ?c - 1" "ucast ?c + ucast ?n - 1" n] c o
    have "\<exists>q. 1 \<le> q \<and> q \<le> n \<and> (1 < q \<longrightarrow> xs ! (q - 1) < t) \<and> (q < n \<longrightarrow> t \<le> xs ! q) \<and>
      (1 < n \<longrightarrow> (xs ! ((n + 1) div 2) < t \<longleftrightarrow> (n + 1) div 2 < q)) \<and>
      search_from ?n t (ucast ?c) (ucast ?c + ucast ?n - 1) (ucast ?c - 1) s =
        Inr (of_nat (neighbour_spec xs n t q), s)"
      by (simp add: cur_def)
    with False c show ?thesis
      by (simp add: m_def searchable_def get_file_id_from_timestamp_def prog_simps xs rd)
  qed
qed

lemma get_file_id_cases:
  assumes "search_ok s" and "timestamps s = TsBlock xs"
  defines "cur \<equiv> unat (current_file s)" and "n \<equiv> unat (hk_timestamp_array_size s)"
  defines "m \<equiv> searchable xs cur n"
  shows "if m = 0 then get_file_id_from_timestamp t s = Inr (0, s)
    else \<exists>q. 1 \<le> q \<and> q \<le> m \<and> (1 < q \<longrightarrow> xs ! (q - 1) < t) \<and> (q < m \<longrightarrow> t \<le> xs ! q) \<and>
      get_file_id_from_timestamp t s = Inr (of_nat (neighbour_spec xs n t q), s)"
  using get_file_id_sides [OF assms(1,2), of t, folded cur_def n_def, folded m_def]
  by (cases "m = 0") auto

definition near :: "u32 \<Rightarrow> u32 \<Rightarrow> bool" where
  "near t v \<longleftrightarrow> t - v \<le> 15 \<or> v - t \<le> 15"

definition ordered :: "u32 list \<Rightarrow> nat \<Rightarrow> bool" where
  "ordered xs m \<longleftrightarrow> (\<forall>i\<in>{1..m}. \<forall>j\<in>{i..m}. xs ! i \<le> xs ! j)"

text \<open>Consecutive items more than the threshold apart, as with one sample every 30 seconds.\<close>

definition spaced :: "u32 list \<Rightarrow> nat \<Rightarrow> bool" where
  "spaced xs m \<longleftrightarrow> (\<forall>i\<in>{1..m}. \<forall>j\<in>{i<..m}. unat (xs ! i) + 15 < unat (xs ! j))"

lemma orderedD: "ordered xs m \<Longrightarrow> 1 \<le> i \<Longrightarrow> i \<le> j \<Longrightarrow> j \<le> m \<Longrightarrow> xs ! i \<le> xs ! j"
  by (simp add: ordered_def)

lemma spacedD: "spaced xs m \<Longrightarrow> 1 \<le> i \<Longrightarrow> i < j \<Longrightarrow> j \<le> m \<Longrightarrow> unat (xs ! i) + 15 < unat (xs ! j)"
  by (simp add: spaced_def)

lemma spaced_ordered: "spaced xs m \<Longrightarrow> ordered xs m"
  unfolding spaced_def ordered_def
  by (metis (no_types, lifting) add_lessD1 atLeastAtMost_iff greaterThanAtMost_iff order.order_iff_strict
      order_less_imp_le word_less_nat_alt)

lemma ordered_split:
  assumes "ordered xs m" and "1 \<le> q" "q \<le> m"
    and "1 < q \<longrightarrow> xs ! (q - 1) < t" "q < m \<longrightarrow> t \<le> xs ! q"
  shows "\<And>i. 1 \<le> i \<Longrightarrow> i < q \<Longrightarrow> xs ! i < t" and "\<And>i. q \<le> i \<Longrightarrow> i \<le> m \<Longrightarrow> q < m \<Longrightarrow> t \<le> xs ! i"
proof -
  show "xs ! i < t" if "1 \<le> i" "i < q" for i
  proof -
    have "xs ! i \<le> xs ! (q - 1)" using assms(3) that by (intro orderedD [OF assms(1)]) auto
    then show ?thesis using assms(4) that by auto
  qed
  show "t \<le> xs ! i" if "q \<le> i" "i \<le> m" "q < m" for i
  proof -
    have "xs ! q \<le> xs ! i" using assms(1,2) that by (auto simp: ordered_def)
    then show ?thesis using assms(5) that by auto
  qed
qed

lemma neighbour_spec_sound:
  "1 \<le> q \<Longrightarrow> neighbour_spec xs n t q \<noteq> 0 \<Longrightarrow>
   neighbour_spec xs n t q \<le> q \<and> near t (xs ! neighbour_spec xs n t q)"
  by (auto simp: neighbour_spec_def near_def split: if_splits)

lemma word_diff_le:
  fixes a b :: u32
  assumes "b \<le> a"
  shows "a - b \<le> 15 \<longleftrightarrow> unat a \<le> unat b + 15"
  using assms by (auto simp: word_le_nat_alt unat_sub)

text \<open>C8: On a well-formed index the search ends without a fault, changes nothing, and a file number it
  returns is inside the array and its time within the threshold of the given one.\<close>

theorem get_file_id_sound:
  assumes "search_ok s"
  shows "\<exists>r. get_file_id_from_timestamp t s = Inr (r, s) \<and>
    (r \<noteq> 0 \<longrightarrow> (\<exists>xs. timestamps s = TsBlock xs \<and> r \<le> hk_timestamp_array_size s \<and> near t (xs ! unat r)))"
proof (cases "timestamps s")
  case TsNull
  then show ?thesis by (simp add: get_file_id_from_timestamp_def prog_simps)
next
  case TsFreed
  with assms show ?thesis by (simp add: search_ok_def ts_inv_def)
next
  case (TsBlock xs)
  let ?n = "unat (hk_timestamp_array_size s)"
  let ?m = "searchable xs (unat (current_file s)) ?n"
  note cs = get_file_id_cases [OF assms TsBlock, of t]
  have m: "?m \<le> ?n"
    using assms TsBlock by (auto simp: searchable_def search_ok_def word_le_nat_alt)
  show ?thesis
  proof (cases "?m = 0")
    case True
    with cs show ?thesis by simp
  next
    case False
    with cs obtain q where q: "1 \<le> q" "q \<le> ?m"
      and run: "get_file_id_from_timestamp t s = Inr (of_nat (neighbour_spec xs ?n t q), s)" by auto
    let ?k = "neighbour_spec xs ?n t q"
    have kq: "?k \<le> q" using neighbour_spec_sound [OF q(1), of xs ?n t] by (cases "?k = 0") auto
    then have "?k < 65536" using q m unat_u16_less [of "hk_timestamp_array_size s"] by linarith
    then have k: "unat (of_nat ?k :: u16) = ?k" by (simp add: unat_of_nat)
    have "near t (xs ! ?k)" if "of_nat ?k \<noteq> (0 :: u16)"
      using neighbour_spec_sound [OF q(1), of xs ?n t] that by (cases "?k = 0") simp_all
    moreover have "of_nat ?k \<le> hk_timestamp_array_size s"
      using kq q m k by (simp add: word_le_nat_alt)
    ultimately show ?thesis
      using run TsBlock k by auto
  qed
qed

theorem get_file_id_exact:
  assumes "search_ok s" and xs: "timestamps s = TsBlock xs"
    and m: "m = searchable xs (unat (current_file s)) (unat (hk_timestamp_array_size s))"
    and sp: "spaced xs m" and k: "1 \<le> k" "k \<le> m"
  shows "get_file_id_from_timestamp (xs ! k) s = Inr (of_nat k, s)"
proof -
  let ?n = "unat (hk_timestamp_array_size s)"
  from get_file_id_cases [OF assms(1) xs, of "xs ! k"] k obtain q where
    q: "1 \<le> q" "q \<le> m" "1 < q \<longrightarrow> xs ! (q - 1) < xs ! k" "q < m \<longrightarrow> xs ! k \<le> xs ! q"
    and run: "get_file_id_from_timestamp (xs ! k) s = Inr (of_nat (neighbour_spec xs ?n (xs ! k) q), s)"
    by (auto simp flip: m)
  note sides = ordered_split [OF spaced_ordered [OF sp] q]
  have "\<not> k < q" using sides(1) [of k] k by auto
  moreover have "\<not> q < k"
  proof
    assume "q < k"
    then have "unat (xs ! q) + 15 < unat (xs ! k)" "q < m" using sp q(1) k by (auto simp: spaced_def)
    with q(4) show False by (simp add: word_le_nat_alt)
  qed
  ultimately have qk: "q = k" by simp
  have "\<not> xs ! k - xs ! (k - 1) \<le> 15" if "1 < k"
  proof -
    have "unat (xs ! (k - 1)) + 15 < unat (xs ! k)" using that k by (intro spacedD [OF sp]) auto
    then show ?thesis by (subst word_diff_le) (auto simp: word_le_nat_alt)
  qed
  then show ?thesis using run by (simp add: qk neighbour_spec_def)
qed

text \<open>C7: In an index whose items are in ascending order the search finds a file whenever some item is
  within the threshold of the given time and, in addition, the time is not past the newest item or
  the index is full and has more than one item.\<close>

theorem get_file_id_complete:
  assumes "search_ok s" and xs: "timestamps s = TsBlock xs"
    and m: "m = searchable xs (unat (current_file s)) (unat (hk_timestamp_array_size s))"
    and ord: "ordered xs m" and i: "1 \<le> i" "i \<le> m"
    and close: "unat t \<le> unat (xs ! i) + 15" "unat (xs ! i) \<le> unat t + 15"
    and cover: "t \<le> xs ! m \<or> (m = unat (hk_timestamp_array_size s) \<and> 1 < m)"
  shows "\<exists>r. get_file_id_from_timestamp t s = Inr (r, s) \<and> r \<noteq> 0"
proof -
  let ?n = "unat (hk_timestamp_array_size s)"
  from get_file_id_cases [OF assms(1) xs, of t] i obtain q where
    q: "1 \<le> q" "q \<le> m" "1 < q \<longrightarrow> xs ! (q - 1) < t" "q < m \<longrightarrow> t \<le> xs ! q"
    and run: "get_file_id_from_timestamp t s = Inr (of_nat (neighbour_spec xs ?n t q), s)"
    by (auto simp flip: m)
  note sides = ordered_split [OF ord q]
  have mn: "m \<le> ?n"
    using assms(1) xs by (auto simp: m searchable_def search_ok_def word_le_nat_alt)
  have "neighbour_spec xs ?n t q \<noteq> 0"
  proof (cases "i < q")
    case True
    have "xs ! i \<le> xs ! (q - 1)" using True i q by (intro orderedD [OF ord]) auto
    moreover have "xs ! (q - 1) < t" using True i q(3) by auto
    ultimately have "t - xs ! (q - 1) \<le> 15"
      using close by (subst word_diff_le) (auto simp: word_le_nat_alt word_less_nat_alt)
    then show ?thesis using True i by (simp add: neighbour_spec_def)
  next
    case False
    have le: "xs ! q \<le> xs ! i" using False ord i q by (auto simp: ordered_def)
    show ?thesis
    proof (cases "t \<le> xs ! q")
      case True
      then have "xs ! q - t \<le> 15"
        using close le by (subst word_diff_le) (auto simp: word_le_nat_alt)
      then show ?thesis using q(1) by (simp add: neighbour_spec_def)
    next
      case gt: False
      then have qm: "q = m" using q(2,4) by auto
      then have "m = ?n" "1 < m" using gt cover by auto
      moreover have "i = m" using False qm i by simp
      moreover have "t - xs ! m \<le> 15"
        using close gt qm \<open>i = m\<close> by (subst word_diff_le) (auto simp: word_le_nat_alt)
      ultimately show ?thesis using gt qm by (auto simp: neighbour_spec_def)
    qed
  qed
  moreover have "neighbour_spec xs ?n t q < 65536"
    using neighbour_spec_sound [OF q(1), of xs ?n t] calculation q(2) mn
      unat_u16_less [of "hk_timestamp_array_size s"] by linarith
  ultimately have "of_nat (neighbour_spec xs ?n t q) \<noteq> (0 :: u16)"
    by (rule of_nat_u16_nonzero)
  with run show ?thesis by blast
qed

text \<open>
  While the array is not yet full, a time shortly after the newest sample is not found: the
  comparison with the newest item is made in the direction that wraps around.
\<close>

text \<open>C11: While an index whose samples are more than 15 seconds apart is filling up, a time after the
  newest sample and at most 15 seconds later is reported as not found: the difference is taken in
  the direction that wraps around.\<close>

theorem get_file_id_misses_newest:
  assumes "search_ok s" and xs: "timestamps s = TsBlock xs"
    and m: "m = searchable xs (unat (current_file s)) (unat (hk_timestamp_array_size s))"
    and "m < unat (hk_timestamp_array_size s)" and "spaced xs m" and "1 \<le> m"
    and late: "unat (xs ! m) < unat t" "unat t \<le> unat (xs ! m) + 15"
  shows "get_file_id_from_timestamp t s = Inr (0, s)"
proof -
  let ?n = "unat (hk_timestamp_array_size s)"
  from get_file_id_cases [OF assms(1) xs, of t] assms(6) obtain q where
    q: "1 \<le> q" "q \<le> m" "1 < q \<longrightarrow> xs ! (q - 1) < t" "q < m \<longrightarrow> t \<le> xs ! q"
    and run: "get_file_id_from_timestamp t s = Inr (of_nat (neighbour_spec xs ?n t q), s)"
    by (auto simp flip: m)
  have "\<not> q < m"
  proof
    assume "q < m"
    with q(1,4) orderedD [OF spaced_ordered [OF assms(5)], of q m] have "t \<le> xs ! m" by auto
    with late(1) show False by (simp add: word_le_nat_alt)
  qed
  then have qm: "q = m" using q(2) by simp
  have "\<not> t - xs ! (m - 1) \<le> 15" if "1 < m"
  proof -
    have "unat (xs ! (m - 1)) + 15 < unat (xs ! m)" using that by (intro spacedD [OF assms(5)]) auto
    then show ?thesis using late by (subst word_diff_le) (auto simp: word_le_nat_alt)
  qed
  moreover have "\<not> xs ! m - t \<le> 15"
  proof -
    have "unat (xs ! m - t) = 4294967296 - (unat t - unat (xs ! m))"
      using late unat_u32_less [of t] by (simp add: unat_sub_if')
    then show ?thesis using late unat_u32_less [of t] by (simp add: word_le_nat_alt)
  qed
  ultimately have "neighbour_spec xs ?n t q = 0"
    using qm assms(4) by (auto simp: neighbour_spec_def)
  with run show ?thesis by simp
qed

text \<open>
  A ring that has wrapped around: the items from \<open>c\<close> on are the older ones, those before \<open>c\<close> the
  newer ones, and all are more than the threshold apart.
\<close>

definition rotated :: "u32 list \<Rightarrow> nat \<Rightarrow> nat \<Rightarrow> bool" where
  "rotated xs c n \<longleftrightarrow>
     (\<forall>i\<in>{c..n}. \<forall>j\<in>{i<..n}. unat (xs ! i) + 15 < unat (xs ! j)) \<and>
     (\<forall>i\<in>{1..<c}. \<forall>j\<in>{i<..<c}. unat (xs ! i) + 15 < unat (xs ! j)) \<and>
     (\<forall>i\<in>{c..n}. \<forall>j\<in>{1..<c}. unat (xs ! i) + 15 < unat (xs ! j))"

lemma rotatedD:
  assumes "rotated xs c n"
  shows "c \<le> i \<Longrightarrow> i < j \<Longrightarrow> j \<le> n \<Longrightarrow> unat (xs ! i) + 15 < unat (xs ! j)"
    and "c \<le> i \<Longrightarrow> i \<le> n \<Longrightarrow> 1 \<le> j \<Longrightarrow> j < c \<Longrightarrow> unat (xs ! i) + 15 < unat (xs ! j)"
  using assms by (simp_all add: rotated_def)

lemma far_apart:
  fixes a b :: u32
  assumes "unat a + 15 < unat b"
  shows "a < b" and "\<not> b - a \<le> 15" and "15 \<le> unat a \<Longrightarrow> \<not> a - b \<le> 15"
proof -
  show "a < b" using assms by (simp add: word_less_nat_alt)
  show "\<not> b - a \<le> 15" using assms by (subst word_diff_le) (auto simp: word_le_nat_alt)
  assume "15 \<le> unat a"
  moreover have "unat (a - b) = 4294967296 - (unat b - unat a)"
    using assms unat_u32_less [of b] by (simp add: unat_sub_if')
  ultimately show "\<not> a - b \<le> 15" using unat_u32_less [of b] assms by (simp add: word_le_nat_alt)
qed

text \<open>C12: Once the ring has wrapped around (the items from current_file on are the older ones, those
  before it the newer ones, all more than 15 seconds apart), one of the two parts is never found:
  with current_file in the first half of the array, the middle included, the search for the time
  of any newer sample reports that there is none, and with current_file in the second half the
  search for the time of any older one. The positions are not taken modulo the array.\<close>

theorem search_misses_rotated:
  assumes ok: "search_ok s" and xs: "timestamps s = TsBlock xs"
    and c: "c = unat (current_file s)" and n: "n = unat (hk_timestamp_array_size s)"
    and ring: "rotated xs c n" "xs ! c \<noteq> 0" "1 < c"
    and k: "if c \<le> (n + 1) div 2 then 1 \<le> k \<and> k < c else c \<le> k \<and> k \<le> n"
  shows "get_file_id_from_timestamp (xs ! k) s = Inr (0, s)"
proof -
  let ?t = "xs ! k" and ?h = "(n + 1) div 2"
  have cn: "c \<le> n" using ok xs by (auto simp: search_ok_def c n word_le_nat_alt)
  then have "searchable xs c n = n" "n \<noteq> 0" "1 < n" using ring by (simp_all add: searchable_def)
  with get_file_id_sides [OF ok xs, of ?t, folded c n] obtain q where
    q: "1 \<le> q" "q \<le> n" "1 < q \<Longrightarrow> xs ! (q - 1) < ?t" "q < n \<Longrightarrow> ?t \<le> xs ! q"
      "xs ! ?h < ?t \<longleftrightarrow> ?h < q"
    and run: "get_file_id_from_timestamp ?t s = Inr (of_nat (neighbour_spec xs n ?t q), s)" by auto
  note apart = rotatedD [OF ring(1)]
  have "neighbour_spec xs n ?t q = 0"
  proof (cases "c \<le> ?h")
    case True
    then have k: "1 \<le> k" "k < c" and h: "?h < n" using k ring(3) cn by auto
    have older: "unat (xs ! i) + 15 < unat ?t" if "c \<le> i" "i \<le> n" for i using apart(2) that k by auto
    have "?h < q" using q(5) far_apart(1) [OF older [of ?h]] True h by auto
    moreover have "q = n"
      using q(2,4) far_apart(1) [OF older [of q]] True calculation by (metis leD le_less_trans less_imp_le order_le_less)
    moreover have "\<not> ?t - xs ! (n - 1) \<le> 15" using far_apart(2) [OF older [of "n - 1"]] True h by auto
    moreover have "15 \<le> unat (xs ! n)"
      using apart(1) [of c n] True h by auto
    ultimately show ?thesis
      using far_apart(2,3) [OF older [of n]] cn by (auto simp: neighbour_spec_def)
  next
    case False
    then have k: "c \<le> k" "k \<le> n" using k by auto
    have newer: "unat ?t + 15 < unat (xs ! i)" if "1 \<le> i" "i < c" for i using apart(2) that k by auto
    have h: "1 \<le> ?h" "?h < c" using False \<open>n \<noteq> 0\<close> by auto
    then have "\<not> xs ! ?h < ?t" using far_apart(1) [OF newer [of ?h]] by auto
    then have "q \<le> ?h" using q(5) by auto
    have "q = 1"
    proof (rule ccontr)
      assume "q \<noteq> 1"
      then have "1 < q" using q(1) by simp
      moreover have "1 \<le> q - 1" "q - 1 < c" using calculation \<open>q \<le> ?h\<close> h by linarith+
      ultimately show False using q(3) far_apart(1) [OF newer [of "q - 1"]] by (meson order_less_asym)
    qed
    then show ?thesis using far_apart(2) [OF newer [of 1]] ring(3) by (simp add: neighbour_spec_def)
  qed
  then show ?thesis using run by simp
qed

lemma search_loop_numeral [prog_simps]:
  "search_loop (numeral k) offset timestamp left right =
     (if left < right then
        (let middle = (left + right) div 2 in
         bnd (ts_read (middle - offset)) (\<lambda>v.
           if v < timestamp then search_loop (pred_numeral k) offset timestamp (middle + 1) right
           else search_loop (pred_numeral k) offset timestamp left middle))
      else ret left)"
  by (simp add: numeral_eq_Suc)

subsection \<open>What the array handler does\<close>


lemma ts_write_block:
  "timestamps s = TsBlock xs \<Longrightarrow> unat i < length xs \<Longrightarrow>
   ts_write i v s = Inr ((), s\<lparr>timestamps := TsBlock (xs[unat i := v])\<rparr>)"
  by (simp add: ts_write_def)

definition cleared :: "nat \<Rightarrow> nat \<Rightarrow> u32 list \<Rightarrow> u32 list" where
  "cleared i n xs = map (\<lambda>j. if i \<le> j \<and> j \<le> n then 0 else xs ! j) [0..<length xs]"

lemma cleared_step: "i \<le> n \<Longrightarrow> cleared (i + 1) n (xs[i := 0]) = cleared i n xs"
  by (rule nth_equalityI) (auto simp: cleared_def nth_list_update)

lemma cleared_none: "n < i \<Longrightarrow> cleared i n xs = xs"
  by (rule nth_equalityI) (auto simp: cleared_def)

lemma clear_loop_run:
  assumes "timestamps s = TsBlock xs" and "unat num < length xs" and "unat num < 65535"
    and "unat num + 1 - unat i < n"
  shows "clear_loop n i num s = Inr ((), s\<lparr>timestamps := TsBlock (cleared (unat i) (unat num) xs)\<rparr>)"
  using assms
proof (induction n arbitrary: i s xs)
  case 0
  then show ?case by simp
next
  case (Suc n)
  show ?case
  proof (cases "i \<le> num")
    case False
    then have "unat num < unat i" by (simp add: word_less_nat_alt not_le)
    moreover have "s = s\<lparr>timestamps := TsBlock xs\<rparr>" using Suc.prems(1) by simp
    ultimately show ?thesis using False by (simp add: ret_run cleared_none)
  next
    case True
    then have le: "unat i \<le> unat num" by (simp add: word_le_nat_alt)
    then have i1: "unat (i + 1) = unat i + 1"
      using Suc.prems(3) by (intro unat_plus_one_word) simp
    let ?s = "s\<lparr>timestamps := TsBlock (xs[unat i := 0])\<rparr>"
    have "ts_write (ucast i) 0 s = Inr ((), ?s)"
      using Suc.prems(1,2) le by (simp add: ts_write_block)
    moreover from Suc.IH [of ?s "xs[unat i := 0]" "i + 1"] Suc.prems le i1 cleared_step [OF le, of xs]
    have "clear_loop n (i + 1) num ?s = Inr ((), s\<lparr>timestamps := TsBlock (cleared (unat i) (unat num) xs)\<rparr>)"
      by simp
    ultimately show ?thesis using True by (simp add: andthen_run)
  qed
qed

text \<open>The contents of the array, none while there is no block.\<close>

definition items :: "ts_ptr \<Rightarrow> u32 list" where
  "items ts = (case ts of TsBlock xs \<Rightarrow> xs | _ \<Rightarrow> [])"

text \<open>
  Growing from \<open>old\<close> to \<open>n\<close> items keeps the items below \<open>old\<close>, leaves item \<open>old\<close> as the
  allocator delivered it, and clears the rest: the copy is one item short, since item 0 is not used
  but copied. Shrinking leaves every item as the allocator delivered it.
\<close>

definition resized :: "u32 list \<Rightarrow> nat \<Rightarrow> nat \<Rightarrow> (nat \<Rightarrow> u32) \<Rightarrow> u32 list" where
  "resized xs old n g = map (\<lambda>j.
     if old < n \<and> j < old then xs ! j else if old < j then 0 else g j) [0..<n + 1]"

lemma length_resized [simp]: "length (resized xs old n g) = n + 1"
  by (simp add: resized_def)

lemma nth_resized:
  "j \<le> n \<Longrightarrow> resized xs old n g ! j =
    (if old < n \<and> j < old then xs ! j else if old < j then 0 else g j)"
  by (simp add: resized_def del: upt_Suc)

lemma dynamic_timestamp_array_handler_run:
  assumes inv: "ts_inv s" and "num \<noteq> 0" and "num \<noteq> hk_timestamp_array_size s"
    and "unat num < 65535" and "unat (hk_timestamp_array_size s) < 65535"
    and m: "pvPortMalloc os (4 * (unat num + 1)) (dev s) = (r, d)"
  shows "dynamic_timestamp_array_handler os num s = (case r of
      None \<Rightarrow> Inr (FAILURE, s\<lparr>dev := d\<rparr>)
    | Some g \<Rightarrow> Inr (SUCCESS, s\<lparr>dev := d, hk_timestamp_array_size := num,
        timestamps := TsBlock (resized (items (timestamps s)) (unat (hk_timestamp_array_size s)) (unat num) g)\<rparr>))"
proof (cases r)
  case None
  then show ?thesis using assms by (simp add: dynamic_timestamp_array_handler_def prog_simps)
next
  case (Some g)
  let ?old = "hk_timestamp_array_size s" and ?n = "unat num"
  define xs where "xs = (if timestamps s \<noteq> TsNull \<and> ?old < num then take (unat ?old) (items (timestamps s)) else [])"
  define ys where "ys = overlay 0 xs (map g [0..<?n + 1])"
  have old1: "unat (?old + 1) = unat ?old + 1"
    using assms(5) by (intro unat_plus_one_word) simp
  have lx: "length xs \<le> ?n + 1"
    using inv by (auto simp: xs_def ts_inv_def items_def word_less_nat_alt split: ts_ptr.splits)
  have ly: "length ys = ?n + 1"
    using lx by (simp add: ys_def del: upt_Suc)
  have y: "cleared (unat ?old + 1) ?n ys = resized (items (timestamps s)) (unat ?old) ?n g"
  proof (rule nth_equalityI)
    fix j assume "j < length (cleared (unat ?old + 1) ?n ys)"
    then have j: "j \<le> ?n" by (simp add: cleared_def ly)
    have "ys ! j = (if j < length xs then xs ! j else g j)"
      using j lx by (auto simp: ys_def nth_overlay simp del: upt_Suc)
    then show "cleared (unat ?old + 1) ?n ys ! j = resized (items (timestamps s)) (unat ?old) ?n g ! j"
      using inv j ly
      by (auto simp: cleared_def nth_resized xs_def ts_inv_def items_def word_less_nat_alt
          simp del: upt_Suc split: ts_ptr.splits)
  qed (simp add: cleared_def ly)
  let ?s = "s\<lparr>dev := d, timestamps := TsBlock ys\<rparr>"
  have clear: "clear_loop (?n + 2) (?old + 1) num ?s =
      Inr ((), s\<lparr>dev := d, timestamps := TsBlock (resized (items (timestamps s)) (unat ?old) ?n g)\<rparr>)"
    using clear_loop_run [of ?s ys num "?old + 1" "?n + 2"] ly y old1 assms(4) by simp
  show ?thesis
  proof (cases "timestamps s \<noteq> TsNull \<and> ?old < num")
    case True
    then obtain zs where "timestamps s = TsBlock zs" "length zs = unat ?old + 1" "unat ?old \<noteq> 0"
      using inv by (auto simp: ts_inv_def word_unat_eq_iff split: ts_ptr.splits)
    with True assms(2,3) m Some clear show ?thesis
      by (simp add: dynamic_timestamp_array_handler_def prog_simps ts_copy_def ts_free_def
          xs_def ys_def items_def del: clear_loop.simps upt_Suc)
  next
    case False
    with assms(2,3) m Some clear show ?thesis
      by (auto simp: dynamic_timestamp_array_handler_def prog_simps
          xs_def ys_def items_def simp del: clear_loop.simps upt_Suc)
  qed
qed

lemma handler_release:
  "timestamps s = TsBlock xs \<Longrightarrow> dynamic_timestamp_array_handler os 0 s =
     Inr (SUCCESS, s\<lparr>timestamps := TsFreed, hk_timestamp_array_size := 0\<rparr>)"
  by (simp add: dynamic_timestamp_array_handler_def prog_simps ts_free_def)

lemma handler_release_null:
  "timestamps s = TsNull \<Longrightarrow> dynamic_timestamp_array_handler os 0 s =
     Inr (SUCCESS, s\<lparr>hk_timestamp_array_size := 0\<rparr>)"
  by (simp add: dynamic_timestamp_array_handler_def prog_simps)

lemma handler_release_twice:
  "timestamps s = TsFreed \<Longrightarrow> dynamic_timestamp_array_handler os 0 s = Inl DoubleFree"
  by (simp add: dynamic_timestamp_array_handler_def prog_simps ts_free_def)

lemma handler_same:
  "num = hk_timestamp_array_size s \<Longrightarrow> num \<noteq> 0 \<Longrightarrow>
   dynamic_timestamp_array_handler os num s = Inr (SUCCESS, s)"
  by (simp add: dynamic_timestamp_array_handler_def prog_simps)

end
