(* ===== verification/Reliance.thy ===== *)
theory Reliance
  imports Prelude
begin

text \<open>
  The file system (Reliance Edge, \<^verbatim>\<open>redposix.h\<close>) is not part of the repository: its
  operations are the record \<^verbatim>\<open>red_ops\<close>, and \<^verbatim>\<open>red_posix\<close> states what POSIX documents of them
  in terms of the file contents, the open handles and \<^verbatim>\<open>red_errno\<close>: every operation either does
  its work or sets \<^verbatim>\<open>red_errno\<close>, and no operation resets \<^verbatim>\<open>red_errno\<close>.
\<close>

subsection \<open>The file system interface\<close>

datatype oflag = RED_CREAT_EXCL_RDWR | RED_CREAT_RDWR | RED_RDONLY

record 'f red_ops =
  red_open :: "string \<Rightarrow> oflag \<Rightarrow> 'f \<Rightarrow> int \<times> 'f"
  red_close :: "int \<Rightarrow> 'f \<Rightarrow> 'f"
  red_write :: "int \<Rightarrow> bytes \<Rightarrow> 'f \<Rightarrow> 'f"
  red_read :: "int \<Rightarrow> nat \<Rightarrow> 'f \<Rightarrow> (int \<times> bytes) \<times> 'f"
  red_lseek_set :: "int \<Rightarrow> int \<Rightarrow> 'f \<Rightarrow> 'f"
  red_lseek_cur :: "int \<Rightarrow> int \<Rightarrow> 'f \<Rightarrow> 'f"
  red_unlink :: "string \<Rightarrow> 'f \<Rightarrow> 'f"
  red_errno :: "'f \<Rightarrow> int"
  set_red_errno :: "int \<Rightarrow> 'f \<Rightarrow> 'f"

definition RED_EEXIST :: int where [const_simps]: "RED_EEXIST = 17"
definition RED_EINVAL :: int where [const_simps]: "RED_EINVAL = 22"

record fs_view =
  files :: "string \<Rightarrow> bytes option"
  handles :: "int \<Rightarrow> (string \<times> nat) option"
  verrno :: int

text \<open>Contents after writing \<open>bs\<close> at \<open>pos\<close>; a gap past the end reads as zeros.\<close>

definition put :: "nat \<Rightarrow> bytes \<Rightarrow> bytes \<Rightarrow> bytes" where
  "put pos bs c = (if bs = [] then c
     else overlay pos bs (c @ replicate (pos + length bs - length c) 0))"

text \<open>A read whose result, the count, is ignored: the bytes that it delivers.\<close>

definition read_bytes :: "'f red_ops \<Rightarrow> int \<Rightarrow> nat \<Rightarrow> 'f \<Rightarrow> bytes \<times> 'f" where
  "read_bytes ops fd n f = (snd (fst (red_read ops fd n f)), snd (red_read ops fd n f))"

definition open_spec :: "string \<Rightarrow> oflag \<Rightarrow> fs_view \<Rightarrow> int \<Rightarrow> fs_view \<Rightarrow> bool" where
  "open_spec nm fl v fd v' \<longleftrightarrow>
     (if fd = -1 then
        files v' = files v \<and> handles v' = handles v \<and> verrno v' \<noteq> 0 \<and>
        (verrno v' = RED_EEXIST \<and> verrno v \<noteq> RED_EEXIST \<longrightarrow> fl = RED_CREAT_EXCL_RDWR \<and> files v nm \<noteq> None)
      else
        0 \<le> fd \<and> handles v fd = None \<and> handles v' = (handles v)(fd \<mapsto> (nm, 0)) \<and> verrno v' = verrno v \<and>
        (case files v nm of
           Some c \<Rightarrow> fl \<noteq> RED_CREAT_EXCL_RDWR \<and> files v' = files v
         | None \<Rightarrow> fl \<noteq> RED_RDONLY \<and> files v' = (files v)(nm \<mapsto> [])))"

definition close_spec :: "int \<Rightarrow> fs_view \<Rightarrow> fs_view \<Rightarrow> bool" where
  "close_spec fd v v' \<longleftrightarrow> files v' = files v \<and> handles v' = (handles v)(fd := None) \<and>
     (verrno v' = verrno v \<or> verrno v' \<noteq> 0)"

definition write_spec :: "int \<Rightarrow> bytes \<Rightarrow> fs_view \<Rightarrow> fs_view \<Rightarrow> bool" where
  "write_spec fd bs v v' \<longleftrightarrow> (case handles v fd of
     None \<Rightarrow> files v' = files v \<and> handles v' = handles v \<and> verrno v' \<noteq> 0
   | Some (nm, pos) \<Rightarrow>
       (\<exists>c. files v nm = Some c \<and> files v' = (files v)(nm \<mapsto> put pos bs c) \<and>
         handles v' = (handles v)(fd \<mapsto> (nm, pos + length bs)) \<and> verrno v' = verrno v) \<or>
       (verrno v' \<noteq> 0 \<and> (\<exists>fc. files v' = (files v)(nm := fc)) \<and>
         (\<exists>pos'. handles v' = (handles v)(fd \<mapsto> (nm, pos')))))"

definition read_spec :: "int \<Rightarrow> nat \<Rightarrow> fs_view \<Rightarrow> bytes \<Rightarrow> fs_view \<Rightarrow> bool" where
  "read_spec fd n v bs v' \<longleftrightarrow> files v' = files v \<and> length bs \<le> n \<and> (case handles v fd of
     None \<Rightarrow> bs = [] \<and> handles v' = handles v \<and> verrno v' \<noteq> 0
   | Some (nm, pos) \<Rightarrow>
       (\<exists>c. files v nm = Some c \<and> bs = take n (drop pos c) \<and>
         handles v' = (handles v)(fd \<mapsto> (nm, pos + length bs)) \<and> verrno v' = verrno v) \<or>
       (verrno v' \<noteq> 0 \<and> (\<exists>pos'. handles v' = (handles v)(fd \<mapsto> (nm, pos')))))"

definition seek_spec :: "int \<Rightarrow> int \<Rightarrow> bool \<Rightarrow> fs_view \<Rightarrow> fs_view \<Rightarrow> bool" where
  "seek_spec fd off cur v v' \<longleftrightarrow> files v' = files v \<and> (case handles v fd of
     None \<Rightarrow> handles v' = handles v \<and> verrno v' \<noteq> 0
   | Some (nm, pos) \<Rightarrow>
       (let target = (if cur then int pos + off else off) in
       if 0 \<le> target then handles v' = (handles v)(fd \<mapsto> (nm, nat target)) \<and> verrno v' = verrno v
       else verrno v' \<noteq> 0 \<and> handles v' = handles v))"

definition unlink_spec :: "string \<Rightarrow> fs_view \<Rightarrow> fs_view \<Rightarrow> bool" where
  "unlink_spec nm v v' \<longleftrightarrow> handles v' = handles v \<and>
     ((files v' = (files v)(nm := None) \<and> verrno v' = verrno v) \<or> (files v' = files v \<and> verrno v' \<noteq> 0))"

definition red_posix :: "'f red_ops \<Rightarrow> ('f \<Rightarrow> fs_view) \<Rightarrow> bool" where
  "red_posix ops view \<longleftrightarrow>
     (\<forall>f. red_errno ops f = verrno (view f)) \<and>
     (\<forall>n f. view (set_red_errno ops n f) = (view f)\<lparr>verrno := n\<rparr>) \<and>
     (\<forall>nm fl f. open_spec nm fl (view f) (fst (red_open ops nm fl f)) (view (snd (red_open ops nm fl f)))) \<and>
     (\<forall>fd f. close_spec fd (view f) (view (red_close ops fd f))) \<and>
     (\<forall>fd bs f. write_spec fd bs (view f) (view (red_write ops fd bs f))) \<and>
     (\<forall>fd n f. read_spec fd n (view f) (fst (read_bytes ops fd n f)) (view (snd (read_bytes ops fd n f)))) \<and>
     (\<forall>fd n f. fst (fst (red_read ops fd n f)) = int (length (fst (read_bytes ops fd n f))) \<or>
        (fst (fst (red_read ops fd n f)) = -1 \<and> verrno (view (snd (red_read ops fd n f))) \<noteq> 0)) \<and>
     (\<forall>fd n f. seek_spec fd n False (view f) (view (red_lseek_set ops fd n f))) \<and>
     (\<forall>fd n f. seek_spec fd n True (view f) (view (red_lseek_cur ops fd n f))) \<and>
     (\<forall>nm f. unlink_spec nm (view f) (view (red_unlink ops nm f)))"

subsection \<open>File contents\<close>

lemma length_put: "length (put pos bs c) = (if bs = [] then length c else max (length c) (pos + length bs))"
  by (auto simp: put_def max_def)

lemma nth_put:
  "i < length (put pos bs c) \<Longrightarrow> put pos bs c ! i =
    (if pos \<le> i \<and> i < pos + length bs then bs ! (i - pos) else if i < length c then c ! i else 0)"
  by (auto simp: put_def nth_overlay nth_append split: if_splits)

lemma put_put: "put (pos + length as) bs (put pos as c) = put pos (as @ bs) c"
  by (rule nth_equalityI) (auto simp: nth_put length_put nth_append split: if_splits)

lemma put_same: "take (length bs) (drop pos (put pos bs c)) = bs"
  by (rule nth_equalityI) (auto simp: nth_put length_put)

lemma put_before:
  "off + n \<le> pos \<Longrightarrow> off + n \<le> length c \<Longrightarrow> take n (drop off (put pos bs c)) = take n (drop off c)"
  by (rule nth_equalityI) (auto simp: nth_put length_put)

lemma put_after:
  assumes "pos + length bs \<le> off" and "off \<le> length c"
  shows "take n (drop off (put pos bs c)) = take n (drop off c)"
proof -
  have "length (put pos bs c) = length c" using assms by (simp add: length_put max_absorb1)
  then show ?thesis using assms by (intro nth_equalityI) (auto simp: nth_put)
qed

text \<open>An operation that changes at most the file \<open>nm\<close> and the position of its open handle \<open>fd\<close>.\<close>

definition touches :: "string \<Rightarrow> int \<Rightarrow> fs_view \<Rightarrow> fs_view \<Rightarrow> bool" where
  "touches nm fd v v' \<longleftrightarrow> (\<forall>x. x \<noteq> nm \<longrightarrow> files v' x = files v x) \<and>
     (\<forall>h. h \<noteq> fd \<longrightarrow> handles v' h = handles v h) \<and> (\<exists>pos. handles v' fd = Some (nm, pos))"

lemma touches_refl: "handles v fd = Some (nm, pos) \<Longrightarrow> touches nm fd v v"
  by (simp add: touches_def)

lemma touches_trans: "touches nm fd v v1 \<Longrightarrow> touches nm fd v1 v2 \<Longrightarrow> touches nm fd v v2"
  by (simp add: touches_def)

lemma write_touches:
  "write_spec fd bs v v' \<Longrightarrow> handles v fd = Some (nm, pos) \<Longrightarrow> touches nm fd v v'"
  by (auto simp: write_spec_def touches_def)

lemma read_touches:
  "read_spec fd n v bs v' \<Longrightarrow> handles v fd = Some (nm, pos) \<Longrightarrow> touches nm fd v v' \<and> files v' = files v"
  by (auto simp: read_spec_def touches_def)

text \<open>The clauses of the contract.\<close>

lemma red_posixD:
  assumes "red_posix ops view"
  shows "red_errno ops f = verrno (view f)"
    and "view (set_red_errno ops n f) = (view f)\<lparr>verrno := n\<rparr>"
    and "open_spec nm fl (view f) (fst (red_open ops nm fl f)) (view (snd (red_open ops nm fl f)))"
    and "close_spec fd (view f) (view (red_close ops fd f))"
    and "write_spec fd bs (view f) (view (red_write ops fd bs f))"
    and "read_spec fd m (view f) (fst (read_bytes ops fd m f)) (view (snd (read_bytes ops fd m f)))"
    and "seek_spec fd k False (view f) (view (red_lseek_set ops fd k f))"
    and "seek_spec fd k True (view f) (view (red_lseek_cur ops fd k f))"
    and "unlink_spec nm (view f) (view (red_unlink ops nm f))"
  using assms by (auto simp: red_posix_def)

text \<open>Handles are never negative, so closing the failed result of an open closes nothing.\<close>

definition fs_ok :: "fs_view \<Rightarrow> bool" where
  "fs_ok v \<longleftrightarrow> handles v (-1) = None"

subsection \<open>Reliable file systems\<close>

definition red_reliable :: "'f red_ops \<Rightarrow> ('f \<Rightarrow> fs_view) \<Rightarrow> bool" where
  "red_reliable ops view \<longleftrightarrow> red_posix ops view \<and>
     (\<forall>nm fl f. fst (red_open ops nm fl f) = -1 \<longrightarrow>
        (fl = RED_CREAT_EXCL_RDWR \<and> files (view f) nm \<noteq> None \<and>
           verrno (view (snd (red_open ops nm fl f))) = RED_EEXIST) \<or>
        (fl = RED_RDONLY \<and> files (view f) nm = None)) \<and>
     (\<forall>fd bs f nm pos c. handles (view f) fd = Some (nm, pos) \<longrightarrow> files (view f) nm = Some c \<longrightarrow>
        view (red_write ops fd bs f) = (view f)\<lparr>files := (files (view f))(nm \<mapsto> put pos bs c),
          handles := (handles (view f))(fd \<mapsto> (nm, pos + length bs))\<rparr>) \<and>
     (\<forall>fd n f nm pos c. handles (view f) fd = Some (nm, pos) \<longrightarrow> files (view f) nm = Some c \<longrightarrow>
        fst (read_bytes ops fd n f) = take n (drop pos c) \<and>
        fst (fst (red_read ops fd n f)) = int (length (take n (drop pos c))) \<and>
        view (snd (read_bytes ops fd n f)) = (view f)\<lparr>
          handles := (handles (view f))(fd \<mapsto> (nm, pos + length (take n (drop pos c))))\<rparr>) \<and>
     (\<forall>nm f. files (view (red_unlink ops nm f)) = (files (view f))(nm := None))"

lemma reliable_posix: "red_reliable ops view \<Longrightarrow> red_posix ops view"
  by (simp add: red_reliable_def)

lemma reliable_unlink:
  "red_reliable ops view \<Longrightarrow> files (view (red_unlink ops nm f)) = (files (view f))(nm := None)"
  unfolding red_reliable_def by blast

lemma reliable_write:
  "red_reliable ops view \<Longrightarrow> handles (view f) fd = Some (nm, pos) \<Longrightarrow> files (view f) nm = Some c \<Longrightarrow>
   view (red_write ops fd bs f) = (view f)\<lparr>files := (files (view f))(nm \<mapsto> put pos bs c),
     handles := (handles (view f))(fd \<mapsto> (nm, pos + length bs))\<rparr>"
  by (simp add: red_reliable_def)

lemma reliable_read:
  "red_reliable ops view \<Longrightarrow> handles (view f) fd = Some (nm, pos) \<Longrightarrow> files (view f) nm = Some c \<Longrightarrow>
   fst (read_bytes ops fd n f) = take n (drop pos c) \<and>
   view (snd (read_bytes ops fd n f)) = (view f)\<lparr>
     handles := (handles (view f))(fd \<mapsto> (nm, pos + length (take n (drop pos c))))\<rparr>"
  by (simp add: red_reliable_def)

lemma reliable_count:
  "red_reliable ops view \<Longrightarrow> handles (view f) fd = Some (nm, pos) \<Longrightarrow> files (view f) nm = Some c \<Longrightarrow>
   fst (fst (red_read ops fd n f)) = int (length (take n (drop pos c)))"
  unfolding red_reliable_def by blast

lemma reliable_open_fail:
  "red_reliable ops view \<Longrightarrow> fst (red_open ops nm fl f) = -1 \<Longrightarrow>
   (fl = RED_CREAT_EXCL_RDWR \<and> files (view f) nm \<noteq> None \<and>
      verrno (view (snd (red_open ops nm fl f))) = RED_EEXIST) \<or>
   (fl = RED_RDONLY \<and> files (view f) nm = None)"
  unfolding red_reliable_def by blast

lemma reliable_open:
  assumes "red_reliable ops view" and "red_open ops nm fl f = (fd, f')"
    and "fl = RED_CREAT_RDWR \<or> fl = RED_RDONLY \<and> files (view f) nm \<noteq> None"
  shows "fd \<noteq> -1" and "open_spec nm fl (view f) fd (view f')"
proof -
  show "fd \<noteq> -1" using reliable_open_fail [OF assms(1), of nm fl f] assms(2,3) by auto
  show "open_spec nm fl (view f) fd (view f')"
    using red_posixD(3) [OF reliable_posix [OF assms(1)], of nm fl f] assms(2) by simp
qed

end
