(* ===== verification/Hk_Storage.thy ===== *)
theory Hk_Storage
  imports Hk_Timestamps Reliance
begin

text \<open>
  The persistent part of \<^verbatim>\<open>Services/source/housekeeping/housekeeping_service.c\<close>: the data
  file with one record per sample, and the configuration file. The file system is that of
  \<^verbatim>\<open>Reliance\<close>, acting on \<open>dev\<close>.
\<close>

text \<open>Calls whose result the code ignores.\<close>

definition sysu :: "('f \<Rightarrow> 'f) \<Rightarrow> ('f hk_state, unit) prog" where
  "sysu f = modify (\<lambda>s. s\<lparr>dev := f (dev s)\<rparr>)"

lemma sysu_run [prog_simps]: "sysu f s = Inr ((), s\<lparr>dev := f (dev s)\<rparr>)"
  by (simp add: sysu_def modify_run)

subsection \<open>The housekeeping record\<close>

text \<open>
  The structures of the subsystems are defined outside the repository: a record holds their object
  representations, and \<^verbatim>\<open>sizeof\<close> is the length of the representation.
\<close>

record hk_time_and_order =
  final :: byte
  UNIXtimestamp :: u32
  dataPosition :: u16

record All_systems_housekeeping =
  hk_timeorder :: hk_time_and_order
  adcs_hk :: bytes
  Athena_hk :: bytes
  EPS_hk :: bytes
  EPS_startup_hk :: bytes
  UHF_hk :: bytes
  S_band_hk :: bytes
  hyperion_hk :: bytes
  charon_hk :: bytes
  DFGM_hk :: bytes

definition timeorder_bytes :: "endianness \<Rightarrow> hk_time_and_order \<Rightarrow> bytes" where
  "timeorder_bytes e t = final t # to_bytes e 4 (UNIXtimestamp t) @ to_bytes e 2 (dataPosition t)"

definition timeorder_of :: "endianness \<Rightarrow> bytes \<Rightarrow> hk_time_and_order" where
  "timeorder_of e bs = \<lparr>final = bs ! 0, UNIXtimestamp = of_bytes e (take 4 (drop 1 bs)),
     dataPosition = of_bytes e (take 2 (drop 5 bs))\<rparr>"

text \<open>The members that are stored, in the order of the writes and reads.\<close>

definition hk_fields :: "endianness \<Rightarrow> All_systems_housekeeping \<Rightarrow> bytes list" where
  "hk_fields e hk = [timeorder_bytes e (hk_timeorder hk), adcs_hk hk, Athena_hk hk, EPS_hk hk, UHF_hk hk,
     S_band_hk hk, hyperion_hk hk, charon_hk hk, DFGM_hk hk]"

definition hk_set_fields :: "endianness \<Rightarrow> bytes list \<Rightarrow> All_systems_housekeeping \<Rightarrow> All_systems_housekeeping" where
  "hk_set_fields e bss hk = hk\<lparr>hk_timeorder := timeorder_of e (bss ! 0), adcs_hk := bss ! 1,
     Athena_hk := bss ! 2, EPS_hk := bss ! 3, UHF_hk := bss ! 4, S_band_hk := bss ! 5,
     hyperion_hk := bss ! 6, charon_hk := bss ! 7, DFGM_hk := bss ! 8\<rparr>"

definition get_size_of_housekeeping :: "All_systems_housekeeping \<Rightarrow> u16" where
  "get_size_of_housekeeping hk = of_nat (7 + length (Athena_hk hk) + length (EPS_hk hk) +
     length (UHF_hk hk) + length (S_band_hk hk) + length (adcs_hk hk) + length (hyperion_hk hk) +
     length (charon_hk hk) + length (DFGM_hk hk))"

subsection \<open>The data file\<close>

definition fileName :: string where "fileName = ''VOL0:/tempHKdata.TMP''"
definition hk_config :: string where "hk_config = ''VOL0:/HKconfig.TMP''"

datatype Found_file = FILE_EXISTS | FILE_NOT_EXIST

definition exists_file :: "'f red_ops \<Rightarrow> string \<Rightarrow> ('f hk_state, Found_file) prog" where
  "exists_file ops filename =
     andthen (sysu (set_red_errno ops 0))
    (bnd (sys (red_open ops filename RED_CREAT_EXCL_RDWR)) (\<lambda>file.
     bnd (gets (\<lambda>s. red_errno ops (dev s))) (\<lambda>errno.
     if errno = RED_EEXIST then ret FILE_EXISTS
     else andthen (sysu (red_close ops file))
         (andthen (sysu (red_unlink ops filename))
                  (ret FILE_NOT_EXIST)))))"

primrec write_all :: "'f red_ops \<Rightarrow> int \<Rightarrow> bytes list \<Rightarrow> ('f hk_state, unit) prog" where
  "write_all ops fout [] = ret ()"
| "write_all ops fout (bs # bss) = andthen (sysu (red_write ops fout bs)) (write_all ops fout bss)"

text \<open>Each read replaces as many leading bytes of the member as it delivers.\<close>

primrec read_all :: "'f red_ops \<Rightarrow> int \<Rightarrow> bytes list \<Rightarrow> ('f hk_state, bytes list) prog" where
  "read_all ops fin [] = ret []"
| "read_all ops fin (bs # bss) =
     bnd (sys (read_bytes ops fin (length bs))) (\<lambda>rs.
     bnd (read_all ops fin bss) (\<lambda>rss. ret (overlay 0 rs bs # rss)))"

text \<open>\<^verbatim>\<open>(filenumber - 1) * needed_size\<close>, a product of 32-bit integers.\<close>

definition record_offset :: "u16 \<Rightarrow> u16 \<Rightarrow> ('f hk_state, int) prog" where
  "record_offset filenumber needed_size =
     (let product = (int (unat filenumber) - 1) * int (unat needed_size) in
     if product < 2147483648 then ret product else fault IntOverflow)"

definition write_hk_to_file ::
  "'f red_ops \<Rightarrow> endianness \<Rightarrow> u16 \<Rightarrow> All_systems_housekeeping \<Rightarrow> ('f hk_state, Result) prog" where
  "write_hk_to_file ops e filenumber hk =
     bnd (sys (red_open ops fileName RED_CREAT_RDWR)) (\<lambda>fout.
     if fout = -1 then ret FAILURE
     else
       bnd (record_offset filenumber (get_size_of_housekeeping hk)) (\<lambda>off.
       andthen (sysu (red_lseek_set ops fout off))
      (andthen (sysu (set_red_errno ops 0))
      (andthen (write_all ops fout (hk_fields e hk))
      (bnd (gets (\<lambda>s. red_errno ops (dev s))) (\<lambda>errno.
       andthen (sysu (red_close ops fout))
               (ret (if errno \<noteq> 0 then FAILURE else SUCCESS))))))))"

definition read_hk_from_file ::
  "'f red_ops \<Rightarrow> endianness \<Rightarrow> u16 \<Rightarrow> All_systems_housekeeping
     \<Rightarrow> ('f hk_state, Result \<times> All_systems_housekeeping) prog" where
  "read_hk_from_file ops e filenumber hk =
     bnd (exists_file ops fileName) (\<lambda>found.
     if found = FILE_NOT_EXIST then ret (FAILURE, hk)
     else bnd (sys (red_open ops fileName RED_RDONLY)) (\<lambda>fin.
     if fin = -1 then ret (FAILURE, hk)
     else
       bnd (record_offset filenumber (get_size_of_housekeeping hk)) (\<lambda>off.
       andthen (sysu (red_lseek_set ops fin off))
      (andthen (sysu (set_red_errno ops 0))
      (bnd (read_all ops fin (hk_fields e hk)) (\<lambda>rss.
       bnd (gets (\<lambda>s. red_errno ops (dev s))) (\<lambda>errno.
       andthen (sysu (red_close ops fin))
               (ret (if errno \<noteq> 0 then FAILURE else SUCCESS, hk_set_fields e rss hk)))))))))"

definition load_historic_hk_data ::
  "'f red_ops \<Rightarrow> endianness \<Rightarrow> u16 \<Rightarrow> All_systems_housekeeping
     \<Rightarrow> ('f hk_state, Result \<times> All_systems_housekeeping) prog" where
  "load_historic_hk_data ops e file_num hk =
     bnd (read_hk_from_file ops e file_num hk) (\<lambda>(r, hk').
     if r \<noteq> SUCCESS then ret (FAILURE, hk') else ret (SUCCESS, hk'))"

subsection \<open>The configuration file\<close>

text \<open>
  Memory handed to \<^verbatim>\<open>red_write\<close> and \<^verbatim>\<open>red_read\<close> must be a live block; a null
  pointer is answered with \<^verbatim>\<open>RED_EINVAL\<close>. \<open>ts_load\<close> is the effect of a read on the block, \<open>load_timestamps\<close>
  the whole call.
\<close>

definition ts_load :: "endianness \<Rightarrow> bytes \<Rightarrow> ('f hk_state, unit) prog" where
  "ts_load e bs = (\<lambda>s. case timestamps s of
     TsNull \<Rightarrow> Inl NullDeref
   | TsFreed \<Rightarrow> Inl UseAfterFree
   | TsBlock xs \<Rightarrow> (if length bs \<le> 4 * length xs then
       Inr ((), s\<lparr>timestamps := TsBlock (decode_many 4 (of_bytes e) (length xs)
         (overlay 0 bs (concat (map (to_bytes e 4) xs))))\<rparr>)
       else Inl OutOfBounds))"

definition load_timestamps :: "'f red_ops \<Rightarrow> endianness \<Rightarrow> int \<Rightarrow> ('f hk_state, unit) prog" where
  "load_timestamps ops e fin =
     bnd (gets timestamps) (\<lambda>ts.
     if ts = TsNull then sysu (set_red_errno ops RED_EINVAL)
     else
       bnd (gets hk_timestamp_array_size) (\<lambda>asize.
       bnd (sys (read_bytes ops fin (4 * (unat asize + 1)))) (\<lambda>bs.
       ts_load e bs)))"

definition store_config :: "'f red_ops \<Rightarrow> endianness \<Rightarrow> byte \<Rightarrow> ('f hk_state, Result) prog" where
  "store_config ops e rewrite_all =
     bnd (exists_file ops hk_config) (\<lambda>found.
     bnd (sys (red_open ops hk_config RED_CREAT_RDWR)) (\<lambda>fout.
     if fout = -1 then ret FAILURE
     else
       bnd (gets (\<lambda>s. (MAX_FILES s, current_file s, tempTime s, hk_timestamp_array_size s)))
         (\<lambda>(max_files, cur, temp_time, asize).
       andthen (write_all ops fout [to_bytes e 2 max_files, to_bytes e 2 cur, to_bytes e 4 temp_time])
      (andthen
        (if found = FILE_NOT_EXIST \<or> rewrite_all = 1 then
           bnd (gets timestamps) (\<lambda>ts.
           if ts = TsNull then sysu (set_red_errno ops RED_EINVAL)
           else bnd (ts_copy (unat asize + 1)) (\<lambda>xs.
             sysu (red_write ops fout (concat (map (to_bytes e 4) xs)))))
         else
           andthen (sysu (red_lseek_cur ops fout (4 * int (unat cur))))
          (bnd (ts_read (ucast cur)) (\<lambda>t. sysu (red_write ops fout (to_bytes e 4 t)))))
      (andthen (sysu (red_close ops fout))
               (ret SUCCESS))))))"

definition next_file :: "('f hk_state, unit) prog" where
  "next_file =
     andthen (modify (\<lambda>s. s\<lparr>current_file := current_file s + 1\<rparr>))
             (modify (\<lambda>s. if current_file s > MAX_FILES s then s\<lparr>current_file := 1\<rparr> else s))"

definition load_config :: "'f red_ops \<Rightarrow> 'f os_ops \<Rightarrow> endianness \<Rightarrow> ('f hk_state, Result) prog" where
  "load_config ops os e =
     bnd (exists_file ops hk_config) (\<lambda>found.
     if found = FILE_NOT_EXIST then ret FAILURE
     else bnd (sys (red_open ops hk_config RED_RDONLY)) (\<lambda>fin.
     if fin = -1 then ret FAILURE
     else
       bnd (sys (read_bytes ops fin 2)) (\<lambda>bs.
       andthen (modify (\<lambda>s. s\<lparr>MAX_FILES := of_bytes e (overlay 0 bs (to_bytes e 2 (MAX_FILES s)))\<rparr>))
      (bnd (sys (read_bytes ops fin 2)) (\<lambda>bs.
       andthen (modify (\<lambda>s. s\<lparr>current_file := of_bytes e (overlay 0 bs (to_bytes e 2 (current_file s)))\<rparr>))
      (bnd (sys (read_bytes ops fin 4)) (\<lambda>bs.
       andthen (modify (\<lambda>s. s\<lparr>tempTime := of_bytes e (overlay 0 bs (to_bytes e 4 (tempTime s)))\<rparr>))
      (bnd (gets MAX_FILES) (\<lambda>max_files.
       bnd (dynamic_timestamp_array_handler os max_files) (\<lambda>r.
       if r = SUCCESS then
         andthen (load_timestamps ops e fin)
        (andthen (sysu (red_close ops fin))
        (andthen next_file
                 (ret SUCCESS)))
       else ret FAILURE))))))))))"

subsection \<open>File contents\<close>

lemma write_all_view:
  assumes C: "red_posix ops view" and "handles (view (dev s)) fd = Some (nm, pos)"
  shows "\<exists>d. write_all ops fd bss s = Inr ((), s\<lparr>dev := d\<rparr>) \<and> touches nm fd (view (dev s)) (view d) \<and>
    (verrno (view d) = 0 \<longrightarrow> verrno (view (dev s)) = 0 \<and>
      (\<forall>c. files (view (dev s)) nm = Some c \<longrightarrow> files (view d) nm = Some (put pos (concat bss) c)))"
  using assms(2)
proof (induction bss arbitrary: s pos)
  case Nil
  show ?case
    by (intro exI [of _ "dev s"]) (auto simp: ret_run put_def touches_refl [OF Nil])
next
  case (Cons b bss)
  let ?d = "red_write ops fd b (dev s)"
  let ?s = "s\<lparr>dev := ?d\<rparr>"
  have w: "write_spec fd b (view (dev s)) (view ?d)" by (rule red_posixD(5) [OF C])
  note t = write_touches [OF w Cons.prems]
  then obtain pos1 where h1: "handles (view ?d) fd = Some (nm, pos1)" by (auto simp: touches_def)
  with Cons.IH [of ?s] obtain d where d: "write_all ops fd bss ?s = Inr ((), s\<lparr>dev := d\<rparr>)"
    "touches nm fd (view ?d) (view d)"
    "verrno (view d) = 0 \<longrightarrow> verrno (view ?d) = 0 \<and>
      (\<forall>c. files (view ?d) nm = Some c \<longrightarrow> files (view d) nm = Some (put pos1 (concat bss) c))"
    by auto
  have "verrno (view (dev s)) = 0 \<and> (\<forall>c. files (view (dev s)) nm = Some c \<longrightarrow>
      files (view d) nm = Some (put pos (concat (b # bss)) c))" if z: "verrno (view d) = 0"
  proof -
    from d(3) z have "verrno (view ?d) = 0" by simp
    with w Cons.prems obtain c where c: "files (view (dev s)) nm = Some c"
      "files (view ?d) nm = Some (put pos b c)"
      "handles (view ?d) fd = Some (nm, pos + length b)"
      "verrno (view ?d) = verrno (view (dev s))"
      by (auto simp: write_spec_def)
    with d(3) z h1 show ?thesis by (auto simp: put_put)
  qed
  with d(1) touches_trans [OF t d(2)] show ?case
    by (intro exI [of _ d]) (simp add: andthen_run sysu_run)
qed

primrec read_into :: "nat \<Rightarrow> bytes \<Rightarrow> bytes list \<Rightarrow> bytes list" where
  "read_into pos c [] = []"
| "read_into pos c (bs # bss) =
     overlay 0 (take (length bs) (drop pos c)) bs # read_into (pos + length (take (length bs) (drop pos c))) c bss"

lemma read_all_view:
  assumes C: "red_posix ops view" and "handles (view (dev s)) fd = Some (nm, pos)"
  shows "\<exists>d rss. read_all ops fd bss s = Inr (rss, s\<lparr>dev := d\<rparr>) \<and> touches nm fd (view (dev s)) (view d) \<and>
    files (view d) = files (view (dev s)) \<and> length rss = length bss \<and>
    (verrno (view d) = 0 \<longrightarrow> verrno (view (dev s)) = 0 \<and>
      (\<forall>c. files (view (dev s)) nm = Some c \<longrightarrow> rss = read_into pos c bss))"
  using assms(2)
proof (induction bss arbitrary: s pos)
  case Nil
  show ?case
    by (intro exI [of _ "dev s"]) (auto simp: ret_run touches_refl [OF Nil])
next
  case (Cons b bss)
  let ?r = "read_bytes ops fd (length b) (dev s)"
  let ?d = "snd ?r"
  let ?s = "s\<lparr>dev := ?d\<rparr>"
  have r: "read_spec fd (length b) (view (dev s)) (fst ?r) (view ?d)" by (rule red_posixD(6) [OF C])
  note t = read_touches [OF r Cons.prems]
  then obtain pos1 where h1: "handles (view ?d) fd = Some (nm, pos1)" by (auto simp: touches_def)
  with Cons.IH [of ?s] obtain d rss where d: "read_all ops fd bss ?s = Inr (rss, s\<lparr>dev := d\<rparr>)"
    "touches nm fd (view ?d) (view d)" "files (view d) = files (view ?d)" "length rss = length bss"
    "verrno (view d) = 0 \<longrightarrow> verrno (view ?d) = 0 \<and>
      (\<forall>c. files (view ?d) nm = Some c \<longrightarrow> rss = read_into pos1 c bss)"
    by auto
  have "verrno (view (dev s)) = 0 \<and> (\<forall>c. files (view (dev s)) nm = Some c \<longrightarrow>
      overlay 0 (fst ?r) b # rss = read_into pos c (b # bss))" if z: "verrno (view d) = 0"
  proof -
    from d(5) z have "verrno (view ?d) = 0" by simp
    with r Cons.prems obtain c where c: "files (view (dev s)) nm = Some c"
      "fst ?r = take (length b) (drop pos c)"
      "handles (view ?d) fd = Some (nm, pos + length (fst ?r))"
      "verrno (view ?d) = verrno (view (dev s))"
      by (auto simp: read_spec_def)
    with d(5) z h1 t show ?thesis by auto
  qed
  with d touches_trans [OF conjunct1 [OF t] d(2)] t show ?case
    by (intro exI [of _ d] exI [of _ "overlay 0 (fst ?r) b # rss"]) (simp add: bnd_run sys_run ret_run)
qed

lemma read_into_full:
  "pos + length (concat bss) \<le> length c \<Longrightarrow>
   concat (read_into pos c bss) = take (length (concat bss)) (drop pos c) \<and>
   map length (read_into pos c bss) = map length bss"
proof (induction bss arbitrary: pos)
  case Nil
  show ?case by simp
next
  case (Cons b bss)
  then have "overlay 0 (take (length b) (drop pos c)) b = take (length b) (drop pos c)"
    by (simp add: overlay_def)
  moreover have "min (length c - pos) (length b) = length b" using Cons.prems by simp
  ultimately show ?case
    using Cons.IH [of "pos + length b"] Cons.prems
    by (simp add: take_add add.commute)
qed

lemma read_into_eof: "length c \<le> pos \<Longrightarrow> read_into pos c bss = bss"
  by (induction bss) (auto simp: overlay_def)

end
