(* ===== verification/Hk_Records.thy ===== *)
theory Hk_Records
  imports Hk_Storage
begin

text \<open>
  What \<^verbatim>\<open>write_hk_to_file\<close> and \<^verbatim>\<open>read_hk_from_file\<close> promise together: the data
  file is a store of records by number. \<^verbatim>\<open>holds\<close> says that a file holds a
  record, the locale \<^verbatim>\<open>record_store\<close> states the laws of such a store and proves
  that it refines a map from numbers to records; the interpretation discharges the laws for the
  two functions over every file system with the POSIX contract. At the end, \<^verbatim>\<open>ram_ops\<close> is a
  file system in memory that satisfies the contract.
\<close>

subsection \<open>Calls that work on one file\<close>

text \<open>Contents of a file that does not exist yet.\<close>

definition contents :: "fs_view \<Rightarrow> string \<Rightarrow> bytes" where
  "contents v nm = (case files v nm of None \<Rightarrow> [] | Some c \<Rightarrow> c)"

text \<open>
  A call sequence that works on the file \<open>nm\<close> only and closes what it opens.
\<close>

definition confined :: "string \<Rightarrow> fs_view \<Rightarrow> fs_view \<Rightarrow> bool" where
  "confined nm v v' \<longleftrightarrow> handles v' = handles v \<and> (\<forall>x. x \<noteq> nm \<longrightarrow> files v' x = files v x)"

lemma confined_refl [simp]: "confined nm v v"
  by (simp add: confined_def)

lemma confined_trans: "confined nm v v1 \<Longrightarrow> confined nm v1 v2 \<Longrightarrow> confined nm v v2"
  by (simp add: confined_def)

lemma confined_ok: "confined nm v v' \<Longrightarrow> fs_ok v' = fs_ok v"
  by (simp add: confined_def fs_ok_def)

lemma open_close_confined:
  assumes "open_spec nm fl v fd v1" "fd \<noteq> -1" "touches nm fd v1 v2" "close_spec fd v2 v3"
  shows "confined nm v v3 \<and> files v3 = files v2"
  using assms
  by (auto simp: open_spec_def touches_def close_spec_def confined_def fun_eq_iff split: option.splits)

lemma exists_file_view:
  assumes C: "red_posix ops view" and ok: "fs_ok (view (dev s))"
  shows "\<exists>r d. exists_file ops nm s = Inr (r, s\<lparr>dev := d\<rparr>) \<and> confined nm (view (dev s)) (view d) \<and>
    (r = FILE_EXISTS \<longrightarrow> files (view d) = files (view (dev s)) \<and> files (view d) nm \<noteq> None)"
proof -
  let ?d0 = "set_red_errno ops 0 (dev s)"
  obtain fd d1 where o: "red_open ops nm RED_CREAT_EXCL_RDWR ?d0 = (fd, d1)" by force
  let ?d2 = "red_close ops fd d1"
  let ?d3 = "red_unlink ops nm ?d2"
  have v0: "view ?d0 = (view (dev s))\<lparr>verrno := 0\<rparr>" by (rule red_posixD(2) [OF C])
  have os: "open_spec nm RED_CREAT_EXCL_RDWR (view ?d0) fd (view d1)"
    using red_posixD(3) [OF C, of nm RED_CREAT_EXCL_RDWR ?d0] by (simp add: o)
  have cs: "close_spec fd (view d1) (view ?d2)" by (rule red_posixD(4) [OF C])
  have us: "unlink_spec nm (view ?d2) (view ?d3)" by (rule red_posixD(9) [OF C])
  have run: "exists_file ops nm s = (if red_errno ops d1 = RED_EEXIST
      then Inr (FILE_EXISTS, s\<lparr>dev := d1\<rparr>) else Inr (FILE_NOT_EXIST, s\<lparr>dev := ?d3\<rparr>))"
    by (simp add: exists_file_def prog_simps o)
  show ?thesis
  proof (cases "red_errno ops d1 = RED_EEXIST")
    case True
    then have "verrno (view d1) = RED_EEXIST" by (simp add: red_posixD(1) [OF C])
    with os v0 have "handles (view d1) = handles (view (dev s))" "files (view d1) = files (view (dev s))"
      "files (view (dev s)) nm \<noteq> None"
      by (auto simp: open_spec_def RED_EEXIST_def split: if_splits option.splits)
    with run True show ?thesis by (intro exI [of _ FILE_EXISTS] exI [of _ d1]) (simp add: confined_def)
  next
    case False
    have "confined nm (view (dev s)) (view ?d3)"
      using os cs us v0 ok
      by (auto simp: open_spec_def close_spec_def unlink_spec_def confined_def fs_ok_def fun_eq_iff
          split: if_splits option.splits)
    with run False show ?thesis by (intro exI [of _ FILE_NOT_EXIST] exI [of _ ?d3]) simp
  qed
qed

subsection \<open>Writing and reading one record\<close>

text \<open>
  The sizes of the stored members, and the record they make. Its size fits into a signed 16-bit integer, so that
  the offset of a record with any number is a 32-bit integer.
\<close>

definition sized :: "nat list \<Rightarrow> All_systems_housekeeping \<Rightarrow> bool" where
  "sized ls hk \<longleftrightarrow> map length (hk_fields SYS_LITTLE_ENDIAN hk) = ls"

definition sizes_ok :: "nat list \<Rightarrow> bool" where
  "sizes_ok ls \<longleftrightarrow> 0 < sum_list ls \<and> sum_list ls < 32768"

definition offset_of :: "nat list \<Rightarrow> u16 \<Rightarrow> nat" where
  "offset_of ls n = (unat n - 1) * sum_list ls"

lemma length_timeorder_bytes [simp]: "length (timeorder_bytes e t) = 7"
  by (simp add: timeorder_bytes_def)

lemma timeorder_of_bytes [simp]: "timeorder_of e (timeorder_bytes e t) = t"
  by (simp add: timeorder_bytes_def timeorder_of_def)

lemma sizedD: "sized ls hk \<Longrightarrow> map length (hk_fields e hk) = ls"
  by (auto simp: sized_def hk_fields_def)

lemma sized_length: "sized ls hk \<Longrightarrow> length (concat (hk_fields e hk)) = sum_list ls"
  using sizedD [of ls hk e] by (simp add: length_concat)

lemma sized_get_size:
  "sized ls hk \<Longrightarrow> sizes_ok ls \<Longrightarrow> unat (get_size_of_housekeeping hk) = sum_list ls"
  by (auto simp: sized_def sizes_ok_def hk_fields_def get_size_of_housekeeping_def unat_of_nat_u16 ac_simps
      simp del: of_nat_add of_nat_Suc)

lemma record_offset_run:
  assumes "sized ls hk" and "sizes_ok ls" and "n \<noteq> 0"
  shows "record_offset n (get_size_of_housekeeping hk) s = Inr (int (offset_of ls n), s)"
proof -
  have "unat n - 1 \<le> 65534" using unat_u16_less [of n] by simp
  moreover have "sum_list ls \<le> 32767" using assms(2) by (simp add: sizes_ok_def)
  ultimately have "offset_of ls n \<le> 65534 * 32767" unfolding offset_of_def by (rule mult_le_mono)
  moreover have "(int (unat n) - 1) * int (unat (get_size_of_housekeeping hk)) = int (offset_of ls n)"
    using assms by (simp add: offset_of_def sized_get_size unat_gt_0 of_nat_diff Suc_leI)
  ultimately show ?thesis by (simp add: record_offset_def Let_def prog_simps)
qed

lemma same_fields:
  assumes "concat xs = concat ys" and "map length xs = map length ys"
  shows "xs = ys"
  using assms
proof (induction xs arbitrary: ys)
  case Nil then show ?case by simp
next
  case (Cons x xs)
  then obtain y zs where "ys = y # zs" "length x = length y" by (cases ys) auto
  with Cons show ?case by simp
qed

lemma write_hk_view:
  assumes C: "red_posix ops view" and sz: "sized ls hk" "sizes_ok ls" and n: "n \<noteq> 0"
  shows "\<exists>r d. write_hk_to_file ops e n hk s = Inr (r, s\<lparr>dev := d\<rparr>) \<and>
    confined fileName (view (dev s)) (view d) \<and>
    (r = SUCCESS \<longrightarrow> files (view d) fileName =
       Some (put (offset_of ls n) (concat (hk_fields e hk)) (contents (view (dev s)) fileName)))"
proof -
  obtain fd d1 where o: "red_open ops fileName RED_CREAT_RDWR (dev s) = (fd, d1)" by force
  have os: "open_spec fileName RED_CREAT_RDWR (view (dev s)) fd (view d1)"
    using red_posixD(3) [OF C, of fileName RED_CREAT_RDWR "dev s"] by (simp add: o)
  show ?thesis
  proof (cases "fd = -1")
    case True
    with os show ?thesis
      by (auto simp: write_hk_to_file_def prog_simps o open_spec_def confined_def)
  next
    case False
    let ?d2 = "red_lseek_set ops fd (int (offset_of ls n)) d1"
    let ?d3 = "set_red_errno ops 0 ?d2"
    let ?s3 = "s\<lparr>dev := ?d3\<rparr>"
    have h1: "handles (view d1) fd = Some (fileName, 0)"
      and f1: "files (view d1) fileName = Some (contents (view (dev s)) fileName)"
      using os False by (auto simp: open_spec_def contents_def split: option.splits)
    have v3: "handles (view ?d3) = (handles (view d1))(fd \<mapsto> (fileName, offset_of ls n))"
      "files (view ?d3) = files (view d1)"
      using red_posixD(7) [OF C, of fd "int (offset_of ls n)" d1] h1
      by (simp_all add: seek_spec_def Let_def red_posixD(2) [OF C])
    then have "handles (view (dev ?s3)) fd = Some (fileName, offset_of ls n)" by simp
    from write_all_view [OF C this, of "hk_fields e hk"] obtain d where
      d: "write_all ops fd (hk_fields e hk) ?s3 = Inr ((), s\<lparr>dev := d\<rparr>)"
        "touches fileName fd (view ?d3) (view d)"
        "verrno (view d) = 0 \<longrightarrow> (\<forall>c. files (view ?d3) fileName = Some c \<longrightarrow>
           files (view d) fileName = Some (put (offset_of ls n) (concat (hk_fields e hk)) c))"
      by auto
    let ?d4 = "red_close ops fd d"
    have "touches fileName fd (view d1) (view d)"
      using d(2) v3 by (simp add: touches_def)
    from open_close_confined [OF os False this red_posixD(4) [OF C]]
    have conf: "confined fileName (view (dev s)) (view ?d4)" and f4: "files (view ?d4) = files (view d)"
      by simp_all
    have run: "write_hk_to_file ops e n hk s =
        Inr (if red_errno ops d \<noteq> 0 then FAILURE else SUCCESS, s\<lparr>dev := ?d4\<rparr>)"
      by (simp add: write_hk_to_file_def prog_simps record_offset_run [OF sz n] o False d(1))
    show ?thesis
      using conf f4 d(3) v3 f1 by (auto simp: run red_posixD(1) [OF C])
  qed
qed

lemma read_hk_view:
  assumes C: "red_posix ops view" and ok: "fs_ok (view (dev s))"
    and sz: "sized ls hk" "sizes_ok ls" and n: "n \<noteq> 0"
  shows "\<exists>r hk' d. read_hk_from_file ops e n hk s = Inr ((r, hk'), s\<lparr>dev := d\<rparr>) \<and>
    confined fileName (view (dev s)) (view d) \<and>
    (r = SUCCESS \<longrightarrow> files (view d) = files (view (dev s)) \<and> (\<exists>c. files (view d) fileName = Some c \<and>
       hk' = hk_set_fields e (read_into (offset_of ls n) c (hk_fields e hk)) hk))"
proof -
  from exists_file_view [OF C ok, of fileName] obtain r0 d0 where
    x: "exists_file ops fileName s = Inr (r0, s\<lparr>dev := d0\<rparr>)" "confined fileName (view (dev s)) (view d0)"
      "r0 = FILE_EXISTS \<longrightarrow> files (view d0) = files (view (dev s)) \<and> files (view d0) fileName \<noteq> None"
    by auto
  show ?thesis
  proof (cases "r0 = FILE_NOT_EXIST")
    case True
    with x show ?thesis
      by (intro exI [of _ FAILURE] exI [of _ hk] exI [of _ d0]) (simp add: read_hk_from_file_def prog_simps)
  next
    case False
    then have f0: "files (view d0) = files (view (dev s))" using x by (cases r0) auto
    obtain fd d1 where o: "red_open ops fileName RED_RDONLY d0 = (fd, d1)" by force
    have os: "open_spec fileName RED_RDONLY (view d0) fd (view d1)"
      using red_posixD(3) [OF C, of fileName RED_RDONLY d0] by (simp add: o)
    show ?thesis
    proof (cases "fd = -1")
      case True
      with os x f0 show ?thesis using False
        by (auto simp: read_hk_from_file_def prog_simps o open_spec_def confined_def)
    next
      case fd: False
      let ?d2 = "red_lseek_set ops fd (int (offset_of ls n)) d1"
      let ?d3 = "set_red_errno ops 0 ?d2"
      let ?s3 = "s\<lparr>dev := ?d3\<rparr>"
      have h1: "handles (view d1) fd = Some (fileName, 0)" and f1: "files (view d1) = files (view d0)"
        using os fd by (auto simp: open_spec_def split: option.splits)
      have v3: "handles (view ?d3) = (handles (view d1))(fd \<mapsto> (fileName, offset_of ls n))"
        "files (view ?d3) = files (view d1)"
        using red_posixD(7) [OF C, of fd "int (offset_of ls n)" d1] h1
        by (simp_all add: seek_spec_def Let_def red_posixD(2) [OF C])
      then have "handles (view (dev ?s3)) fd = Some (fileName, offset_of ls n)" by simp
      from read_all_view [OF C this, of "hk_fields e hk"] obtain d rss where
        d: "read_all ops fd (hk_fields e hk) ?s3 = Inr (rss, s\<lparr>dev := d\<rparr>)"
          "touches fileName fd (view ?d3) (view d)" "files (view d) = files (view ?d3)"
          "verrno (view d) = 0 \<longrightarrow> (\<forall>c. files (view ?d3) fileName = Some c \<longrightarrow>
             rss = read_into (offset_of ls n) c (hk_fields e hk))"
        by auto
      let ?d4 = "red_close ops fd d"
      have "touches fileName fd (view d1) (view d)"
        using d(2) v3 by (simp add: touches_def)
      from open_close_confined [OF os fd this red_posixD(4) [OF C]]
      have conf: "confined fileName (view d0) (view ?d4)" and f4: "files (view ?d4) = files (view d)"
        by simp_all
      have run: "read_hk_from_file ops e n hk s =
          Inr ((if red_errno ops d \<noteq> 0 then FAILURE else SUCCESS, hk_set_fields e rss hk), s\<lparr>dev := ?d4\<rparr>)"
        using False by (simp add: read_hk_from_file_def prog_simps record_offset_run [OF sz n] x(1) o fd d(1))
      obtain c where "files (view d0) fileName = Some c"
        using x(3) False by (cases r0) auto
      with f0 f1 v3 d(3,4) f4 have "verrno (view d) = 0 \<longrightarrow> files (view ?d4) = files (view (dev s)) \<and>
          (\<exists>c. files (view ?d4) fileName = Some c \<and> rss = read_into (offset_of ls n) c (hk_fields e hk))"
        by simp
      then show ?thesis
        using confined_trans [OF x(2) conf] by (auto simp: run red_posixD(1) [OF C])
    qed
  qed
qed

subsection \<open>A store of records by number\<close>

definition holds :: "nat list \<Rightarrow> fs_view \<Rightarrow> u16 \<Rightarrow> bytes list \<Rightarrow> bool" where
  "holds ls v n bss \<longleftrightarrow> (\<exists>c. files v fileName = Some c \<and> map length bss = ls \<and>
     offset_of ls n + sum_list ls \<le> length c \<and> take (sum_list ls) (drop (offset_of ls n) c) = concat bss)"

lemma offset_of_apart:
  assumes "n \<noteq> 0" "m \<noteq> 0" "n \<noteq> m"
  shows "offset_of ls n + sum_list ls \<le> offset_of ls m \<or> offset_of ls m + sum_list ls \<le> offset_of ls n"
proof -
  have *: "offset_of ls x + sum_list ls \<le> offset_of ls y" if "unat x < unat y" "x \<noteq> 0" for x y
  proof -
    have "unat x - 1 + 1 \<le> unat y - 1" using that by (simp add: unat_gt_0)
    then have "(unat x - 1 + 1) * sum_list ls \<le> (unat y - 1) * sum_list ls" by (rule mult_le_mono1)
    then show ?thesis by (simp add: offset_of_def algebra_simps)
  qed
  show ?thesis
    using * [of n m] * [of m n] assms by (cases "unat n < unat m") (auto simp: word_unat_eq_iff)
qed

lemma put_holds:
  assumes "files v fileName = Some (put (offset_of ls n) (concat bss) c)" and "map length bss = ls"
    and "sizes_ok ls"
  shows "holds ls v n bss"
proof -
  have len: "length (concat bss) = sum_list ls" using assms(2) by (simp add: length_concat)
  moreover have "concat bss \<noteq> []"
    using len assms(3) unfolding sizes_ok_def by (metis length_0_conv less_irrefl)
  then have "offset_of ls n + sum_list ls \<le> length (put (offset_of ls n) (concat bss) c)"
    using len by (simp add: length_put del: concat_eq_Nil_conv)
  ultimately show ?thesis
    using assms(1,2) put_same [of "concat bss" "offset_of ls n" c] by (auto simp: holds_def)
qed

lemma put_holds_other:
  assumes "holds ls v m bss'" and "files v' fileName = Some (put (offset_of ls n) (concat bss) (contents v fileName))"
    and "map length bss = ls" and "n \<noteq> 0" "m \<noteq> 0" "n \<noteq> m"
  shows "holds ls v' m bss'"
proof -
  from assms(1) obtain c where c: "files v fileName = Some c" "map length bss' = ls"
    "offset_of ls m + sum_list ls \<le> length c" "take (sum_list ls) (drop (offset_of ls m) c) = concat bss'"
    by (auto simp: holds_def)
  let ?c = "put (offset_of ls n) (concat bss) c"
  have len: "length (concat bss) = sum_list ls" using assms(3) by (simp add: length_concat)
  have "length c \<le> length ?c" by (simp add: length_put)
  moreover have "take (sum_list ls) (drop (offset_of ls m) ?c) = take (sum_list ls) (drop (offset_of ls m) c)"
    using offset_of_apart [OF assms(4-6), of ls] put_before [of "offset_of ls m" "sum_list ls" "offset_of ls n" c]
      put_after [of "offset_of ls n" "concat bss" "offset_of ls m" c] c(3) len by auto
  ultimately show ?thesis
    using c assms(2) by (auto simp: holds_def contents_def)
qed

lemma holds_read:
  assumes "holds ls v n bss" and "files v fileName = Some c" and "map length bss' = ls"
  shows "read_into (offset_of ls n) c bss' = bss"
proof (rule same_fields)
  have len: "length (concat bss') = sum_list ls" using assms(3) by (simp add: length_concat)
  with assms(1,2) have "offset_of ls n + length (concat bss') \<le> length c" by (simp add: holds_def)
  note r = read_into_full [OF this]
  show "concat (read_into (offset_of ls n) c bss') = concat bss"
    using r len assms(1,2) by (auto simp: holds_def)
  show "map length (read_into (offset_of ls n) c bss') = map length bss"
    using r assms(1,3) by (auto simp: holds_def)
qed

lemma holds_confined:
  "files v' fileName = files v fileName \<Longrightarrow> holds ls v' n bss = holds ls v n bss"
  by (simp add: holds_def)

text \<open>
  The contract. \<^verbatim>\<open>wf\<close> is what the operations need of their environment, \<^verbatim>\<open>inv\<close> the
  invariant of the state, \<^verbatim>\<open>ok\<close> the records that fit the store and \<^verbatim>\<open>blank\<close> the
  buffers a record may be read into; \<^verbatim>\<open>stored\<close> is the part of a record that is kept.
\<close>

locale record_store =
  fixes wf :: "'e \<Rightarrow> bool"
    and inv :: "'e \<Rightarrow> 's \<Rightarrow> bool"
    and ok :: "'e \<Rightarrow> 'r \<Rightarrow> bool"
    and has :: "'e \<Rightarrow> 's \<Rightarrow> u16 \<Rightarrow> 'r \<Rightarrow> bool"
    and put_rec :: "'e \<Rightarrow> u16 \<Rightarrow> 'r \<Rightarrow> ('s, Result) prog"
    and get_rec :: "'e \<Rightarrow> u16 \<Rightarrow> 'r \<Rightarrow> ('s, Result \<times> 'r) prog"
    and merge :: "'e \<Rightarrow> 'r \<Rightarrow> 'r \<Rightarrow> 'r"
  assumes put_rec: "wf e \<Longrightarrow> inv e s \<Longrightarrow> ok e x \<Longrightarrow> n \<noteq> 0 \<Longrightarrow>
      \<exists>r t. put_rec e n x s = Inr (r, t) \<and> inv e t \<and>
        (r = SUCCESS \<longrightarrow> has e t n x \<and> (\<forall>m y. m \<noteq> 0 \<longrightarrow> m \<noteq> n \<longrightarrow> has e s m y \<longrightarrow> has e t m y))"
    and get_rec: "wf e \<Longrightarrow> inv e s \<Longrightarrow> ok e b \<Longrightarrow> n \<noteq> 0 \<Longrightarrow>
      \<exists>r y t. get_rec e n b s = Inr ((r, y), t) \<and> inv e t \<and>
        (r = SUCCESS \<longrightarrow> (\<forall>x. has e s n x \<longrightarrow> y = merge e x b) \<and>
          (\<forall>m z. has e s m z \<longrightarrow> has e t m z))"
begin

text \<open>A run of writes, successful as long as each of them is.\<close>

primrec put_all :: "'e \<Rightarrow> (u16 \<times> 'r) list \<Rightarrow> ('s, Result) prog" where
  "put_all e [] = ret SUCCESS"
| "put_all e (w # ws) = bnd (put_rec e (fst w) (snd w)) (\<lambda>r.
     if r = SUCCESS then put_all e ws else ret FAILURE)"

text \<open>The state refines the map \<open>m\<close> from numbers to records.\<close>

definition refines :: "'e \<Rightarrow> (u16 \<Rightarrow> 'r option) \<Rightarrow> 's \<Rightarrow> bool" where
  "refines e m s \<longleftrightarrow> inv e s \<and> (\<forall>n x. n \<noteq> 0 \<longrightarrow> m n = Some x \<longrightarrow> has e s n x)"

lemma put_refines:
  assumes "wf e" "refines e m s" "ok e x" "n \<noteq> 0"
  shows "\<exists>r t. put_rec e n x s = Inr (r, t) \<and> inv e t \<and> (r = SUCCESS \<longrightarrow> refines e (m(n \<mapsto> x)) t)"
proof -
  from assms(2) have "inv e s" by (simp add: refines_def)
  from put_rec [OF assms(1) this assms(3,4)] obtain r t where p: "put_rec e n x s = Inr (r, t)" "inv e t"
    "r = SUCCESS \<longrightarrow> has e t n x \<and> (\<forall>k y. k \<noteq> 0 \<longrightarrow> k \<noteq> n \<longrightarrow> has e s k y \<longrightarrow> has e t k y)" by blast
  then have "r = SUCCESS \<longrightarrow> refines e (m(n \<mapsto> x)) t" using assms(2) by (auto simp: refines_def)
  with p show ?thesis by blast
qed

lemma get_refines:
  assumes "wf e" "refines e m s" "ok e b" "n \<noteq> 0" "m n = Some x"
  shows "\<exists>r y t. get_rec e n b s = Inr ((r, y), t) \<and> inv e t \<and>
    (r = SUCCESS \<longrightarrow> y = merge e x b \<and> refines e m t)"
proof -
  from assms(2) have "inv e s" by (simp add: refines_def)
  from get_rec [OF assms(1) this assms(3,4)] obtain r y t where p: "get_rec e n b s = Inr ((r, y), t)" "inv e t"
    "r = SUCCESS \<longrightarrow> (\<forall>x. has e s n x \<longrightarrow> y = merge e x b) \<and> (\<forall>k z. has e s k z \<longrightarrow> has e t k z)" by blast
  then have "r = SUCCESS \<longrightarrow> y = merge e x b \<and> refines e m t" using assms by (simp add: refines_def)
  with p show ?thesis by blast
qed

lemma put_all_refines:
  assumes "wf e" "refines e m s" "\<forall>w\<in>set ws. fst w \<noteq> 0 \<and> ok e (snd w)"
  shows "\<exists>r t. put_all e ws s = Inr (r, t) \<and> inv e t \<and>
    (r = SUCCESS \<longrightarrow> refines e (m ++ map_of (rev ws)) t)"
  using assms(2,3)
proof (induction ws arbitrary: m s)
  case Nil
  then show ?case by (simp add: ret_run refines_def)
next
  case (Cons w ws)
  obtain n x where w: "w = (n, x)" by (cases w)
  from put_refines [OF assms(1) Cons.prems(1)] Cons.prems(2) w obtain r t where
    p: "put_rec e n x s = Inr (r, t)" "inv e t" "r = SUCCESS \<longrightarrow> refines e (m(n \<mapsto> x)) t" by fastforce
  show ?case
  proof (cases "r = SUCCESS")
    case False
    then show ?thesis using p w by (simp add: prog_simps)
  next
    case True
    define m' where "m' = m(n \<mapsto> x)"
    from True p have "refines e m' t" by (simp add: m'_def)
    from Cons.IH [OF this] Cons.prems(2) obtain r' t' where
      q: "put_all e ws t = Inr (r', t')" "inv e t'" "r' = SUCCESS \<longrightarrow> refines e (m' ++ map_of (rev ws)) t'"
      by auto
    have "m' ++ map_of (rev ws) = m ++ map_of (rev (w # ws))"
      by (rule ext) (simp add: m'_def w map_add_def split: option.splits)
    with q True p w show ?thesis by (simp add: prog_simps)
  qed
qed

end

subsection \<open>The housekeeping file is such a store\<close>

record 'f store_env =
  env_ops :: "'f red_ops"
  env_view :: "'f \<Rightarrow> fs_view"
  env_endian :: endianness
  env_sizes :: "nat list"

definition store_wf :: "'f store_env \<Rightarrow> bool" where
  "store_wf E \<longleftrightarrow> red_posix (env_ops E) (env_view E) \<and> sizes_ok (env_sizes E)"

definition store_inv :: "'f store_env \<Rightarrow> 'f hk_state \<Rightarrow> bool" where
  "store_inv E s \<longleftrightarrow> fs_ok (env_view E (dev s))"

definition store_has :: "'f store_env \<Rightarrow> 'f hk_state \<Rightarrow> u16 \<Rightarrow> All_systems_housekeeping \<Rightarrow> bool" where
  "store_has E s n hk \<longleftrightarrow> holds (env_sizes E) (env_view E (dev s)) n (hk_fields (env_endian E) hk)"

text \<open>\<^verbatim>\<open>EPS_startup_hk\<close> is neither written nor read.\<close>

definition keep_startup :: "All_systems_housekeeping \<Rightarrow> All_systems_housekeeping \<Rightarrow> All_systems_housekeeping" where
  "keep_startup x b = x\<lparr>EPS_startup_hk := EPS_startup_hk b\<rparr>"

lemma hk_set_fields_fields: "hk_set_fields e (hk_fields e x) b = keep_startup x b"
  by (simp add: hk_set_fields_def hk_fields_def keep_startup_def)

interpretation hk_store: record_store store_wf store_inv "\<lambda>E. sized (env_sizes E)" store_has
  "\<lambda>E. write_hk_to_file (env_ops E) (env_endian E)" "\<lambda>E. read_hk_from_file (env_ops E) (env_endian E)"
  "\<lambda>E. keep_startup"
proof
  fix E :: "'f store_env" and s :: "'f hk_state" and x :: All_systems_housekeeping and n :: u16
  let ?e = "env_endian E" and ?ls = "env_sizes E" and ?v = "env_view E"
  assume E: "store_wf E" and i: "store_inv E s" and sz: "sized ?ls x" and n: "n \<noteq> 0"
  from E have C: "red_posix (env_ops E) ?v" and so: "sizes_ok ?ls" by (simp_all add: store_wf_def)
  have len: "map length (hk_fields ?e x) = ?ls" by (rule sizedD [OF sz])
  from write_hk_view [OF C sz so n, of ?e s] obtain r d where
    w: "write_hk_to_file (env_ops E) ?e n x s = Inr (r, s\<lparr>dev := d\<rparr>)" "confined fileName (?v (dev s)) (?v d)"
      "r = SUCCESS \<longrightarrow> files (?v d) fileName =
         Some (put (offset_of ?ls n) (concat (hk_fields ?e x)) (contents (?v (dev s)) fileName))" by auto
  have "store_inv E (s\<lparr>dev := d\<rparr>)" using i confined_ok [OF w(2)] by (simp add: store_inv_def)
  moreover have "store_has E (s\<lparr>dev := d\<rparr>) n x" if "r = SUCCESS"
    using put_holds [OF mp [OF w(3) that] len so] by (simp add: store_has_def)
  moreover have "store_has E (s\<lparr>dev := d\<rparr>) m y" if "r = SUCCESS" "m \<noteq> 0" "m \<noteq> n" "store_has E s m y" for m y
    using put_holds_other [OF _ mp [OF w(3) that(1)] len n that(2)] that(3,4) by (simp add: store_has_def)
  ultimately show "\<exists>r t. write_hk_to_file (env_ops E) ?e n x s = Inr (r, t) \<and> store_inv E t \<and>
      (r = SUCCESS \<longrightarrow> store_has E t n x \<and>
        (\<forall>m y. m \<noteq> 0 \<longrightarrow> m \<noteq> n \<longrightarrow> store_has E s m y \<longrightarrow> store_has E t m y))"
    using w(1) by blast
next
  fix E :: "'f store_env" and s :: "'f hk_state" and b :: All_systems_housekeeping and n :: u16
  let ?e = "env_endian E" and ?ls = "env_sizes E" and ?v = "env_view E"
  assume E: "store_wf E" and i: "store_inv E s" and sz: "sized ?ls b" and n: "n \<noteq> 0"
  from E have C: "red_posix (env_ops E) ?v" and so: "sizes_ok ?ls" by (simp_all add: store_wf_def)
  from i have ok: "fs_ok (?v (dev s))" by (simp add: store_inv_def)
  from read_hk_view [OF C ok sz so n, of ?e] obtain r y d where
    w: "read_hk_from_file (env_ops E) ?e n b s = Inr ((r, y), s\<lparr>dev := d\<rparr>)" "confined fileName (?v (dev s)) (?v d)"
      "r = SUCCESS \<longrightarrow> files (?v d) = files (?v (dev s)) \<and> (\<exists>c. files (?v d) fileName = Some c \<and>
         y = hk_set_fields ?e (read_into (offset_of ?ls n) c (hk_fields ?e b)) b)" by auto
  have "store_inv E (s\<lparr>dev := d\<rparr>)" using i confined_ok [OF w(2)] by (simp add: store_inv_def)
  moreover have "y = keep_startup x b" if "r = SUCCESS" "store_has E s n x" for x
    using w(3) that holds_read [OF _ _ sizedD [OF sz], of "?v (dev s)" n "hk_fields ?e x" _ ?e]
    by (auto simp: store_has_def hk_set_fields_fields)
  moreover have "store_has E (s\<lparr>dev := d\<rparr>) m z" if "r = SUCCESS" "store_has E s m z" for m z
    using w(3) that by (simp add: store_has_def holds_def)
  ultimately show "\<exists>r y t. read_hk_from_file (env_ops E) ?e n b s = Inr ((r, y), t) \<and> store_inv E t \<and>
      (r = SUCCESS \<longrightarrow> (\<forall>x. store_has E s n x \<longrightarrow> y = keep_startup x b) \<and>
        (\<forall>m z. store_has E s m z \<longrightarrow> store_has E t m z))"
    using w(1) by blast
qed

subsection \<open>A file system in memory\<close>

record ramfs =
  mfiles :: "string \<Rightarrow> bytes option"
  mhandles :: "(int \<times> string \<times> nat) list"
  merrno :: int
  mout :: "csp_packet list"

definition ram_view :: "ramfs \<Rightarrow> fs_view" where
  "ram_view f = \<lparr>files = mfiles f, handles = map_of (mhandles f), verrno = merrno f\<rparr>"

definition ram_open :: "string \<Rightarrow> oflag \<Rightarrow> ramfs \<Rightarrow> int \<times> ramfs" where
  "ram_open nm fl f =
     (let fd = foldr max (map fst (mhandles f)) 0 + 1; f' = f\<lparr>mhandles := (fd, nm, 0) # mhandles f\<rparr> in
      case mfiles f nm of
        Some c \<Rightarrow> if fl = RED_CREAT_EXCL_RDWR then (-1, f\<lparr>merrno := RED_EEXIST\<rparr>) else (fd, f')
      | None \<Rightarrow> if fl = RED_RDONLY then (-1, f\<lparr>merrno := 2\<rparr>)
          else (fd, f'\<lparr>mfiles := (mfiles f)(nm \<mapsto> [])\<rparr>))"

definition ram_close :: "int \<Rightarrow> ramfs \<Rightarrow> ramfs" where
  "ram_close fd f = f\<lparr>mhandles := filter (\<lambda>h. fst h \<noteq> fd) (mhandles f)\<rparr>"

definition ram_write :: "int \<Rightarrow> bytes \<Rightarrow> ramfs \<Rightarrow> ramfs" where
  "ram_write fd bs f = (case map_of (mhandles f) fd of
     None \<Rightarrow> f\<lparr>merrno := 9\<rparr>
   | Some (nm, pos) \<Rightarrow> (case mfiles f nm of
       None \<Rightarrow> f\<lparr>merrno := 9\<rparr>
     | Some c \<Rightarrow> f\<lparr>mfiles := (mfiles f)(nm \<mapsto> put pos bs c),
         mhandles := (fd, nm, pos + length bs) # mhandles f\<rparr>))"

definition ram_read :: "int \<Rightarrow> nat \<Rightarrow> ramfs \<Rightarrow> (int \<times> bytes) \<times> ramfs" where
  "ram_read fd n f = (case map_of (mhandles f) fd of
     None \<Rightarrow> ((-1, []), f\<lparr>merrno := 9\<rparr>)
   | Some (nm, pos) \<Rightarrow> (case mfiles f nm of
       None \<Rightarrow> ((-1, []), f\<lparr>merrno := 9\<rparr>)
     | Some c \<Rightarrow> (let bs = take n (drop pos c) in
         ((int (length bs), bs), f\<lparr>mhandles := (fd, nm, pos + length bs) # mhandles f\<rparr>))))"

definition ram_seek :: "bool \<Rightarrow> int \<Rightarrow> int \<Rightarrow> ramfs \<Rightarrow> ramfs" where
  "ram_seek cur fd off f = (case map_of (mhandles f) fd of
     None \<Rightarrow> f\<lparr>merrno := 9\<rparr>
   | Some (nm, pos) \<Rightarrow> (let target = (if cur then int pos + off else off) in
       if 0 \<le> target then f\<lparr>mhandles := (fd, nm, nat target) # mhandles f\<rparr>
       else f\<lparr>merrno := 22\<rparr>))"

definition ram_unlink :: "string \<Rightarrow> ramfs \<Rightarrow> ramfs" where
  "ram_unlink nm f = f\<lparr>mfiles := (mfiles f)(nm := None)\<rparr>"

definition ram_ops :: "ramfs red_ops" where
  "ram_ops = \<lparr>red_open = ram_open, red_close = ram_close, red_write = ram_write, red_read = ram_read,
     red_lseek_set = ram_seek False, red_lseek_cur = ram_seek True, red_unlink = ram_unlink,
     red_errno = merrno, set_red_errno = (\<lambda>n f. f\<lparr>merrno := n\<rparr>)\<rparr>"

lemma fresh_handle: "map_of hs (foldr max (map fst hs) 0 + 1) = (None :: 'a option)" for hs :: "(int \<times> 'a) list"
proof -
  have "k \<le> foldr max (map fst hs) 0" if "k \<in> fst ` set hs" for k
    using that by (induction hs) (auto simp: le_max_iff_disj)
  then show ?thesis by (fastforce simp: map_of_eq_None_iff)
qed

lemma fresh_nonneg: "0 \<le> foldr max ks (0 :: int)"
  by (induction ks) auto

lemma map_of_drop: "map_of (filter (\<lambda>h. fst h \<noteq> fd) hs) = (map_of hs)(fd := None)"
  by (induction hs) (auto simp: fun_eq_iff)

lemma same_upd: "\<exists>y. f = f(x := y)"
  by (rule exI [of _ "f x"]) simp

lemma same_upd_Some: "f x = Some (a, b) \<Longrightarrow> \<exists>p. f = f(x \<mapsto> (a, p))"
  by (rule exI [of _ b]) (simp add: fun_upd_idem)

lemma ram_posix: "red_posix ram_ops ram_view"
proof -
  have "open_spec nm fl (ram_view f) (fst (ram_open nm fl f)) (ram_view (snd (ram_open nm fl f)))" for nm fl f
    using fresh_nonneg [of "map fst (mhandles f)"]
    by (auto simp: open_spec_def ram_open_def ram_view_def Let_def RED_EEXIST_def fresh_handle split: option.splits)
  moreover have "close_spec fd (ram_view f) (ram_view (ram_close fd f))" for fd f
    by (simp add: close_spec_def ram_close_def ram_view_def map_of_drop)
  moreover have "write_spec fd bs (ram_view f) (ram_view (ram_write fd bs f))" for fd bs f
  proof (cases "map_of (mhandles f) fd")
    case None
    then show ?thesis by (simp add: write_spec_def ram_write_def ram_view_def)
  next
    case (Some h)
    then obtain nm pos where h: "map_of (mhandles f) fd = Some (nm, pos)" by (cases h) auto
    from same_upd [of "mfiles f" nm] same_upd_Some [of "map_of (mhandles f)" fd, OF h] show ?thesis
      by (cases "mfiles f nm") (simp_all add: h write_spec_def ram_write_def ram_view_def)
  qed
  moreover have "read_spec fd n (ram_view f) (snd (fst (ram_read fd n f))) (ram_view (snd (ram_read fd n f)))" for fd n f
  proof (cases "map_of (mhandles f) fd")
    case None
    then show ?thesis by (simp add: read_spec_def ram_read_def ram_view_def)
  next
    case (Some h)
    then obtain nm pos where h: "map_of (mhandles f) fd = Some (nm, pos)" by (cases h) auto
    from same_upd_Some [of "map_of (mhandles f)" fd, OF h] show ?thesis
      by (cases "mfiles f nm") (simp_all add: h read_spec_def ram_read_def ram_view_def)
  qed
  moreover have "seek_spec fd n cur (ram_view f) (ram_view (ram_seek cur fd n f))" for fd n cur f
    by (auto simp: seek_spec_def ram_seek_def ram_view_def Let_def split: option.splits)
  moreover have "unlink_spec nm (ram_view f) (ram_view (ram_unlink nm f))" for nm f
    by (simp add: unlink_spec_def ram_unlink_def ram_view_def)
  moreover have "fst (fst (ram_read fd n f)) = int (length (snd (fst (ram_read fd n f)))) \<or>
      (fst (fst (ram_read fd n f)) = -1 \<and> verrno (ram_view (snd (ram_read fd n f))) \<noteq> 0)" for fd n f
    by (auto simp: ram_read_def ram_view_def Let_def split: option.splits)
  ultimately show ?thesis
    by (simp add: red_posix_def read_bytes_def ram_ops_def) (simp add: ram_view_def)
qed

end
