(* ===== verification/Hk_Config.thy ===== *)
theory Hk_Config
  imports Hk_Records
begin

text \<open>
  The configuration file of the housekeeping service over a file system whose operations succeed
  when POSIX lets them (\<^verbatim>\<open>red_reliable\<close>): \<^verbatim>\<open>store_config\<close> leaves the image of the
  index in the file, by a full rewrite or by the update of one item, and \<^verbatim>\<open>load_config\<close>
  restores the index from it.
\<close>

subsection \<open>Records on a reliable file system\<close>

lemma reliable_exists:
  assumes R: "red_reliable ops view" and ok: "fs_ok (view (dev s))"
  shows "\<exists>d. exists_file ops nm s =
      Inr (if files (view (dev s)) nm = None then FILE_NOT_EXIST else FILE_EXISTS, s\<lparr>dev := d\<rparr>) \<and>
    files (view d) = files (view (dev s)) \<and> handles (view d) = handles (view (dev s))"
proof -
  note C = reliable_posix [OF R]
  let ?d0 = "set_red_errno ops 0 (dev s)"
  obtain fd d1 where o: "red_open ops nm RED_CREAT_EXCL_RDWR ?d0 = (fd, d1)" by force
  let ?d3 = "red_unlink ops nm (red_close ops fd d1)"
  have v0: "view ?d0 = (view (dev s))\<lparr>verrno := 0\<rparr>" by (rule red_posixD(2) [OF C])
  have os: "open_spec nm RED_CREAT_EXCL_RDWR (view ?d0) fd (view d1)"
    using red_posixD(3) [OF C, of nm RED_CREAT_EXCL_RDWR ?d0] by (simp add: o)
  have run: "exists_file ops nm s = (if red_errno ops d1 = RED_EEXIST
      then Inr (FILE_EXISTS, s\<lparr>dev := d1\<rparr>) else Inr (FILE_NOT_EXIST, s\<lparr>dev := ?d3\<rparr>))"
    by (simp add: exists_file_def prog_simps o)
  show ?thesis
  proof (cases "files (view (dev s)) nm = None")
    case False
    with os v0 have "fd = -1" by (auto simp: open_spec_def split: if_splits option.splits)
    with os v0 reliable_open_fail [OF R, of nm RED_CREAT_EXCL_RDWR ?d0] o
    have "verrno (view d1) = RED_EEXIST" "files (view d1) = files (view (dev s))"
      "handles (view d1) = handles (view (dev s))"
      by (auto simp: open_spec_def)
    then show ?thesis using run False
      by (intro exI [of _ d1]) (auto simp: red_posixD(1) [OF C])
  next
    case True
    then have "fd \<noteq> -1" using reliable_open_fail [OF R, of nm RED_CREAT_EXCL_RDWR ?d0] o v0 by auto
    with os v0 True have "verrno (view d1) = 0" "handles (view d1) = (handles (view (dev s)))(fd \<mapsto> (nm, 0))"
      "files (view d1) = (files (view (dev s)))(nm \<mapsto> [])" "handles (view (dev s)) fd = None"
      by (auto simp: open_spec_def)
    moreover have "files (view ?d3) = (files (view d1))(nm := None)"
      "handles (view ?d3) = (handles (view d1))(fd := None)"
      using reliable_unlink [OF R] red_posixD(4) [OF C, of fd d1] red_posixD(9) [OF C, of nm "red_close ops fd d1"]
      by (auto simp: close_spec_def unlink_spec_def)
    ultimately show ?thesis using run True
      by (intro exI [of _ ?d3]) (auto simp: red_posixD(1) [OF C] RED_EEXIST_def fun_eq_iff)
  qed
qed

lemma write_all_reliable:
  assumes R: "red_reliable ops view"
    and "handles (view (dev s)) fd = Some (nm, pos)" and "files (view (dev s)) nm = Some c"
  shows "\<exists>d. write_all ops fd bss s = Inr ((), s\<lparr>dev := d\<rparr>) \<and>
    files (view d) = (files (view (dev s)))(nm \<mapsto> put pos (concat bss) c) \<and>
    handles (view d) = (handles (view (dev s)))(fd \<mapsto> (nm, pos + length (concat bss))) \<and>
    verrno (view d) = verrno (view (dev s))"
  using assms(2,3)
proof (induction bss arbitrary: s pos c)
  case Nil
  then show ?case by (intro exI [of _ "dev s"]) (auto simp: ret_run put_def)
next
  case (Cons b bss)
  let ?d = "red_write ops fd b (dev s)"
  let ?s = "s\<lparr>dev := ?d\<rparr>"
  note v = reliable_write [OF R Cons.prems, of b]
  then have "handles (view (dev ?s)) fd = Some (nm, pos + length b)"
    "files (view (dev ?s)) nm = Some (put pos b c)" by simp_all
  from Cons.IH [OF this] show ?case
  proof (elim exE conjE)
    fix d assume "write_all ops fd bss ?s = Inr ((), ?s\<lparr>dev := d\<rparr>)"
      and "files (view d) = (files (view (dev ?s)))(nm \<mapsto> put (pos + length b) (concat bss) (put pos b c))"
      and "handles (view d) = (handles (view (dev ?s)))(fd \<mapsto> (nm, pos + length b + length (concat bss)))"
      and "verrno (view d) = verrno (view (dev ?s))"
    then show ?case
      by (intro exI [of _ d]) (simp add: v put_put andthen_run sysu_run add.assoc)
  qed
qed

text \<open>On such a file system a record is always written, and always read once the file exists.\<close>

lemma write_hk_reliable:
  assumes R: "red_reliable ops view" and sz: "sized ls hk" "sizes_ok ls" and n: "n \<noteq> 0"
  shows "\<exists>d. write_hk_to_file ops e n hk s = Inr (SUCCESS, s\<lparr>dev := d\<rparr>) \<and>
    confined fileName (view (dev s)) (view d) \<and> files (view d) fileName =
       Some (put (offset_of ls n) (concat (hk_fields e hk)) (contents (view (dev s)) fileName))"
proof -
  note C = reliable_posix [OF R]
  from write_hk_view [OF C sz n, of e s] obtain r d where
    w: "write_hk_to_file ops e n hk s = Inr (r, s\<lparr>dev := d\<rparr>)" "confined fileName (view (dev s)) (view d)"
      "r = SUCCESS \<longrightarrow> files (view d) fileName =
         Some (put (offset_of ls n) (concat (hk_fields e hk)) (contents (view (dev s)) fileName))" by blast
  obtain fd d1 where o: "red_open ops fileName RED_CREAT_RDWR (dev s) = (fd, d1)" by force
  note os = reliable_open [OF R o]
  let ?d3 = "set_red_errno ops 0 (red_lseek_set ops fd (int (offset_of ls n)) d1)"
  let ?s3 = "s\<lparr>dev := ?d3\<rparr>"
  have h1: "handles (view d1) fd = Some (fileName, 0)" and f1: "files (view d1) fileName \<noteq> None"
    using os by (auto simp: open_spec_def split: option.splits)
  then obtain c where c: "files (view d1) fileName = Some c" by blast
  have v3: "handles (view (dev ?s3)) fd = Some (fileName, offset_of ls n)" "files (view (dev ?s3)) fileName = Some c"
    "verrno (view (dev ?s3)) = 0"
    using red_posixD(7) [OF C, of fd "int (offset_of ls n)" d1] h1 c
    by (simp_all add: seek_spec_def Let_def red_posixD(2) [OF C])
  from write_all_reliable [OF R v3(1,2), of "hk_fields e hk"] v3(3) obtain d' where
    "write_all ops fd (hk_fields e hk) ?s3 = Inr ((), s\<lparr>dev := d'\<rparr>)" "verrno (view d') = 0" by auto
  then have "fst (projr (write_hk_to_file ops e n hk s)) = SUCCESS"
    using os by (simp add: write_hk_to_file_def prog_simps record_offset_run [OF sz n] o red_posixD(1) [OF C])
  with w show ?thesis by auto
qed

lemma read_all_reliable:
  assumes R: "red_reliable ops view"
    and "handles (view (dev s)) fd = Some (nm, pos)" and "files (view (dev s)) nm = Some c"
  shows "\<exists>d rss. read_all ops fd bss s = Inr (rss, s\<lparr>dev := d\<rparr>) \<and> verrno (view d) = verrno (view (dev s))"
  using assms(2,3)
proof (induction bss arbitrary: s pos)
  case Nil
  then show ?case by (intro exI [of _ "dev s"]) (simp add: ret_run)
next
  case (Cons b bss)
  let ?d = "snd (read_bytes ops fd (length b) (dev s))"
  let ?s = "s\<lparr>dev := ?d\<rparr>"
  note v = reliable_read [OF R Cons.prems, of "length b"]
  then have "handles (view (dev ?s)) fd = Some (nm, pos + length (take (length b) (drop pos c)))"
    "files (view (dev ?s)) nm = Some c" using Cons.prems(2) by simp_all
  from Cons.IH [OF this] obtain d rss where
    "read_all ops fd bss ?s = Inr (rss, s\<lparr>dev := d\<rparr>)" "verrno (view d) = verrno (view ?d)" by auto
  with v show ?case
    by (intro exI [of _ d]) (simp add: bnd_run sys_run ret_run)
qed

lemma read_hk_reliable:
  assumes R: "red_reliable ops view" and ok: "fs_ok (view (dev s))"
    and sz: "sized ls hk" "sizes_ok ls" and n: "n \<noteq> 0" and ex: "files (view (dev s)) fileName \<noteq> None"
  shows "\<exists>y t. read_hk_from_file ops e n hk s = Inr ((SUCCESS, y), t)"
proof -
  note C = reliable_posix [OF R]
  from reliable_exists [OF R ok, of fileName] ex obtain d0 where
    x: "exists_file ops fileName s = Inr (FILE_EXISTS, s\<lparr>dev := d0\<rparr>)" "files (view d0) = files (view (dev s))" by auto
  obtain fd d1 where o: "red_open ops fileName RED_RDONLY d0 = (fd, d1)" by force
  note os = reliable_open [OF R o]
  have fd: "fd \<noteq> -1" using os(1) x(2) ex by simp
  let ?d3 = "set_red_errno ops 0 (red_lseek_set ops fd (int (offset_of ls n)) d1)"
  let ?s3 = "s\<lparr>dev := ?d3\<rparr>"
  obtain c where c: "files (view d1) fileName = Some c" "handles (view d1) fd = Some (fileName, 0)"
    using os ex x(2) by (auto simp: open_spec_def)
  have v3: "handles (view (dev ?s3)) fd = Some (fileName, offset_of ls n)" "files (view (dev ?s3)) fileName = Some c"
    "verrno (view (dev ?s3)) = 0"
    using red_posixD(7) [OF C, of fd "int (offset_of ls n)" d1] c
    by (simp_all add: seek_spec_def Let_def red_posixD(2) [OF C])
  from read_all_reliable [OF R v3(1,2), of "hk_fields e hk"] v3(3) obtain d' rss where
    "read_all ops fd (hk_fields e hk) ?s3 = Inr (rss, s\<lparr>dev := d'\<rparr>)" "verrno (view d') = 0" by auto
  then show ?thesis
    using fd by (simp add: read_hk_from_file_def prog_simps record_offset_run [OF sz n] x(1) o red_posixD(1) [OF C])
qed

subsection \<open>The image of the index\<close>

definition config_header :: "endianness \<Rightarrow> 'f hk_state \<Rightarrow> bytes" where
  "config_header e s = to_bytes e 2 (MAX_FILES s) @ to_bytes e 2 (current_file s) @ to_bytes e 4 (tempTime s)"

definition config_image :: "endianness \<Rightarrow> 'f hk_state \<Rightarrow> bytes" where
  "config_image e s = config_header e s @ concat (map (to_bytes e 4) (items (timestamps s)))"

lemma length_config_header [simp]: "length (config_header e s) = 8"
  by (simp add: config_header_def)

interpretation mem32: byte_codec "to_bytes e 4" "of_bytes e :: bytes \<Rightarrow> u32" 4 for e
  by unfold_locales simp_all

lemma length_encoded [simp]: "length (concat (map (to_bytes e 4) xs)) = 4 * length xs"
  by (induction xs) auto

text \<open>The file \<^verbatim>\<open>hk_config\<close> starts with the image of the index.\<close>

definition synced :: "endianness \<Rightarrow> fs_view \<Rightarrow> 'f hk_state \<Rightarrow> bool" where
  "synced e v s \<longleftrightarrow> (\<exists>rest. files v hk_config = Some (config_image e s @ rest))"

lemma put_0: "put 0 bs c = bs @ drop (length bs) c"
  by (cases "bs = []") (simp_all add: put_def overlay_def)

lemma put_inside:
  "pos + length bs \<le> length c \<Longrightarrow> put pos bs c = overlay pos bs c"
  by (simp add: put_def overlay_def)

lemma put_behind: "put (length a + pos) bs (a @ c) = a @ put pos bs c"
  by (simp add: put_def overlay_def)

lemma put_behind_8: "length a = 8 \<Longrightarrow> put (8 + pos) bs (a @ c) = a @ put pos bs c"
  using put_behind [of a pos bs c] by simp

lemma overlay_item:
  "i < length xs \<Longrightarrow> overlay (4 * i) (to_bytes e 4 x) (concat (map (to_bytes e 4) xs) @ rest) =
     concat (map (to_bytes e 4) (xs[i := x])) @ rest"
proof (induction xs arbitrary: i)
  case Nil
  then show ?case by simp
next
  case (Cons y ys)
  show ?case
  proof (cases i)
    case 0
    then show ?thesis by (simp add: overlay_def)
  next
    case (Suc j)
    with Cons have "overlay (4 * j) (to_bytes e 4 x) (concat (map (to_bytes e 4) ys) @ rest) =
        concat (map (to_bytes e 4) (ys[j := x])) @ rest" by simp
    with Suc show ?thesis by (simp add: overlay_def add.commute)
  qed
qed

text \<open>
  The two ways of storing. A full rewrite needs a live array; the update of one item needs that
  the file holds the image of an index that differs from the present one in the header and that
  item only.
\<close>

lemma store_config_start:
  assumes R: "red_reliable ops view" and ok: "fs_ok (view (dev s))"
  shows "\<exists>fd d0 d1 d2. exists_file ops hk_config s =
      Inr (if files (view (dev s)) hk_config = None then FILE_NOT_EXIST else FILE_EXISTS, s\<lparr>dev := d0\<rparr>) \<and>
    red_open ops hk_config RED_CREAT_RDWR d0 = (fd, d1) \<and> fd \<noteq> -1 \<and>
    write_all ops fd [to_bytes e 2 (MAX_FILES s), to_bytes e 2 (current_file s), to_bytes e 4 (tempTime s)]
      (s\<lparr>dev := d1\<rparr>) = Inr ((), s\<lparr>dev := d2\<rparr>) \<and>
    files (view d2) = (files (view (dev s)))(hk_config \<mapsto>
      put 0 (config_header e s) (contents (view (dev s)) hk_config)) \<and>
    handles (view (dev s)) fd = None \<and> handles (view d2) = (handles (view (dev s)))(fd \<mapsto> (hk_config, 8))"
proof -
  from reliable_exists [OF R ok, of hk_config] obtain d0 where
    x: "exists_file ops hk_config s =
        Inr (if files (view (dev s)) hk_config = None then FILE_NOT_EXIST else FILE_EXISTS, s\<lparr>dev := d0\<rparr>)"
      "files (view d0) = files (view (dev s))" "handles (view d0) = handles (view (dev s))" by blast
  obtain fd d1 where o: "red_open ops hk_config RED_CREAT_RDWR d0 = (fd, d1)" by force
  note os = reliable_open [OF R o]
  have h1: "handles (view (dev s)) fd = None" "handles (view d1) = (handles (view (dev s)))(fd \<mapsto> (hk_config, 0))"
    and f1: "files (view d1) = (files (view (dev s)))(hk_config \<mapsto> contents (view (dev s)) hk_config)"
    using os x by (auto simp: open_spec_def contents_def split: option.splits)
  let ?bss = "[to_bytes e 2 (MAX_FILES s), to_bytes e 2 (current_file s), to_bytes e 4 (tempTime s)]"
  let ?s1 = "s\<lparr>dev := d1\<rparr>"
  have "handles (view (dev ?s1)) fd = Some (hk_config, 0)"
    "files (view (dev ?s1)) hk_config = Some (contents (view (dev s)) hk_config)" using h1 f1 by simp_all
  from write_all_reliable [OF R this, of ?bss] show ?thesis
  proof (elim exE conjE)
    fix d2 assume "write_all ops fd ?bss ?s1 = Inr ((), ?s1\<lparr>dev := d2\<rparr>)"
      and "files (view d2) = (files (view (dev ?s1)))(hk_config \<mapsto>
        put 0 (concat ?bss) (contents (view (dev s)) hk_config))"
      and "handles (view d2) = (handles (view (dev ?s1)))(fd \<mapsto> (hk_config, 0 + length (concat ?bss)))"
    with x(1) o os(1) h1 f1 show ?thesis
      by (intro exI [of _ fd] exI [of _ d0] exI [of _ d1] exI [of _ d2]) (simp add: config_header_def)
  qed
qed

lemma store_config_full:
  assumes R: "red_reliable ops view" and ok: "fs_ok (view (dev s))"
    and xs: "timestamps s = TsBlock xs" "length xs = unat (hk_timestamp_array_size s) + 1"
    and new: "files (view (dev s)) hk_config = None \<or> rw = 1"
  shows "\<exists>d. store_config ops e rw s = Inr (SUCCESS, s\<lparr>dev := d\<rparr>) \<and> synced e (view d) s \<and>
    confined hk_config (view (dev s)) (view d)"
proof -
  from store_config_start [OF R ok, of e] obtain fd d0 d1 d2 where
    x: "exists_file ops hk_config s =
        Inr (if files (view (dev s)) hk_config = None then FILE_NOT_EXIST else FILE_EXISTS, s\<lparr>dev := d0\<rparr>)"
      "red_open ops hk_config RED_CREAT_RDWR d0 = (fd, d1)" "fd \<noteq> -1"
      "write_all ops fd [to_bytes e 2 (MAX_FILES s), to_bytes e 2 (current_file s), to_bytes e 4 (tempTime s)]
        (s\<lparr>dev := d1\<rparr>) = Inr ((), s\<lparr>dev := d2\<rparr>)"
    and f: "files (view d2) = (files (view (dev s)))(hk_config \<mapsto>
        put 0 (config_header e s) (contents (view (dev s)) hk_config))"
    and h: "handles (view (dev s)) fd = None" "handles (view d2) = (handles (view (dev s)))(fd \<mapsto> (hk_config, 8))"
    by blast
  let ?b = "concat (map (to_bytes e 4) xs)"
  let ?d3 = "red_write ops fd ?b d2"
  let ?d4 = "red_close ops fd ?d3"
  have cp: "ts_copy (unat (hk_timestamp_array_size s) + 1) (s\<lparr>dev := d2\<rparr>) = Inr (xs, s\<lparr>dev := d2\<rparr>)"
    using xs by (simp add: ts_copy_def)
  have run: "store_config ops e rw s = Inr (SUCCESS, s\<lparr>dev := ?d4\<rparr>)"
    using new x cp xs(1) by (auto simp: store_config_def prog_simps simp del: write_all.simps)
  have v3: "view ?d3 = (view d2)\<lparr>files := (files (view d2))(hk_config \<mapsto>
        put 8 ?b (put 0 (config_header e s) (contents (view (dev s)) hk_config))),
      handles := (handles (view d2))(fd \<mapsto> (hk_config, 8 + length ?b))\<rparr>"
    by (rule reliable_write [OF R]) (simp_all add: h f)
  have "put 8 ?b (put 0 (config_header e s) (contents (view (dev s)) hk_config)) =
      put 0 (config_image e s) (contents (view (dev s)) hk_config)"
    using put_put [of 0 "config_header e s" ?b] by (simp add: config_image_def xs(1) items_def)
  with v3 f have f4: "files (view ?d4) = (files (view (dev s)))(hk_config \<mapsto>
      put 0 (config_image e s) (contents (view (dev s)) hk_config))"
    using red_posixD(4) [OF reliable_posix [OF R], of fd ?d3] by (simp add: close_spec_def)
  moreover have "handles (view ?d4) = handles (view (dev s))"
    using red_posixD(4) [OF reliable_posix [OF R], of fd ?d3] v3 h by (auto simp: close_spec_def)
  ultimately show ?thesis
    using run by (intro exI [of _ ?d4]) (simp add: synced_def confined_def put_0)
qed

text \<open>The update of one item, whatever the file holds; it extends a file that is too short.\<close>

lemma store_config_slot:
  assumes R: "red_reliable ops view" and ok: "fs_ok (view (dev s))"
    and xs: "timestamps s = TsBlock xs" "unat (current_file s) < length xs"
    and old: "files (view (dev s)) hk_config = Some c" and rw: "rw \<noteq> 1"
  shows "\<exists>d. store_config ops e rw s = Inr (SUCCESS, s\<lparr>dev := d\<rparr>) \<and>
    files (view d) hk_config = Some (config_header e s @
      put (4 * unat (current_file s)) (to_bytes e 4 (xs ! unat (current_file s))) (drop 8 c)) \<and>
    confined hk_config (view (dev s)) (view d)"
proof -
  let ?c = "current_file s"
  let ?x = "xs ! unat ?c"
  from store_config_start [OF R ok, of e] obtain fd d0 d1 d2 where
    x: "exists_file ops hk_config s =
        Inr (if files (view (dev s)) hk_config = None then FILE_NOT_EXIST else FILE_EXISTS, s\<lparr>dev := d0\<rparr>)"
      "red_open ops hk_config RED_CREAT_RDWR d0 = (fd, d1)" "fd \<noteq> -1"
      "write_all ops fd [to_bytes e 2 (MAX_FILES s), to_bytes e 2 (current_file s), to_bytes e 4 (tempTime s)]
        (s\<lparr>dev := d1\<rparr>) = Inr ((), s\<lparr>dev := d2\<rparr>)"
    and f: "files (view d2) = (files (view (dev s)))(hk_config \<mapsto>
        put 0 (config_header e s) (contents (view (dev s)) hk_config))"
    and h: "handles (view (dev s)) fd = None" "handles (view d2) = (handles (view (dev s)))(fd \<mapsto> (hk_config, 8))"
    by blast
  define d3 where "d3 = red_lseek_cur ops fd (4 * int (unat ?c)) d2"
  let ?d4 = "red_write ops fd (to_bytes e 4 ?x) d3"
  let ?d5 = "red_close ops fd ?d4"
  have rd: "ts_read (ucast ?c) (s\<lparr>dev := d3\<rparr>) = Inr (?x, s\<lparr>dev := d3\<rparr>)"
    using xs by (simp add: ts_read_def)
  have run: "store_config ops e rw s = Inr (SUCCESS, s\<lparr>dev := ?d5\<rparr>)"
    using old rw x rd by (auto simp: store_config_def d3_def prog_simps simp del: write_all.simps)
  have c1: "put 0 (config_header e s) (contents (view (dev s)) hk_config) = config_header e s @ drop 8 c"
    by (simp add: contents_def old put_0)
  have s3: "files (view d3) = files (view d2)"
    "handles (view d3) = (handles (view (dev s)))(fd \<mapsto> (hk_config, 8 + 4 * unat ?c))"
    using red_posixD(8) [OF reliable_posix [OF R], of fd "4 * int (unat ?c)" d2] h
    by (simp_all add: seek_spec_def Let_def nat_add_distrib nat_mult_distrib d3_def)
  have v4: "view ?d4 = (view d3)\<lparr>files := (files (view d3))(hk_config \<mapsto>
        put (8 + 4 * unat ?c) (to_bytes e 4 ?x) (config_header e s @ drop 8 c)),
      handles := (handles (view d3))(fd \<mapsto> (hk_config, 8 + 4 * unat ?c + length (to_bytes e 4 ?x)))\<rparr>"
    by (rule reliable_write [OF R]) (simp_all add: s3 f c1)
  have "files (view ?d5) = (files (view (dev s)))(hk_config \<mapsto>
      config_header e s @ put (4 * unat ?c) (to_bytes e 4 ?x) (drop 8 c))"
    using v4 s3 f put_behind_8 [of "config_header e s" "4 * unat ?c"] red_posixD(4) [OF reliable_posix [OF R], of fd ?d4]
    by (simp add: close_spec_def)
  moreover have "handles (view ?d5) = handles (view (dev s))"
    using red_posixD(4) [OF reliable_posix [OF R], of fd ?d4] v4 s3 h by (auto simp: close_spec_def)
  ultimately show ?thesis
    using run by (intro exI [of _ ?d5]) (simp add: confined_def)
qed

lemma store_config_item:
  assumes R: "red_reliable ops view" and ok: "fs_ok (view (dev s))"
    and xs: "timestamps s = TsBlock (ys[unat (current_file s) := x])" "unat (current_file s) < length ys"
    and old: "files (view (dev s)) hk_config = Some (hdr @ concat (map (to_bytes e 4) ys) @ rest)"
    and hdr: "length hdr = 8" and rw: "rw \<noteq> 1"
  shows "\<exists>d. store_config ops e rw s = Inr (SUCCESS, s\<lparr>dev := d\<rparr>) \<and>
    files (view d) hk_config = Some (config_image e s @ rest) \<and> confined hk_config (view (dev s)) (view d)"
proof -
  let ?c = "current_file s"
  have "put (4 * unat ?c) (to_bytes e 4 x) (concat (map (to_bytes e 4) ys) @ rest) =
      overlay (4 * unat ?c) (to_bytes e 4 x) (concat (map (to_bytes e 4) ys) @ rest)"
    using xs(2) by (intro put_inside) simp
  then have "config_header e s @ put (4 * unat ?c) (to_bytes e 4 x) (concat (map (to_bytes e 4) ys) @ rest) =
      config_image e s @ rest"
    using xs by (simp add: overlay_item config_image_def items_def)
  with store_config_slot [OF R ok xs(1) _ old rw, of e] xs(2) hdr show ?thesis by simp
qed

text \<open>Without an index a full rewrite writes the header only.\<close>

lemma store_config_null:
  assumes R: "red_reliable ops view" and ok: "fs_ok (view (dev s))" and xs: "timestamps s = TsNull"
  shows "\<exists>d. store_config ops e 1 s = Inr (SUCCESS, s\<lparr>dev := d\<rparr>) \<and>
    files (view d) hk_config = Some (config_header e s @ drop 8 (contents (view (dev s)) hk_config)) \<and>
    confined hk_config (view (dev s)) (view d)"
proof -
  from store_config_start [OF R ok, of e] obtain fd d0 d1 d2 where
    x: "exists_file ops hk_config s =
        Inr (if files (view (dev s)) hk_config = None then FILE_NOT_EXIST else FILE_EXISTS, s\<lparr>dev := d0\<rparr>)"
      "red_open ops hk_config RED_CREAT_RDWR d0 = (fd, d1)" "fd \<noteq> -1"
      "write_all ops fd [to_bytes e 2 (MAX_FILES s), to_bytes e 2 (current_file s), to_bytes e 4 (tempTime s)]
        (s\<lparr>dev := d1\<rparr>) = Inr ((), s\<lparr>dev := d2\<rparr>)"
    and f: "files (view d2) = (files (view (dev s)))(hk_config \<mapsto>
        put 0 (config_header e s) (contents (view (dev s)) hk_config))"
    and h: "handles (view (dev s)) fd = None" "handles (view d2) = (handles (view (dev s)))(fd \<mapsto> (hk_config, 8))"
    by blast
  note C = reliable_posix [OF R]
  let ?d = "red_close ops fd (set_red_errno ops RED_EINVAL d2)"
  have "store_config ops e 1 s = Inr (SUCCESS, s\<lparr>dev := ?d\<rparr>)"
    using xs x by (auto simp: store_config_def prog_simps simp del: write_all.simps)
  moreover have "files (view ?d) = files (view d2)" "handles (view ?d) = handles (view (dev s))"
    using red_posixD(4) [OF C, of fd "set_red_errno ops RED_EINVAL d2"] h
    by (auto simp: close_spec_def red_posixD(2) [OF C])
  ultimately show ?thesis
    using f by (intro exI [of _ ?d]) (simp add: confined_def put_0)
qed

subsection \<open>Loading\<close>

text \<open>An allocator that never fails and leaves the files alone.\<close>

definition malloc_ok :: "'f os_ops \<Rightarrow> ('f \<Rightarrow> fs_view) \<Rightarrow> bool" where
  "malloc_ok os view \<longleftrightarrow> (\<forall>n f. fst (pvPortMalloc os n f) \<noteq> None \<and> view (snd (pvPortMalloc os n f)) = view f)"

lemma handler_ok:
  assumes "ts_inv s" and "num \<noteq> 0" and "unat num < 65535" and "unat (hk_timestamp_array_size s) < 65535"
    and "malloc_ok os view"
  shows "\<exists>zs d. dynamic_timestamp_array_handler os num s =
      Inr (SUCCESS, s\<lparr>timestamps := TsBlock zs, hk_timestamp_array_size := num, dev := d\<rparr>) \<and>
    length zs = unat num + 1 \<and> view d = view (dev s)"
proof (cases "num = hk_timestamp_array_size s")
  case True
  then obtain zs where "timestamps s = TsBlock zs" "length zs = unat num + 1"
    using assms(1,2) by (auto simp: ts_inv_def split: ts_ptr.splits)
  with True assms(2) show ?thesis
    by (intro exI [of _ zs] exI [of _ "dev s"]) (simp add: handler_same)
next
  case False
  obtain g d where m: "pvPortMalloc os (4 * (unat num + 1)) (dev s) = (Some g, d)"
    using assms(5) by (metis malloc_ok_def not_None_eq prod.collapse)
  moreover have "view d = view (dev s)" using assms(5) m by (metis malloc_ok_def snd_conv)
  ultimately show ?thesis
    using dynamic_timestamp_array_handler_run [OF assms(1,2) False assms(3,4) m]
    by (intro exI [of _ "resized (items (timestamps s)) (unat (hk_timestamp_array_size s)) (unat num) g"]
        exI [of _ d]) simp
qed

lemma next_file_run: "next_file s =
    Inr ((), s\<lparr>current_file := (if current_file s + 1 > MAX_FILES s then 1 else current_file s + 1)\<rparr>)"
  by (simp add: next_file_def prog_simps)

lemma read_prefix: "overlay 0 (take n (bs @ rest)) old = bs" if "length bs = n" "length old = n"
  using that by (simp add: overlay_def)

text \<open>
  A configuration file that has a whole header is loaded whatever follows it: the items that it
  does not hold keep what the allocator or the handler left in them.
\<close>

definition headed :: "endianness \<Rightarrow> fs_view \<Rightarrow> 'f hk_state \<Rightarrow> bool" where
  "headed e v s \<longleftrightarrow> (\<exists>rest. files v hk_config = Some (config_header e s @ rest))"

lemma synced_headed: "synced e v s \<Longrightarrow> headed e v s"
  by (auto simp: synced_def headed_def config_image_def)

lemma load_config_headed:
  assumes R: "red_reliable ops view" and ok: "fs_ok (view (dev s))" and M: "malloc_ok os view"
    and inv: "ts_inv s" "unat (hk_timestamp_array_size s) < 65535"
    and img: "files (view (dev s)) hk_config = Some (to_bytes e 2 mx @ to_bytes e 2 cur @ to_bytes e 4 t @ body)"
    and mx: "mx \<noteq> 0" "unat mx < 65535"
  shows "\<exists>d xs. load_config ops os e s = Inr (SUCCESS, s\<lparr>MAX_FILES := mx,
      current_file := (if cur + 1 > mx then 1 else cur + 1),
      tempTime := t, timestamps := TsBlock xs, hk_timestamp_array_size := mx, dev := d\<rparr>) \<and>
    files (view d) = files (view (dev s)) \<and> handles (view d) = handles (view (dev s)) \<and>
    length xs = unat mx + 1 \<and>
    (\<forall>(ys :: u32 list) rest. body = concat (map (to_bytes e 4) ys) @ rest \<and> length ys = unat mx + 1 \<longrightarrow> xs = ys)"
proof -
  let ?m = "to_bytes e 2 mx" and ?c = "to_bytes e 2 cur"
    and ?t = "to_bytes e 4 t"
  let ?n = "4 + 4 * unat mx"
  define c where "c = ?m @ ?c @ ?t @ body"
  from img have hkfile: "files (view (dev s)) hk_config = Some c"
    by (simp add: c_def)
  from reliable_exists [OF R ok, of hk_config] hkfile obtain d0 where
    x: "exists_file ops hk_config s = Inr (FILE_EXISTS, s\<lparr>dev := d0\<rparr>)"
      "files (view d0) = files (view (dev s))" "handles (view d0) = handles (view (dev s))" by auto
  obtain fd d1 where o: "red_open ops hk_config RED_RDONLY d0 = (fd, d1)" by force
  note os = reliable_open [OF R o]
  have fd: "fd \<noteq> -1" using os(1) x(2) hkfile by simp
  have v1: "handles (view (dev s)) fd = None" "files (view d1) = files (view (dev s))"
    "handles (view d1) = (handles (view (dev s)))(fd \<mapsto> (hk_config, 0))"
    using os x hkfile by (auto simp: open_spec_def)
  have rd: "\<exists>d'. read_bytes ops fd n d = (take n (drop pos c), d') \<and>
      files (view d') = files (view (dev s)) \<and> handles (view d') = (handles (view (dev s)))(fd \<mapsto>
        (hk_config, pos + length (take n (drop pos c))))"
    if "files (view d) = files (view (dev s))" "handles (view d) = (handles (view (dev s)))(fd \<mapsto> (hk_config, pos))"
    for d pos n
    using reliable_read [OF R, of d fd hk_config pos _ n] that hkfile
    by (intro exI [of _ "snd (read_bytes ops fd n d)"]) (auto simp: prod_eq_iff)
  from rd [OF v1(2,3), of 2] obtain d2 where r2: "read_bytes ops fd 2 d1 = (?m, d2)"
    and v2: "files (view d2) = files (view (dev s))" "handles (view d2) = (handles (view (dev s)))(fd \<mapsto> (hk_config, 2))"
    by (auto simp: c_def numeral_2_eq_2)
  from rd [OF v2, of 2] obtain d3 where r3: "read_bytes ops fd 2 d2 = (?c, d3)"
    and v3: "files (view d3) = files (view (dev s))" "handles (view d3) = (handles (view (dev s)))(fd \<mapsto> (hk_config, 4))"
    by (auto simp: c_def eval_nat_numeral)
  from rd [OF v3, of 4] obtain d4 where r4: "read_bytes ops fd 4 d3 = (?t, d4)"
    and v4: "files (view d4) = files (view (dev s))" "handles (view d4) = (handles (view (dev s)))(fd \<mapsto> (hk_config, 8))"
    by (auto simp: c_def eval_nat_numeral)
  let ?s = "s\<lparr>MAX_FILES := mx, current_file := cur, dev := d4, tempTime := t\<rparr>"
  have "ts_inv ?s" "unat (hk_timestamp_array_size ?s) < 65535" using inv by (simp_all add: ts_inv_def split: ts_ptr.splits)
  from handler_ok [OF this(1) mx this(2) M] obtain zs d5 where
    h: "dynamic_timestamp_array_handler os mx ?s =
        Inr (SUCCESS, ?s\<lparr>timestamps := TsBlock zs, hk_timestamp_array_size := mx, dev := d5\<rparr>)"
      "length zs = unat mx + 1" "view d5 = view d4" by auto
  from rd [of d5 8 ?n] v4 h(3) obtain d6 where r6: "read_bytes ops fd ?n d5 = (take ?n body, d6)"
    and v6: "files (view d6) = files (view (dev s))"
      "handles (view d6) = (handles (view (dev s)))(fd \<mapsto> (hk_config, 8 + length (take ?n body)))"
    by (auto simp: c_def)
  define xs :: "u32 list" where "xs = decode_many 4 (of_bytes e) (length zs) (overlay 0 (take ?n body) (concat (map (to_bytes e 4) zs)))"
  have dec: "xs = ys" if "body = concat (map (to_bytes e 4) ys) @ rest" "length ys = unat mx + 1"
    for ys :: "u32 list" and rest
    using mem32.decode_many_encode [of e ys "[]"] that h(2) by (simp add: xs_def overlay_def)
  have ld: "ts_load e (take ?n body) st = Inr ((), st\<lparr>timestamps := TsBlock xs\<rparr>)"
    if "timestamps st = TsBlock zs" for st :: "'a hk_state"
    using that h(2) by (simp add: ts_load_def xs_def)
  have len: "length xs = unat mx + 1" using h(2) by (simp add: xs_def)
  let ?d7 = "red_close ops fd d6"
  have "files (view ?d7) = files (view (dev s)) \<and> handles (view ?d7) = handles (view (dev s))"
    using red_posixD(4) [OF reliable_posix [OF R], of fd d6] v6 v1(1) by (auto simp: close_spec_def)
  moreover have "load_config ops os e s = Inr (SUCCESS, s\<lparr>MAX_FILES := mx,
      current_file := (if cur + 1 > mx then 1 else cur + 1),
      tempTime := t, timestamps := TsBlock xs, hk_timestamp_array_size := mx, dev := ?d7\<rparr>)"
    by (simp add: load_config_def load_timestamps_def prog_simps x(1) o fd r2 r3 r4 r6 h(1) ld next_file_run overlay_def)
  ultimately show ?thesis
    using dec len by (intro exI [of _ ?d7] exI [of _ xs]) blast
qed

lemma load_config_restores:
  assumes R: "red_reliable ops view" and ok: "fs_ok (view (dev s))" and M: "malloc_ok os view"
    and inv: "ts_inv s" "unat (hk_timestamp_array_size s) < 65535"
    and img: "synced e (view (dev s)) s0" "timestamps s0 = TsBlock xs"
    and len: "length xs = unat (MAX_FILES s0) + 1" "MAX_FILES s0 \<noteq> 0" "unat (MAX_FILES s0) < 65535"
  shows "\<exists>d. load_config ops os e s = Inr (SUCCESS, s\<lparr>MAX_FILES := MAX_FILES s0,
      current_file := (if current_file s0 + 1 > MAX_FILES s0 then 1 else current_file s0 + 1),
      tempTime := tempTime s0, timestamps := TsBlock xs, hk_timestamp_array_size := MAX_FILES s0, dev := d\<rparr>) \<and>
    files (view d) = files (view (dev s)) \<and> handles (view d) = handles (view (dev s))"
proof -
  from img obtain rest where "files (view (dev s)) hk_config = Some (to_bytes e 2 (MAX_FILES s0) @
      to_bytes e 2 (current_file s0) @ to_bytes e 4 (tempTime s0) @ concat (map (to_bytes e 4) xs) @ rest)"
    by (auto simp: synced_def config_image_def config_header_def items_def)
  from load_config_headed [OF R ok M inv this len(2,3)] len(1) show ?thesis by blast
qed

lemma ram_reliable: "red_reliable ram_ops ram_view"
proof -
  have *: "0 < foldr max (map fst (mhandles f)) 0 + 1" for f
    using fresh_nonneg [of "map fst (mhandles f)"] by simp
  have "fst (ram_open nm fl f) = -1 \<Longrightarrow> (fl = RED_CREAT_EXCL_RDWR \<and> files (ram_view f) nm \<noteq> None \<and>
      verrno (ram_view (snd (ram_open nm fl f))) = RED_EEXIST) \<or>
    (fl = RED_RDONLY \<and> files (ram_view f) nm = None)" for nm fl f
    using * [of f] by (auto simp: ram_open_def ram_view_def Let_def split: option.splits if_splits)
  then show ?thesis
    unfolding red_reliable_def
    by (intro conjI ram_posix allI impI)
      (auto simp: read_bytes_def ram_ops_def ram_write_def ram_read_def ram_view_def ram_unlink_def Let_def)
qed

end
