(* ===== verification/Service_Loop.thy ===== *)
theory Service_Loop
  imports Csp
begin

text \<open>
  Buffer ownership and the server tasks. Every service task of \<^verbatim>\<open>Services/source\<close> binds a
  socket and then repeats: accept a connection (or time out), read its packets until
  \<^verbatim>\<open>csp_read\<close> returns \<^verbatim>\<open>NULL\<close>, handle each packet, close the connection.
  What the network delivers is an explicit input: a list of accept outcomes, each a timeout or
  the packets that the connection yields. The task itself never returns; its behaviour is
  its effect on every such finite list of outcomes.

  The locale \<^verbatim>\<open>packet_app_but\<close> is the contract between the loop and the handlers: given a
  packet with enough capacity a handler either ends in a fault that is known from its state, or without one and
  keeps the buffer and its subservice byte; \<^verbatim>\<open>packet_app\<close> is the case of no faults. The loop
  lemmas are proved once from it; each service theory interprets one of the two.
\<close>

subsection \<open>The buffers a service owns\<close>

record 'w csp_ops =
  op_send :: "csp_packet \<Rightarrow> 'w \<Rightarrow> bool \<times> 'w"
  op_buffer_get :: "nat \<Rightarrow> 'w \<Rightarrow> csp_packet option \<times> 'w"
  op_buffer_clone :: "csp_packet \<Rightarrow> 'w \<Rightarrow> csp_packet option \<times> 'w"

record 'w pool =
  bufs :: "nat \<Rightarrow> csp_packet option"
  nxt :: nat
  svc_wdt_counter :: u32
  pworld :: 'w

definition pool_ok :: "'w pool \<Rightarrow> bool" where
  "pool_ok s \<longleftrightarrow> (\<forall>h. nxt s \<le> h \<longrightarrow> bufs s h = None)"

definition own :: "csp_packet \<Rightarrow> ('w pool, nat) prog" where
  "own p = (\<lambda>s. Inr (nxt s, s\<lparr>bufs := (bufs s)(nxt s \<mapsto> p), nxt := Suc (nxt s)\<rparr>))"

definition csp_buffer_free :: "nat \<Rightarrow> ('w pool, unit) prog" where
  "csp_buffer_free h = (\<lambda>s. case bufs s h of
     None \<Rightarrow> Inl DoubleFree
   | Some _ \<Rightarrow> Inr ((), s\<lparr>bufs := (bufs s)(h := None)\<rparr>))"

definition csp_send :: "'w csp_ops \<Rightarrow> nat \<Rightarrow> ('w pool, bool) prog" where
  "csp_send ops h = (\<lambda>s. case bufs s h of
     None \<Rightarrow> Inl UseAfterFree
   | Some p \<Rightarrow> (case op_send ops p (pworld s) of (ok, w) \<Rightarrow>
       Inr (ok, s\<lparr>bufs := (if ok then (bufs s)(h := None) else bufs s), pworld := w\<rparr>)))"

definition take_buffer :: "csp_packet option \<times> 'w \<Rightarrow> ('w pool, nat option) prog" where
  "take_buffer r = (case r of
     (None, w) \<Rightarrow> (\<lambda>s. Inr (None, s\<lparr>pworld := w\<rparr>))
   | (Some p, w) \<Rightarrow> (\<lambda>s. Inr (Some (nxt s),
        s\<lparr>bufs := (bufs s)(nxt s \<mapsto> p), nxt := Suc (nxt s), pworld := w\<rparr>)))"

definition csp_buffer_get :: "'w csp_ops \<Rightarrow> nat \<Rightarrow> ('w pool, nat option) prog" where
  "csp_buffer_get ops n = (\<lambda>s. take_buffer (op_buffer_get ops n (pworld s)) s)"

definition csp_buffer_clone :: "'w csp_ops \<Rightarrow> nat \<Rightarrow> ('w pool, nat option) prog" where
  "csp_buffer_clone ops h = (\<lambda>s. case bufs s h of
     None \<Rightarrow> Inl UseAfterFree
   | Some p \<Rightarrow> take_buffer (op_buffer_clone ops p (pworld s)) s)"

text \<open>A packet program run on an owned buffer.\<close>

definition on_packet :: "nat \<Rightarrow> ('w hst, 'a) prog \<Rightarrow> ('w pool, 'a) prog" where
  "on_packet h m = (\<lambda>s. case bufs s h of
     None \<Rightarrow> Inl UseAfterFree
   | Some p \<Rightarrow> (case m \<lparr>packet = p, world = pworld s\<rparr> of
       Inl e \<Rightarrow> Inl e
     | Inr r \<Rightarrow> Inr (fst r, s\<lparr>bufs := (bufs s)(h \<mapsto> packet (snd r)), pworld := world (snd r)\<rparr>)))"

definition on_world :: "('w, 'a) prog \<Rightarrow> ('w pool, 'a) prog" where
  "on_world m = (\<lambda>s. case m (pworld s) of
     Inl e \<Rightarrow> Inl e
   | Inr r \<Rightarrow> Inr (fst r, s\<lparr>pworld := snd r\<rparr>))"

lemmas pool_op_defs = own_def csp_buffer_free_def csp_send_def take_buffer_def
  csp_buffer_get_def csp_buffer_clone_def on_packet_def on_world_def

subsection \<open>The task loop\<close>

definition kick :: "nat \<Rightarrow> ('w pool, unit) prog" where
  "kick n = modify (\<lambda>s. s\<lparr>svc_wdt_counter := svc_wdt_counter s + of_nat n\<rparr>)"

lemma kick_run [prog_simps]:
  "kick n s = Inr ((), s\<lparr>svc_wdt_counter := svc_wdt_counter s + of_nat n\<rparr>)"
  by (simp add: kick_def modify_run)

text \<open>\<^verbatim>\<open>get_svc_wdt_counter\<close>, with a counter of its own in every service file.\<close>

definition get_svc_wdt_counter :: "('w pool, u32) prog" where
  "get_svc_wdt_counter = gets svc_wdt_counter"

text \<open>A packet sent, and released when sending fails.\<close>

definition send_or_release :: "'w csp_ops \<Rightarrow> nat \<Rightarrow> ('w pool, unit) prog" where
  "send_or_release ops h = bnd (csp_send ops h) (\<lambda>ok. if \<not> ok then csp_buffer_free h else ret ())"

text \<open>
  \<^verbatim>\<open>if (app(packet) != SATR_OK) free(packet); else if (!csp_send(conn, packet, 50)) free(packet);\<close>
\<close>

definition reply_step ::
  "'w csp_ops \<Rightarrow> ('w hst, SAT_returnState) prog \<Rightarrow> nat \<Rightarrow> ('w pool, unit) prog" where
  "reply_step ops app h =
     bnd (on_packet h app) (\<lambda>r.
       if r \<noteq> SATR_OK then csp_buffer_free h
       else send_or_release ops h)"

text \<open>Handlers that send or release the packet themselves; a bad result is only logged.\<close>

definition log_step :: "(nat \<Rightarrow> ('w pool, SAT_returnState) prog) \<Rightarrow> nat \<Rightarrow> ('w pool, unit) prog" where
  "log_step app h = bnd (app h) (\<lambda>_. ret ())"

primrec serve_conn :: "(nat \<Rightarrow> ('w pool, unit) prog) \<Rightarrow> csp_packet list \<Rightarrow> ('w pool, unit) prog" where
  "serve_conn step [] = ret ()"
| "serve_conn step (p # ps) = bnd (own p) (\<lambda>h. andthen (step h) (serve_conn step ps))"

datatype accept = Timeout | Connection "csp_packet list"

text \<open>
  How often the task increments \<^verbatim>\<open>svc_wdt_counter\<close>: before the loop, at the top of each
  iteration, on a timeout, and after accepting a connection.
\<close>

record kicks =
  k_init :: nat
  k_iter :: nat
  k_timeout :: nat
  k_accept :: nat

primrec service_loop ::
  "kicks \<Rightarrow> (nat \<Rightarrow> ('w pool, unit) prog) \<Rightarrow> accept list \<Rightarrow> ('w pool, unit) prog" where
  "service_loop k step [] = ret ()"
| "service_loop k step (a # as) =
     andthen (kick (k_iter k))
    (andthen (case a of
        Timeout \<Rightarrow> kick (k_timeout k)
      | Connection ps \<Rightarrow> andthen (kick (k_accept k)) (serve_conn step ps))
     (service_loop k step as))"

definition service_task ::
  "kicks \<Rightarrow> (nat \<Rightarrow> ('w pool, unit) prog) \<Rightarrow> accept list \<Rightarrow> ('w pool, unit) prog" where
  "service_task k step as = andthen (kick (k_init k)) (service_loop k step as)"

text \<open>The increments that a run of the loop makes.\<close>

definition kicks_of :: "kicks \<Rightarrow> accept \<Rightarrow> nat" where
  "kicks_of k a = k_iter k + (case a of Timeout \<Rightarrow> k_timeout k | Connection _ \<Rightarrow> k_accept k)"

definition packets_of :: "accept \<Rightarrow> csp_packet list" where
  "packets_of a = (case a of Timeout \<Rightarrow> [] | Connection ps \<Rightarrow> ps)"

subsection \<open>What a run of a task leaves behind\<close>

text \<open>
  A step \<^emph>\<open>leaves\<close> some of its packets: it ends without a fault, with a packet that satisfies
  \<open>leak\<close> still in its buffer and any other one gone, every other buffer as before and the watchdog
  counter untouched; or else it ends in one of the faults that \<open>flt\<close> lists for its packet. A step disposes of its
  packets when it leaves none.
\<close>

definition leaves_or ::
  "(nat \<Rightarrow> ('w pool, unit) prog) \<Rightarrow> (csp_packet \<Rightarrow> bool) \<Rightarrow> (csp_packet \<Rightarrow> bool) \<Rightarrow> (csp_packet \<Rightarrow> fault set) \<Rightarrow> bool" where
  "leaves_or step okp leak flt \<longleftrightarrow> (\<forall>s h p. bufs s h = Some p \<longrightarrow> okp p \<longrightarrow>
     (\<exists>w. step h s = Inr ((), s\<lparr>bufs := (bufs s)(h := if leak p then Some p else None), pworld := w\<rparr>)) \<or>
     (\<exists>f\<in>flt p. step h s = Inl f))"

abbreviation leaves :: "(nat \<Rightarrow> ('w pool, unit) prog) \<Rightarrow> (csp_packet \<Rightarrow> bool) \<Rightarrow> (csp_packet \<Rightarrow> bool) \<Rightarrow> bool" where
  "leaves step okp leak \<equiv> leaves_or step okp leak (\<lambda>_. {})"

abbreviation disposes_or ::
  "(nat \<Rightarrow> ('w pool, unit) prog) \<Rightarrow> (csp_packet \<Rightarrow> bool) \<Rightarrow> (csp_packet \<Rightarrow> fault set) \<Rightarrow> bool" where
  "disposes_or step okp flt \<equiv> leaves_or step okp (\<lambda>_. False) flt"

lemma leaves_def:
  "leaves step okp leak \<longleftrightarrow> (\<forall>s h p. bufs s h = Some p \<longrightarrow> okp p \<longrightarrow>
     (\<exists>w. step h s = Inr ((), s\<lparr>bufs := (bufs s)(h := if leak p then Some p else None), pworld := w\<rparr>)))"
  by (simp add: leaves_or_def)

lemma leavesD:
  "leaves_or step okp leak flt \<Longrightarrow> bufs s h = Some p \<Longrightarrow> okp p \<Longrightarrow>
   (\<exists>w. step h s = Inr ((), s\<lparr>bufs := (bufs s)(h := if leak p then Some p else None), pworld := w\<rparr>)) \<or>
   (\<exists>f\<in>flt p. step h s = Inl f)"
  by (simp add: leaves_or_def)

primrec kept :: "(csp_packet \<Rightarrow> bool) \<Rightarrow> nat \<Rightarrow> csp_packet list \<Rightarrow> (nat \<Rightarrow> csp_packet option) \<Rightarrow> nat \<Rightarrow> csp_packet option" where
  "kept leak n [] b = b"
| "kept leak n (p # ps) b = kept leak (Suc n) ps (b(n := if leak p then Some p else None))"

lemma kept_nth:
  "kept leak n ps b k =
    (if n \<le> k \<and> k < n + length ps then (if leak (ps ! (k - n)) then Some (ps ! (k - n)) else None) else b k)"
  by (induction ps arbitrary: n b) (auto simp: nth_Cons' not_less_eq_eq Suc_diff_Suc)

lemma kept_append: "kept leak n (ps @ qs) b = kept leak (n + length ps) qs (kept leak n ps b)"
  by (induction ps arbitrary: n b) simp_all

lemma kept_none: "(\<And>k. n \<le> k \<Longrightarrow> b k = None) \<Longrightarrow> kept (\<lambda>_. False) n ps b = b"
  by (rule ext) (simp add: kept_nth)

lemma serve_conn_leaves:
  assumes d: "leaves_or step okp leak flt" and "\<forall>p\<in>set ps. okp p"
  shows "(\<exists>w. serve_conn step ps s =
      Inr ((), s\<lparr>bufs := kept leak (nxt s) ps (bufs s), nxt := nxt s + length ps, pworld := w\<rparr>)) \<or>
    (\<exists>p\<in>set ps. \<exists>f\<in>flt p. serve_conn step ps s = Inl f)"
  using assms(2)
proof (induction ps arbitrary: s)
  case Nil
  show ?case by (intro disjI1 exI [of _ "pworld s"]) (simp add: ret_run)
next
  case (Cons p ps)
  let ?h = "nxt s"
  let ?s = "s\<lparr>bufs := (bufs s)(?h \<mapsto> p), nxt := Suc ?h\<rparr>"
  define b where "b = (bufs s)(?h := if leak p then Some p else None)"
  from leavesD [OF d, of ?s ?h p] Cons.prems consider
      (run) w where "step ?h ?s = Inr ((), s\<lparr>nxt := Suc ?h, bufs := b, pworld := w\<rparr>)"
    | (fault) f where "f \<in> flt p" "step ?h ?s = Inl f"
    by (auto simp: b_def)
  then show ?case
  proof cases
    case run
    with Cons.IH [of "s\<lparr>nxt := Suc ?h, bufs := b, pworld := w\<rparr>"] Cons.prems show ?thesis
      by (auto simp: bnd_run andthen_run own_def b_def [symmetric])
  next
    case fault
    then show ?thesis by (auto simp: bnd_run andthen_run own_def)
  qed
qed

lemma service_loop_leaves:
  assumes d: "leaves_or step okp leak flt" and "\<forall>a\<in>set as. \<forall>p\<in>set (packets_of a). okp p"
  shows "(\<exists>w. service_loop k step as s =
    Inr ((), s\<lparr>bufs := kept leak (nxt s) (concat (map packets_of as)) (bufs s), nxt := nxt s + length (concat (map packets_of as)),
      svc_wdt_counter := svc_wdt_counter s + of_nat (sum_list (map (kicks_of k) as)), pworld := w\<rparr>)) \<or>
    (\<exists>a\<in>set as. \<exists>p\<in>set (packets_of a). \<exists>f\<in>flt p. service_loop k step as s = Inl f)"
  using assms(2)
proof (induction as arbitrary: s)
  case Nil
  show ?case by (intro disjI1 exI [of _ "pworld s"]) (simp add: ret_run)
next
  case (Cons a as)
  let ?ps = "packets_of a"
  let ?c = "svc_wdt_counter s + of_nat (kicks_of k a)"
  let ?body = "andthen (kick (k_iter k)) (case a of Timeout \<Rightarrow> kick (k_timeout k)
      | Connection ps \<Rightarrow> andthen (kick (k_accept k)) (serve_conn step ps))"
  have split: "service_loop k step (a # as) s =
      (case ?body s of Inl e \<Rightarrow> Inl e | Inr r \<Rightarrow> service_loop k step as (snd r))"
    by (simp add: andthen_run split: sum.splits)
  have "(\<exists>w. ?body s = Inr ((), s\<lparr>bufs := kept leak (nxt s) ?ps (bufs s), nxt := nxt s + length ?ps,
      svc_wdt_counter := ?c, pworld := w\<rparr>)) \<or> (\<exists>p\<in>set ?ps. \<exists>f\<in>flt p. ?body s = Inl f)"
  proof (cases a)
    case Timeout
    then show ?thesis
      by (intro disjI1 exI [of _ "pworld s"]) (simp add: prog_simps packets_of_def kicks_of_def add.assoc)
  next
    case (Connection ps)
    let ?s = "s\<lparr>svc_wdt_counter := svc_wdt_counter s + of_nat (k_iter k) + of_nat (k_accept k)\<rparr>"
    from serve_conn_leaves [OF d, of ps ?s] Cons.prems Connection consider
        (run) w where "serve_conn step ps ?s = Inr ((), ?s\<lparr>bufs := kept leak (nxt s) ps (bufs s), nxt := nxt s + length ps, pworld := w\<rparr>)"
      | (fault) p f where "p \<in> set ps" "f \<in> flt p" "serve_conn step ps ?s = Inl f"
      by (auto simp: packets_of_def)
    then show ?thesis
    proof cases
      case run
      then show ?thesis
        by (intro disjI1 exI [of _ w]) (simp add: Connection prog_simps packets_of_def kicks_of_def add.assoc)
    next
      case fault
      then show ?thesis
        by (intro disjI2 bexI [of _ p] bexI [of _ f]) (simp_all add: Connection prog_simps packets_of_def)
    qed
  qed
  then consider
      (run) w where "?body s = Inr ((), s\<lparr>bufs := kept leak (nxt s) ?ps (bufs s), nxt := nxt s + length ?ps,
        svc_wdt_counter := ?c, pworld := w\<rparr>)"
    | (fault) p f where "p \<in> set ?ps" "f \<in> flt p" "?body s = Inl f" by blast
  then show ?case
  proof cases
    case run
    with Cons.IH [of "s\<lparr>bufs := kept leak (nxt s) ?ps (bufs s), nxt := nxt s + length ?ps, svc_wdt_counter := ?c, pworld := w\<rparr>"]
      Cons.prems show ?thesis
      unfolding split run by (auto simp: ac_simps kept_append)
  next
    case fault
    then show ?thesis unfolding split by auto
  qed
qed

lemma service_task_leaves_or:
  assumes d: "leaves_or step okp leak flt" and "\<forall>a\<in>set as. \<forall>p\<in>set (packets_of a). okp p"
  shows "(\<exists>w. service_task k step as s =
    Inr ((), s\<lparr>bufs := kept leak (nxt s) (concat (map packets_of as)) (bufs s), nxt := nxt s + length (concat (map packets_of as)),
      svc_wdt_counter := svc_wdt_counter s + of_nat (k_init k + sum_list (map (kicks_of k) as)), pworld := w\<rparr>)) \<or>
    (\<exists>a\<in>set as. \<exists>p\<in>set (packets_of a). \<exists>f\<in>flt p. service_task k step as s = Inl f)"
  using service_loop_leaves [OF d assms(2), of k "s\<lparr>svc_wdt_counter := svc_wdt_counter s + of_nat (k_init k)\<rparr>"]
  by (simp add: service_task_def prog_simps add.assoc)

lemma service_task_leaves:
  assumes "leaves step okp leak" and "\<forall>a\<in>set as. \<forall>p\<in>set (packets_of a). okp p"
  shows "\<exists>w. service_task k step as s =
    Inr ((), s\<lparr>bufs := kept leak (nxt s) (concat (map packets_of as)) (bufs s), nxt := nxt s + length (concat (map packets_of as)),
      svc_wdt_counter := svc_wdt_counter s + of_nat (k_init k + sum_list (map (kicks_of k) as)), pworld := w\<rparr>)"
  using service_task_leaves_or [OF assms, of k s] by simp

lemma service_task_disposes:
  assumes d: "disposes_or step okp flt" and s: "pool_ok s" and p: "\<forall>a\<in>set as. \<forall>p\<in>set (packets_of a). okp p"
  shows "(\<exists>w. service_task k step as s =
    Inr ((), s\<lparr>nxt := nxt s + length (concat (map packets_of as)),
      svc_wdt_counter := svc_wdt_counter s + of_nat (k_init k + sum_list (map (kicks_of k) as)), pworld := w\<rparr>)) \<or>
    (\<exists>a\<in>set as. \<exists>p\<in>set (packets_of a). \<exists>f\<in>flt p. service_task k step as s = Inl f)"
proof -
  have "kept (\<lambda>_. False) (nxt s) ps (bufs s) = bufs s" for ps
    by (rule kept_none) (use s in \<open>simp add: pool_ok_def\<close>)
  then show ?thesis
    using service_task_leaves_or [OF d p, of k s] by simp
qed

subsection \<open>The contract of a request handler\<close>

text \<open>
  \<^verbatim>\<open>env\<close> collects what the handler is parametrised with (drivers, byte order), \<^verbatim>\<open>wf\<close>
  what it needs of it, \<^verbatim>\<open>cap\<close> the buffer capacity in bytes that it needs. \<open>fails\<close> tells in which states
  the handler ends in a fault, \<open>flt\<close> which faults a packet can cause at all. The second locale is the
  contract of a handler that has none.
\<close>

locale packet_app_but =
  fixes app :: "'e \<Rightarrow> ('w hst, SAT_returnState) prog"
    and wf :: "'e \<Rightarrow> bool"
    and cap :: "'e \<Rightarrow> nat"
    and fails :: "'e \<Rightarrow> 'w hst \<Rightarrow> fault option"
    and flt :: "csp_packet \<Rightarrow> fault set"
  assumes app_safe_but: "wf e \<Longrightarrow> safe_but (cap e) (fails e) (app e)"
    and fails_flt: "fails e s = Some f \<Longrightarrow> f \<in> flt (packet s)"
begin

lemma reply_step_disposes:
  assumes "wf e"
  shows "disposes_or (reply_step ops (app e)) (\<lambda>p. cap e \<le> length (pkt_data p)) flt"
  unfolding leaves_or_def
proof (intro allI impI)
  fix s :: "'w pool" and h p
  assume h: "bufs s h = Some p" and len: "cap e \<le> length (pkt_data p)"
  let ?s = "\<lparr>packet = p, world = pworld s\<rparr>"
  have len': "cap e \<le> length (data ?s)" using len by simp
  show "(\<exists>w. reply_step ops (app e) h s = Inr ((), s\<lparr>bufs := (bufs s)(h := if False then Some p else None), pworld := w\<rparr>)) \<or>
      (\<exists>f\<in>flt p. reply_step ops (app e) h s = Inl f)"
  proof (cases "fails e ?s")
    case (Some f)
    from safe_but_fault [OF app_safe_but [OF assms] len' this] have "reply_step ops (app e) h s = Inl f"
      by (simp add: reply_step_def on_packet_def bnd_run h)
    with fails_flt [OF Some] show ?thesis by auto
  next
    case None
    from safe_but_run [OF app_safe_but [OF assms] len' this] obtain r t where r: "app e ?s = Inr (r, t)" by auto
    obtain ok w where snd: "op_send ops (packet t) (world t) = (ok, w)" by force
    have "\<exists>w. reply_step ops (app e) h s = Inr ((), s\<lparr>bufs := (bufs s)(h := None), pworld := w\<rparr>)"
      by (cases ok)
        (auto simp: reply_step_def send_or_release_def pool_op_defs prog_simps h r snd
          intro: exI [of _ w] exI [of _ "world t"])
    then show ?thesis by simp
  qed
qed

lemma task_outcome:
  assumes "wf e" and "pool_ok s"
    and "\<forall>a\<in>set as. \<forall>p\<in>set (packets_of a). cap e \<le> length (pkt_data p)"
  shows "(\<exists>w. service_task k (reply_step ops (app e)) as s =
    Inr ((), s\<lparr>nxt := nxt s + length (concat (map packets_of as)),
      svc_wdt_counter := svc_wdt_counter s + of_nat (k_init k + sum_list (map (kicks_of k) as)), pworld := w\<rparr>)) \<or>
    (\<exists>a\<in>set as. \<exists>p\<in>set (packets_of a). \<exists>f\<in>flt p. service_task k (reply_step ops (app e)) as s = Inl f)"
  by (rule service_task_disposes [OF reply_step_disposes [OF assms(1)] assms(2,3)])

end

locale packet_app =
  fixes app :: "'e \<Rightarrow> ('w hst, SAT_returnState) prog"
    and wf :: "'e \<Rightarrow> bool"
    and cap :: "'e \<Rightarrow> nat"
  assumes app_safe: "wf e \<Longrightarrow> safe (cap e) (app e)"

sublocale packet_app \<subseteq> faultless: packet_app_but app wf cap "\<lambda>_ _. None" "\<lambda>_. {}"
  by unfold_locales (simp_all add: safe_but_none app_safe)

context packet_app
begin

lemma task_total:
  assumes "wf e" and "pool_ok s"
    and "\<forall>a\<in>set as. \<forall>p\<in>set (packets_of a). cap e \<le> length (pkt_data p)"
  shows "\<exists>w. service_task k (reply_step ops (app e)) as s =
    Inr ((), s\<lparr>nxt := nxt s + length (concat (map packets_of as)),
      svc_wdt_counter := svc_wdt_counter s + of_nat (k_init k + sum_list (map (kicks_of k) as)),
      pworld := w\<rparr>)"
  using faultless.task_outcome [OF assms, of k ops] by simp

end

subsection \<open>Tasks that serve requests\<close>

text \<open>
  What one step of a task has to show, and what follows for all connections. \<open>out\<close> is what has been
  sent, \<open>answers\<close> relates a request and what is sent for it, and \<open>inv\<close> is a state in which requests
  can be served.
\<close>

locale serving =
  fixes wf :: "'e \<Rightarrow> bool"
    and inv :: "'e \<Rightarrow> 'w \<Rightarrow> bool"
    and step :: "'e \<Rightarrow> nat \<Rightarrow> ('w pool, unit) prog"
    and okp :: "'e \<Rightarrow> csp_packet \<Rightarrow> bool"
    and answers :: "'e \<Rightarrow> csp_packet \<Rightarrow> 'o list \<Rightarrow> bool"
    and out :: "'e \<Rightarrow> 'w \<Rightarrow> 'o list"
  assumes serves: "wf e \<Longrightarrow> inv e (pworld s) \<Longrightarrow> pool_ok s \<Longrightarrow> bufs s h = Some p \<Longrightarrow> okp e p \<Longrightarrow>
      \<exists>t ps. step e h s = Inr ((), t) \<and> bufs t = (bufs s)(h := None) \<and> nxt s \<le> nxt t \<and>
        svc_wdt_counter t = svc_wdt_counter s \<and> inv e (pworld t) \<and> out e (pworld t) = out e (pworld s) @ ps \<and> answers e p ps"
begin

lemma connection:
  assumes "wf e" and "inv e (pworld s)" and "pool_ok s" and "\<forall>p\<in>set ps. okp e p"
  shows "\<exists>t pss. serve_conn (step e) ps s = Inr ((), t) \<and> bufs t = bufs s \<and> pool_ok t \<and>
    svc_wdt_counter t = svc_wdt_counter s \<and> inv e (pworld t) \<and>
    out e (pworld t) = out e (pworld s) @ concat pss \<and> list_all2 (answers e) ps pss"
  using assms(2-4)
proof (induction ps arbitrary: s)
  case Nil
  then show ?case by (intro exI [of _ s] exI [of _ "[]"]) (simp add: ret_run)
next
  case (Cons p ps)
  let ?h = "nxt s" and ?s = "s\<lparr>bufs := (bufs s)(nxt s \<mapsto> p), nxt := Suc (nxt s)\<rparr>"
  have pre: "inv e (pworld ?s)" "pool_ok ?s" "bufs ?s ?h = Some p" "okp e p"
    using Cons.prems by (auto simp: pool_ok_def)
  from serves [OF assms(1) pre] obtain t qs where
    one: "step e ?h ?s = Inr ((), t)" "bufs t = (bufs ?s)(?h := None)" "nxt ?s \<le> nxt t"
      "svc_wdt_counter t = svc_wdt_counter s" "inv e (pworld t)" "out e (pworld t) = out e (pworld s) @ qs" "answers e p qs"
    by auto
  have "bufs t = bufs s" using one(2) Cons.prems(2) by (auto simp: pool_ok_def)
  moreover from this have "pool_ok t" using one(3) Cons.prems(2) by (auto simp: pool_ok_def)
  moreover from Cons.IH [OF one(5) this] Cons.prems(3) obtain u pss where
    "serve_conn (step e) ps t = Inr ((), u)" "bufs u = bufs t" "pool_ok u" "svc_wdt_counter u = svc_wdt_counter t"
      "inv e (pworld u)" "out e (pworld u) = out e (pworld t) @ concat pss" "list_all2 (answers e) ps pss" by auto
  ultimately show ?case
    using one by (intro exI [of _ u] exI [of _ "qs # pss"]) (simp add: bnd_run andthen_run own_def)
qed

lemma loop:
  assumes "wf e" and "inv e (pworld s)" and "pool_ok s" and "\<forall>a\<in>set as. \<forall>p\<in>set (packets_of a). okp e p"
  shows "\<exists>t pss. service_loop k (step e) as s = Inr ((), t) \<and> bufs t = bufs s \<and>
    svc_wdt_counter t = svc_wdt_counter s + of_nat (sum_list (map (kicks_of k) as)) \<and> inv e (pworld t) \<and>
    out e (pworld t) = out e (pworld s) @ concat pss \<and> list_all2 (answers e) (concat (map packets_of as)) pss"
  using assms(2-4)
proof (induction as arbitrary: s)
  case Nil
  then show ?case by (intro exI [of _ s] exI [of _ "[]"]) (simp add: ret_run)
next
  case (Cons a as)
  let ?s = "s\<lparr>svc_wdt_counter := svc_wdt_counter s + of_nat (kicks_of k a)\<rparr>"
  have pre: "inv e (pworld ?s)" "pool_ok ?s" "\<forall>p\<in>set (packets_of a). okp e p"
    using Cons.prems by (auto simp: pool_ok_def)
  from connection [OF assms(1) pre] obtain t qss where
    one: "serve_conn (step e) (packets_of a) ?s = Inr ((), t)" "bufs t = bufs s" "pool_ok t"
      "svc_wdt_counter t = svc_wdt_counter ?s" "inv e (pworld t)" "out e (pworld t) = out e (pworld s) @ concat qss"
      "list_all2 (answers e) (packets_of a) qss" by auto
  from Cons.IH [OF one(5,3)] Cons.prems(3) obtain u pss where
    rest: "service_loop k (step e) as t = Inr ((), u)" "bufs u = bufs t"
      "svc_wdt_counter u = svc_wdt_counter t + of_nat (sum_list (map (kicks_of k) as))" "inv e (pworld u)"
      "out e (pworld u) = out e (pworld t) @ concat pss" "list_all2 (answers e) (concat (map packets_of as)) pss" by auto
  have "service_loop k (step e) (a # as) s = Inr ((), u)"
    using one(1) rest(1) by (cases a) (simp_all add: prog_simps packets_of_def kicks_of_def add.assoc)
  moreover have "list_all2 (answers e) (concat (map packets_of (a # as))) (qss @ pss)"
    using one(7) rest(6) by (simp add: list_all2_appendI)
  ultimately show ?case
    using one rest by (intro exI [of _ u] exI [of _ "qss @ pss"]) (simp add: add.assoc)
qed

lemma task:
  assumes "wf e" and "inv e (pworld s)" and "pool_ok s" and "\<forall>a\<in>set as. \<forall>p\<in>set (packets_of a). okp e p"
  shows "\<exists>t pss. service_task k (step e) as s = Inr ((), t) \<and> bufs t = bufs s \<and>
    svc_wdt_counter t = svc_wdt_counter s + of_nat (k_init k + sum_list (map (kicks_of k) as)) \<and> inv e (pworld t) \<and>
    out e (pworld t) = out e (pworld s) @ concat pss \<and> list_all2 (answers e) (concat (map packets_of as)) pss"
proof -
  let ?s = "s\<lparr>svc_wdt_counter := svc_wdt_counter s + of_nat (k_init k)\<rparr>"
  have "inv e (pworld ?s)" "pool_ok ?s" using assms(2,3) by (simp_all add: pool_ok_def)
  from loop [OF assms(1) this assms(4), of k] show ?thesis
    by (simp add: service_task_def andthen_run kick_run add.assoc)
qed

end

end
