(* ===== verification/Hk_Service.thy ===== *)
theory Hk_Service
  imports Hk_Config Service_Loop
begin

text \<open>
  The operations of \<^verbatim>\<open>Services/source/housekeeping/housekeeping_service.c\<close> that the
  rest of the system calls: collecting and storing a sample, changing the number of files,
  paging through the history, and the request handler with its task.

  The service runs as a program over \<open>'f hk_state\<close>; the handler works on packets too and runs
  over a pool whose world is that state. The devices, FreeRTOS, libcsp and the byte-order
  converters of the subsystem structures are parameters that act on \<open>'f\<close> alone.
\<close>

subsection \<open>The lock\<close>

text \<open>
  A mutex taken twice by the same task blocks it forever; taking or giving a null handle
  has no defined result.
\<close>

definition xSemaphoreTake :: "('f hk_state, unit) prog" where
  "xSemaphoreTake = (\<lambda>s. case f_count_lock s of
     LockNull \<Rightarrow> Inl NullDeref
   | LockFree \<Rightarrow> Inr ((), s\<lparr>f_count_lock := LockHeld\<rparr>)
   | LockHeld \<Rightarrow> Inl Deadlock)"

definition xSemaphoreGive :: "('f hk_state, unit) prog" where
  "xSemaphoreGive = (\<lambda>s. case f_count_lock s of
     LockNull \<Rightarrow> Inl NullDeref
   | _ \<Rightarrow> Inr ((), s\<lparr>f_count_lock := LockFree\<rparr>))"

definition prv_get_lock :: "'f os_ops \<Rightarrow> ('f hk_state, unit) prog" where
  "prv_get_lock os =
     bnd (gets f_count_lock) (\<lambda>l.
     andthen (if l = LockNull then
         bnd (sys (xSemaphoreCreateMutex os)) (\<lambda>made.
         if made then modify (\<lambda>s. s\<lparr>f_count_lock := LockFree\<rparr>) else ret ())
       else ret ())
     xSemaphoreTake)"

definition prv_give_lock :: "('f hk_state, unit) prog" where
  "prv_give_lock = xSemaphoreGive"

subsection \<open>Collecting a sample\<close>

text \<open>
  One operation per device, \<open>None\<close> where the build stubs the device. An operation gets the
  present bytes of the member, since it may leave some of them as they are.
\<close>

type_synonym 'f get_hk = "bytes \<Rightarrow> 'f \<Rightarrow> bytes \<times> 'f"

record 'f hk_devices =
  HAL_ADCS_getHK :: "'f get_hk option"
  Athena_getHK :: "'f get_hk option"
  EPS_getHK :: "(bytes \<times> bytes \<Rightarrow> 'f \<Rightarrow> (bytes \<times> bytes) \<times> 'f) option"
  uhf_is_busy :: "'f \<Rightarrow> bool \<times> 'f"
  UHF_getHK :: "'f get_hk option"
  HAL_S_getHK :: "'f get_hk option"
  Hyperion_config1_getHK :: "'f get_hk option"
  Hyperion_config3_getHK :: "'f get_hk option"
  Charon_getHK :: "'f get_hk option"
  HAL_DFGM_get_HK :: "'f get_hk option"

definition opt_hk :: "'f get_hk option \<Rightarrow> bytes \<Rightarrow> ('f hk_state, bytes) prog" where
  "opt_hk d bs = (case d of None \<Rightarrow> ret bs | Some g \<Rightarrow> sys (g bs))"

definition collect_hk_from_devices ::
  "'f hk_devices \<Rightarrow> All_systems_housekeeping \<Rightarrow> ('f hk_state, Result \<times> All_systems_housekeeping) prog" where
  "collect_hk_from_devices D hk =
     bnd (opt_hk (HAL_ADCS_getHK D) (adcs_hk hk)) (\<lambda>adcs.
     bnd (opt_hk (Athena_getHK D) (Athena_hk hk)) (\<lambda>athena.
     bnd (case EPS_getHK D of None \<Rightarrow> ret (EPS_hk hk, EPS_startup_hk hk)
          | Some g \<Rightarrow> sys (g (EPS_hk hk, EPS_startup_hk hk))) (\<lambda>eps.
     bnd (case UHF_getHK D of None \<Rightarrow> ret (UHF_hk hk)
          | Some g \<Rightarrow> bnd (sys (uhf_is_busy D)) (\<lambda>busy. if \<not> busy then sys (g (UHF_hk hk)) else ret (UHF_hk hk))) (\<lambda>uhf.
     bnd (opt_hk (HAL_S_getHK D) (S_band_hk hk)) (\<lambda>sband.
     bnd (opt_hk (Hyperion_config1_getHK D) (hyperion_hk hk)) (\<lambda>hyp1.
     bnd (opt_hk (Hyperion_config3_getHK D) hyp1) (\<lambda>hyp.
     bnd (opt_hk (Charon_getHK D) (charon_hk hk)) (\<lambda>charon.
     bnd (opt_hk (HAL_DFGM_get_HK D) (DFGM_hk hk)) (\<lambda>dfgm.
     ret (SUCCESS, hk\<lparr>adcs_hk := adcs, Athena_hk := athena, EPS_hk := fst eps, EPS_startup_hk := snd eps,
       UHF_hk := uhf, S_band_hk := sband, hyperion_hk := hyp, charon_hk := charon, DFGM_hk := dfgm\<rparr>))))))))))"

text \<open>
  \<^verbatim>\<open>temp_hk_data\<close> is an automatic variable: \<open>junk\<close> is its indeterminate value. The body from
  \<^verbatim>\<open>config_loaded = 1\<close> to the return, entered with the lock, is \<^verbatim>\<open>store_sample\<close>.
\<close>

definition store_sample ::
  "'f red_ops \<Rightarrow> 'f os_ops \<Rightarrow> endianness \<Rightarrow> All_systems_housekeeping \<Rightarrow> ('f hk_state, Result) prog" where
  "store_sample ops os e hk0 =
     andthen (modify (\<lambda>s. s\<lparr>config_loaded := 1\<rparr>))
    (bnd (gets current_file) (\<lambda>cur.
     let hk = hk0\<lparr>hk_timeorder := (hk_timeorder hk0)\<lparr>dataPosition := cur\<rparr>\<rparr> in
     bnd (write_hk_to_file ops e cur hk) (\<lambda>r.
     if r \<noteq> SUCCESS then andthen prv_give_lock (ret FAILURE)
     else
       bnd (gets MAX_FILES) (\<lambda>mx.
       bnd (dynamic_timestamp_array_handler os mx) (\<lambda>h.
       andthen (if h = SUCCESS then ts_write (ucast cur) (UNIXtimestamp (hk_timeorder hk)) else ret ())
      (bnd (store_config ops e 0) (\<lambda>_.
       andthen next_file
      (andthen prv_give_lock (ret SUCCESS)))))))))"

definition populate_and_store_hk_data ::
  "'f red_ops \<Rightarrow> 'f os_ops \<Rightarrow> endianness \<Rightarrow> 'f hk_devices \<Rightarrow> All_systems_housekeeping \<Rightarrow>
   ('f hk_state, Result) prog" where
  "populate_and_store_hk_data ops os e D junk =
     bnd (collect_hk_from_devices D junk) (\<lambda>(_, hk0).
     andthen (prv_get_lock os)
    (bnd (gets config_loaded) (\<lambda>cl.
     andthen (if cl = 0 then bnd (load_config ops os e) (\<lambda>_. ret ()) else ret ())
             (store_sample ops os e hk0))))"

subsection \<open>Changing the number of files\<close>

definition set_max_files :: "'f red_ops \<Rightarrow> 'f os_ops \<Rightarrow> endianness \<Rightarrow> u16 \<Rightarrow> ('f hk_state, Result) prog" where
  "set_max_files ops os e new_max =
     (if new_max < 1 \<or> new_max > 20160 then ret FAILURE
      else
        andthen (prv_get_lock os)
       (bnd (gets MAX_FILES) (\<lambda>old_max.
        andthen (modify (\<lambda>s. s\<lparr>MAX_FILES := new_max\<rparr>))
       (if old_max < new_max then
          bnd (dynamic_timestamp_array_handler os new_max) (\<lambda>_.
          andthen prv_give_lock (ret SUCCESS))
        else
          andthen (modify (\<lambda>s. s\<lparr>current_file := 1\<rparr>))
         (bnd (exists_file ops fileName) (\<lambda>found.
          andthen (if found = FILE_EXISTS then sysu (red_unlink ops fileName) else ret ())
         (bnd (dynamic_timestamp_array_handler os 0) (\<lambda>_.
          bnd (store_config ops e 1) (\<lambda>_.
          andthen prv_give_lock (ret SUCCESS))))))))))"

subsection \<open>Paging through the history\<close>

record hk_converters =
  Athena_hk_convert_endianness :: "bytes \<Rightarrow> bytes"
  prv_instantaneous_telemetry_letoh :: "bytes \<Rightarrow> bytes"
  UHF_convert_endianness :: "bytes \<Rightarrow> bytes"
  HAL_S_hk_convert_endianness :: "bytes \<Rightarrow> bytes"

definition convert_hk_endianness ::
  "csp_endian \<Rightarrow> hk_converters \<Rightarrow> All_systems_housekeeping \<Rightarrow> Result \<times> All_systems_housekeeping" where
  "convert_hk_endianness ce cv hk = (SUCCESS, hk\<lparr>
     hk_timeorder := (hk_timeorder hk)\<lparr>UNIXtimestamp := csp_hton32 ce (UNIXtimestamp (hk_timeorder hk)),
       dataPosition := csp_hton16 ce (dataPosition (hk_timeorder hk))\<rparr>,
     Athena_hk := Athena_hk_convert_endianness cv (Athena_hk hk),
     EPS_hk := prv_instantaneous_telemetry_letoh cv (EPS_hk hk),
     UHF_hk := UHF_convert_endianness cv (UHF_hk hk),
     S_band_hk := HAL_S_hk_convert_endianness cv (S_band_hk hk)\<rparr>)"

text \<open>Operations on the environment, as operations on the state and on the pool.\<close>

definition on_dev :: "('f \<Rightarrow> 'a \<times> 'f) \<Rightarrow> 'f hk_state \<Rightarrow> 'a \<times> 'f hk_state" where
  "on_dev f s = (fst (f (dev s)), s\<lparr>dev := snd (f (dev s))\<rparr>)"

definition hk_csp :: "'f csp_ops \<Rightarrow> 'f hk_state csp_ops" where
  "hk_csp ops = \<lparr>op_send = (\<lambda>p. on_dev (op_send ops p)),
     op_buffer_get = (\<lambda>n. on_dev (op_buffer_get ops n)),
     op_buffer_clone = (\<lambda>p. on_dev (op_buffer_clone ops p))\<rparr>"

text \<open>The members that are sent, in the order of the \<^verbatim>\<open>memcpy\<close> calls.\<close>

definition hk_sent :: "endianness \<Rightarrow> All_systems_housekeeping \<Rightarrow> bytes list" where
  "hk_sent e hk = [timeorder_bytes e (hk_timeorder hk), adcs_hk hk, Athena_hk hk, EPS_hk hk, UHF_hk hk,
     S_band_hk hk, hyperion_hk hk, charon_hk hk]"

primrec copy_fields :: "u16 \<Rightarrow> bytes list \<Rightarrow> ('w hst, u16) prog" where
  "copy_fields used_size [] = ret used_size"
| "copy_fields used_size (bs # bss) =
     andthen (pkt_write (OUT_DATA_BYTE + unat used_size) bs)
             (copy_fields (used_size + of_nat (length bs)) bss)"

definition fill_packet :: "endianness \<Rightarrow> All_systems_housekeeping \<Rightarrow> ('w hst, unit) prog" where
  "fill_packet e hk =
     andthen (pkt_write SUBSERVICE_BYTE [0])
    (andthen (pkt_write STATUS_BYTE [0])
    (bnd (copy_fields 0 (hk_sent e hk)) (\<lambda>used_size.
     set_packet_length (unat used_size + 2))))"

record 'f hk_env =
  hk_fs :: "'f red_ops"
  hk_os :: "'f os_ops"
  hk_net :: "'f csp_ops"
  hk_ce :: csp_endian
  hk_cv :: hk_converters

text \<open>The loop of \<^verbatim>\<open>fetch_historic_hk_and_transmit\<close>; the first argument is \<^verbatim>\<open>limit\<close>.\<close>

primrec fetch_loop ::
  "'f hk_env \<Rightarrow> nat \<Rightarrow> u16 \<Rightarrow> u16 \<Rightarrow> All_systems_housekeeping \<Rightarrow> ('f hk_state pool, Result) prog" where
  "fetch_loop E 0 locked_before_id locked_max hk = ret SUCCESS"
| "fetch_loop E (Suc n) locked_before_id locked_max hk =
     (let e = host (hk_ce E);
          id = (if locked_before_id - 1 = 0 then locked_max else locked_before_id - 1) in
      bnd (on_world (load_historic_hk_data (hk_fs E) e id hk)) (\<lambda>(r, hk1).
      if r \<noteq> SUCCESS then ret FAILURE
      else
        (let (c, hk2) = convert_hk_endianness (hk_ce E) (hk_cv E) hk1 in
         if c \<noteq> SUCCESS then ret FAILURE
         else
           (let hk3 = (if 1 < Suc n then hk2\<lparr>hk_timeorder := (hk_timeorder hk2)\<lparr>final := 1\<rparr>\<rparr> else hk2);
                needed_size = get_size_of_housekeeping hk3 + 2 in
            bnd (csp_buffer_get (hk_csp (hk_net E)) (unat needed_size)) (\<lambda>b.
            case b of
              None \<Rightarrow> fault NullDeref
            | Some h \<Rightarrow>
                andthen (on_packet h (fill_packet e hk3))
               (bnd (csp_send (hk_csp (hk_net E)) h) (\<lambda>ok.
                if \<not> ok then andthen (csp_buffer_free h) (ret FAILURE)
                else fetch_loop E n id locked_max hk3)))))))"

definition zero_hk :: "All_systems_housekeeping \<Rightarrow> All_systems_housekeeping" where
  "zero_hk hk = (let z = (\<lambda>bs. replicate (length bs) 0) in
     \<lparr>hk_timeorder = \<lparr>final = 0, UNIXtimestamp = 0, dataPosition = 0\<rparr>,
      adcs_hk = z (adcs_hk hk), Athena_hk = z (Athena_hk hk), EPS_hk = z (EPS_hk hk),
      EPS_startup_hk = z (EPS_startup_hk hk), UHF_hk = z (UHF_hk hk), S_band_hk = z (S_band_hk hk),
      hyperion_hk = z (hyperion_hk hk), charon_hk = z (charon_hk hk), DFGM_hk = z (DFGM_hk hk)\<rparr>)"

text \<open>\<open>shape\<close> fixes the sizes of the members of \<^verbatim>\<open>All_systems_housekeeping\<close>.\<close>

definition fetch_historic_hk_and_transmit ::
  "'f hk_env \<Rightarrow> All_systems_housekeeping \<Rightarrow> u16 \<Rightarrow> u16 \<Rightarrow> u32 \<Rightarrow> ('f hk_state pool, Result) prog" where
  "fetch_historic_hk_and_transmit E shape limit before_id before_time =
     andthen (on_world (prv_get_lock (hk_os E)))
    (bnd (on_world (gets MAX_FILES)) (\<lambda>locked_max.
     bnd (if before_time \<noteq> 0 then on_world (get_file_id_from_timestamp before_time) else ret before_id) (\<lambda>id0.
     andthen (on_world prv_give_lock)
    (bnd (on_world (gets current_file)) (\<lambda>cur.
     let locked_before_id = (if id0 = 0 \<or> id0 > locked_max then cur else id0);
         n = (if limit > locked_max then locked_max else limit) in
     if n = 0 then ret SUCCESS
     else fetch_loop E (unat n) locked_before_id locked_max (zero_hk shape))))))"

subsection \<open>The request handler\<close>

definition GET_HK :: byte where [const_simps]: "GET_HK = 0"
definition SET_MAX_FILES :: byte where [const_simps]: "SET_MAX_FILES = 1"
definition GET_MAX_FILES :: byte where [const_simps]: "GET_MAX_FILES = 2"

definition hk_service_app ::
  "'f hk_env \<Rightarrow> All_systems_housekeeping \<Rightarrow> nat \<Rightarrow> ('f hk_state pool, SAT_returnState) prog" where
  "hk_service_app E shape h =
     (let e = host (hk_ce E); net = hk_csp (hk_net E) in
     bnd (on_packet h (pkt_byte SUBSERVICE_BYTE)) (\<lambda>ser_subtype.
     if ser_subtype = SET_MAX_FILES then
       bnd (on_packet h (pkt_read IN_DATA_BYTE 2)) (\<lambda>bs.
       bnd (on_world (set_max_files (hk_fs E) (hk_os E) e (csp_ntoh16 (hk_ce E) (cnv8_16 e bs)))) (\<lambda>r.
       andthen (on_packet h (reply_status (if r \<noteq> SUCCESS then -1 else 0)))
      (andthen (send_or_release net h)
               (ret SATR_OK))))
     else if ser_subtype = GET_MAX_FILES then
       bnd (on_world (gets MAX_FILES)) (\<lambda>mx.
       andthen (on_packet h (reply_data 0 (to_bytes e 2 (csp_hton16 (hk_ce E) mx))))
      (andthen (send_or_release net h)
               (ret SATR_OK)))
     else if ser_subtype = GET_HK then
       bnd (on_packet h (pkt_read IN_DATA_BYTE 8)) (\<lambda>bs.
       andthen (csp_buffer_free h)
      (bnd (fetch_historic_hk_and_transmit E shape (of_bytes e (take 2 bs)) (of_bytes e (take 2 (drop 2 bs)))
              (of_bytes e (take 4 (drop 4 bs)))) (\<lambda>r.
       ret (if r \<noteq> SUCCESS then SATR_ERROR else SATR_OK))))
     else ret SATR_PKT_ILLEGAL_SUBSERVICE))"

definition hk_kicks :: kicks where
  "hk_kicks = \<lparr>k_init = 1, k_iter = 0, k_timeout = 0, k_accept = 1\<rparr>"

definition housekeeping_service ::
  "'f hk_env \<Rightarrow> All_systems_housekeeping \<Rightarrow> accept list \<Rightarrow> ('f hk_state pool, unit) prog" where
  "housekeeping_service E shape = service_task hk_kicks (log_step (hk_service_app E shape))"

text \<open>\<^verbatim>\<open>num_digits\<close> with its 16-bit count.\<close>

function num_digits :: "int \<Rightarrow> u16" where
  "num_digits num = (if num = 0 then 0 else num_digits (sgn num * (\<bar>num\<bar> div 10)) + 1)"
  by pat_completeness auto
termination
  by (relation "measure (\<lambda>n. nat \<bar>n\<bar>)") (auto simp: abs_mult abs_sgn_eq)

declare num_digits.simps [simp del]

end
