(* ===== verification/Hk_Sampling.thy ===== *)
theory Hk_Sampling
  imports Hk_Service
begin

text \<open>
  One call of \<^verbatim>\<open>populate_and_store_hk_data\<close> over a reliable file system: it returns
  \<^verbatim>\<open>SUCCESS\<close>, releases the lock, keeps the invariant \<^verbatim>\<open>hk_ready\<close> of the service, and
  leaves exactly one record, one index item and the configuration changed. Then what a run of
  samples leaves, a restart, and the change of the number of files.
\<close>

subsection \<open>What the environment owes the service\<close>

definition os_ok :: "'f os_ops \<Rightarrow> ('f \<Rightarrow> fs_view) \<Rightarrow> bool" where
  "os_ok os view \<longleftrightarrow> malloc_ok os view \<and>
     (\<forall>f. fst (xSemaphoreCreateMutex os f) \<and> view (snd (xSemaphoreCreateMutex os f)) = view f)"

definition get_hk_ok :: "('f \<Rightarrow> fs_view) \<Rightarrow> 'f get_hk option \<Rightarrow> bool" where
  "get_hk_ok view d \<longleftrightarrow> (case d of None \<Rightarrow> True | Some g \<Rightarrow>
     (\<forall>bs f. length (fst (g bs f)) = length bs \<and> view (snd (g bs f)) = view f))"

definition devices_ok :: "('f \<Rightarrow> fs_view) \<Rightarrow> 'f hk_devices \<Rightarrow> bool" where
  "devices_ok view D \<longleftrightarrow>
     (\<forall>d\<in>{HAL_ADCS_getHK D, Athena_getHK D, UHF_getHK D, HAL_S_getHK D, Hyperion_config1_getHK D,
        Hyperion_config3_getHK D, Charon_getHK D, HAL_DFGM_get_HK D}. get_hk_ok view d) \<and>
     (case EPS_getHK D of None \<Rightarrow> True | Some g \<Rightarrow> (\<forall>p f. length (fst (fst (g p f))) = length (fst p) \<and>
        length (snd (fst (g p f))) = length (snd p) \<and> view (snd (g p f)) = view f)) \<and>
     (\<forall>f. view (snd (uhf_is_busy D f)) = view f)"

lemma prv_get_lock_run:
  assumes "os_ok os view" and "f_count_lock s \<noteq> LockHeld"
  shows "\<exists>d. prv_get_lock os s = Inr ((), s\<lparr>f_count_lock := LockHeld, dev := d\<rparr>) \<and> view d = view (dev s)"
proof (cases "f_count_lock s")
  case LockNull
  with assms(1) show ?thesis
    by (intro exI [of _ "snd (xSemaphoreCreateMutex os (dev s))"])
      (simp add: prv_get_lock_def prog_simps xSemaphoreTake_def os_ok_def)
next
  case LockFree
  then show ?thesis
    by (intro exI [of _ "dev s"]) (simp add: prv_get_lock_def prog_simps xSemaphoreTake_def)
qed (use assms in simp)

lemma prv_give_lock_run:
  "f_count_lock s \<noteq> LockNull \<Longrightarrow> prv_give_lock s = Inr ((), s\<lparr>f_count_lock := LockFree\<rparr>)"
  by (cases "f_count_lock s") (simp_all add: prv_give_lock_def xSemaphoreGive_def)

text \<open>The lock blocks a task that already has it, and only such a task.\<close>

lemma prv_get_lock_held: "f_count_lock s = LockHeld \<Longrightarrow> prv_get_lock os s = Inl Deadlock"
  by (simp add: prv_get_lock_def prog_simps xSemaphoreTake_def)

lemma opt_hk_run:
  "get_hk_ok view d \<Longrightarrow>
   \<exists>bs' f. opt_hk d bs s = Inr (bs', s\<lparr>dev := f\<rparr>) \<and> length bs' = length bs \<and> view f = view (dev s)"
  by (cases d) (auto simp: opt_hk_def get_hk_ok_def prog_simps intro: exI [of _ "dev s"])

lemma collect_run:
  assumes D: "devices_ok view D" and sz: "sized ls hk"
  shows "\<exists>hk' d. collect_hk_from_devices D hk s = Inr ((SUCCESS, hk'), s\<lparr>dev := d\<rparr>) \<and>
    sized ls hk' \<and> hk_timeorder hk' = hk_timeorder hk \<and> view d = view (dev s)"
proof -
  note ok = D [unfolded devices_ok_def]
  from opt_hk_run [of view "HAL_ADCS_getHK D" "adcs_hk hk" s] ok obtain b1 d1 where
    1: "opt_hk (HAL_ADCS_getHK D) (adcs_hk hk) s = Inr (b1, s\<lparr>dev := d1\<rparr>)" "length b1 = length (adcs_hk hk)"
      "view d1 = view (dev s)" by auto
  from opt_hk_run [of view "Athena_getHK D" "Athena_hk hk" "s\<lparr>dev := d1\<rparr>"] ok obtain b2 d2 where
    2: "opt_hk (Athena_getHK D) (Athena_hk hk) (s\<lparr>dev := d1\<rparr>) = Inr (b2, s\<lparr>dev := d2\<rparr>)"
      "length b2 = length (Athena_hk hk)" "view d2 = view d1" by auto
  obtain p d3 where
    3: "(case EPS_getHK D of None \<Rightarrow> ret (EPS_hk hk, EPS_startup_hk hk)
          | Some g \<Rightarrow> sys (g (EPS_hk hk, EPS_startup_hk hk))) (s\<lparr>dev := d2\<rparr>) = Inr (p, s\<lparr>dev := d3\<rparr>)"
      "length (fst p) = length (EPS_hk hk)" "view d3 = view d2"
    using ok by (cases "EPS_getHK D") (auto simp: prog_simps)
  obtain b4 d4 where
    4: "(case UHF_getHK D of None \<Rightarrow> ret (UHF_hk hk)
          | Some g \<Rightarrow> bnd (sys (uhf_is_busy D)) (\<lambda>busy. if \<not> busy then sys (g (UHF_hk hk)) else ret (UHF_hk hk)))
        (s\<lparr>dev := d3\<rparr>) = Inr (b4, s\<lparr>dev := d4\<rparr>)"
      "length b4 = length (UHF_hk hk)" "view d4 = view d3"
    using ok by (cases "UHF_getHK D"; cases "fst (uhf_is_busy D d3)") (auto simp: prog_simps get_hk_ok_def)
  from opt_hk_run [of view "HAL_S_getHK D" "S_band_hk hk" "s\<lparr>dev := d4\<rparr>"] ok obtain b5 d5 where
    5: "opt_hk (HAL_S_getHK D) (S_band_hk hk) (s\<lparr>dev := d4\<rparr>) = Inr (b5, s\<lparr>dev := d5\<rparr>)"
      "length b5 = length (S_band_hk hk)" "view d5 = view d4" by auto
  from opt_hk_run [of view "Hyperion_config1_getHK D" "hyperion_hk hk" "s\<lparr>dev := d5\<rparr>"] ok obtain b6 d6 where
    6: "opt_hk (Hyperion_config1_getHK D) (hyperion_hk hk) (s\<lparr>dev := d5\<rparr>) = Inr (b6, s\<lparr>dev := d6\<rparr>)"
      "length b6 = length (hyperion_hk hk)" "view d6 = view d5" by auto
  from opt_hk_run [of view "Hyperion_config3_getHK D" b6 "s\<lparr>dev := d6\<rparr>"] ok obtain b7 d7 where
    7: "opt_hk (Hyperion_config3_getHK D) b6 (s\<lparr>dev := d6\<rparr>) = Inr (b7, s\<lparr>dev := d7\<rparr>)"
      "length b7 = length b6" "view d7 = view d6" by auto
  from opt_hk_run [of view "Charon_getHK D" "charon_hk hk" "s\<lparr>dev := d7\<rparr>"] ok obtain b8 d8 where
    8: "opt_hk (Charon_getHK D) (charon_hk hk) (s\<lparr>dev := d7\<rparr>) = Inr (b8, s\<lparr>dev := d8\<rparr>)"
      "length b8 = length (charon_hk hk)" "view d8 = view d7" by auto
  from opt_hk_run [of view "HAL_DFGM_get_HK D" "DFGM_hk hk" "s\<lparr>dev := d8\<rparr>"] ok obtain b9 d9 where
    9: "opt_hk (HAL_DFGM_get_HK D) (DFGM_hk hk) (s\<lparr>dev := d8\<rparr>) = Inr (b9, s\<lparr>dev := d9\<rparr>)"
      "length b9 = length (DFGM_hk hk)" "view d9 = view d8" by auto
  let ?hk = "hk\<lparr>adcs_hk := b1, Athena_hk := b2, EPS_hk := fst p, EPS_startup_hk := snd p,
    UHF_hk := b4, S_band_hk := b5, hyperion_hk := b7, charon_hk := b8, DFGM_hk := b9\<rparr>"
  have "collect_hk_from_devices D hk s = Inr ((SUCCESS, ?hk), s\<lparr>dev := d9\<rparr>)"
    by (simp add: collect_hk_from_devices_def bnd_run ret_run 1(1) 2(1) 3(1) 4(1) 5(1) 6(1) 7(1) 8(1) 9(1))
  moreover have "sized ls ?hk"
    using sz 1(2) 2(2) 3(2) 4(2) 5(2) 6(2) 7(2) 8(2) 9(2) by (simp add: sized_def hk_fields_def)
  moreover have "view d9 = view (dev s)"
    using 1(3) 2(3) 3(3) 4(3) 5(3) 6(3) 7(3) 8(3) 9(3) by simp
  ultimately show ?thesis by (intro exI [of _ ?hk] exI [of _ d9]) simp
qed

subsection \<open>One sample\<close>

text \<open>
  The index is in step with its file: no sample was taken and there is no file, or the
  array has its full size and the file holds its items behind some header.
\<close>

definition indexed :: "endianness \<Rightarrow> fs_view \<Rightarrow> 'f hk_state \<Rightarrow> bool" where
  "indexed e v s \<longleftrightarrow> (case timestamps s of
     TsNull \<Rightarrow> hk_timestamp_array_size s = 0 \<and> files v hk_config = None
   | TsFreed \<Rightarrow> False
   | TsBlock xs \<Rightarrow> hk_timestamp_array_size s = MAX_FILES s \<and> length xs = unat (MAX_FILES s) + 1 \<and>
       (\<exists>hdr rest. length hdr = 8 \<and> files v hk_config = Some (hdr @ concat (map (to_bytes e 4) xs) @ rest)))"

text \<open>The array alone, whatever the configuration file holds.\<close>

definition slotted :: "'f hk_state \<Rightarrow> bool" where
  "slotted s \<longleftrightarrow> (case timestamps s of
     TsNull \<Rightarrow> hk_timestamp_array_size s = 0
   | TsFreed \<Rightarrow> False
   | TsBlock xs \<Rightarrow> hk_timestamp_array_size s = MAX_FILES s \<and> length xs = unat (MAX_FILES s) + 1)"

lemma indexed_slotted: "indexed e v s \<Longrightarrow> slotted s"
  by (auto simp: indexed_def slotted_def split: ts_ptr.splits)

definition cursor_ok :: "'f hk_state \<Rightarrow> bool" where
  "cursor_ok s \<longleftrightarrow> 1 \<le> current_file s \<and> current_file s \<le> MAX_FILES s \<and> MAX_FILES s \<le> 20160"

definition advance :: "u16 \<Rightarrow> u16 \<Rightarrow> u16" where
  "advance mx cur = (if cur + 1 > mx then 1 else cur + 1)"

lemma advance_range: "1 \<le> cur \<Longrightarrow> cur \<le> mx \<Longrightarrow> mx \<le> 20160 \<Longrightarrow> 1 \<le> advance mx cur \<and> advance mx cur \<le> mx"
  by (auto simp: advance_def word_le_nat_alt word_less_nat_alt unat_word_ariths)

lemma fileName_not_config [simp]: "fileName \<noteq> hk_config" "hk_config \<noteq> fileName"
  by (simp_all add: fileName_def hk_config_def)

definition stamped :: "'f hk_state \<Rightarrow> u32 \<Rightarrow> u32 list" where
  "stamped s t = (case timestamps s of
     TsBlock xs \<Rightarrow> xs[unat (current_file s) := t]
   | _ \<Rightarrow> (replicate (unat (MAX_FILES s) + 1) 0)[unat (current_file s) := t])"

text \<open>None of these looks at the environment, the lock or the flag.\<close>

lemma index_upd [simp]:
  "slotted (s\<lparr>dev := d\<rparr>) = slotted s" "slotted (s\<lparr>config_loaded := b\<rparr>) = slotted s"
  "slotted (s\<lparr>f_count_lock := l\<rparr>) = slotted s"
  "cursor_ok (s\<lparr>dev := d\<rparr>) = cursor_ok s" "cursor_ok (s\<lparr>config_loaded := b\<rparr>) = cursor_ok s"
  "cursor_ok (s\<lparr>f_count_lock := l\<rparr>) = cursor_ok s"
  "stamped (s\<lparr>dev := d\<rparr>) t = stamped s t" "stamped (s\<lparr>config_loaded := b\<rparr>) t = stamped s t"
  "stamped (s\<lparr>f_count_lock := l\<rparr>) t = stamped s t"
  by (auto simp: slotted_def cursor_ok_def stamped_def split: ts_ptr.splits)

lemma confined_files: "confined nm v v' \<Longrightarrow> x \<noteq> nm \<Longrightarrow> files v' x = files v x"
  by (simp add: confined_def)

text \<open>Reserving the array, for the time \<open>t\<close>, and storing the item that was stamped.\<close>

lemma handler_slotted:
  assumes M: "malloc_ok os view" and ix: "slotted s" and cur: "cursor_ok s"
  shows "\<exists>zs d. dynamic_timestamp_array_handler os (MAX_FILES s) s = Inr (SUCCESS, s\<lparr>timestamps := TsBlock zs,
      hk_timestamp_array_size := MAX_FILES s, dev := d\<rparr>) \<and> length zs = unat (MAX_FILES s) + 1 \<and>
    view d = view (dev s) \<and> tl (zs[unat (current_file s) := t]) = tl (stamped s t) \<and>
    (\<forall>xs. timestamps s = TsBlock xs \<longrightarrow> zs = xs)"
proof (cases "timestamps s")
  let ?cur = "current_file s" and ?mx = "MAX_FILES s"
  have c0: "?cur \<noteq> 0" "?mx \<noteq> 0" "unat ?cur \<le> unat ?mx" "unat ?mx < 65535"
    using cur by (auto simp: cursor_ok_def word_le_nat_alt)
  case TsNull
  obtain g d where m: "pvPortMalloc os (4 * (unat ?mx + 1)) (dev s) = (Some g, d)"
    using M by (metis malloc_ok_def not_None_eq prod.collapse)
  then have v: "view d = view (dev s)" using M by (metis malloc_ok_def snd_conv)
  have "ts_inv s" "?mx \<noteq> hk_timestamp_array_size s" "unat (hk_timestamp_array_size s) < 65535"
    using TsNull ix c0 by (auto simp: ts_inv_def slotted_def)
  from dynamic_timestamp_array_handler_run [OF this(1) c0(2) this(2) c0(4) this(3) m]
  have h: "dynamic_timestamp_array_handler os ?mx s = Inr (SUCCESS, s\<lparr>timestamps :=
      TsBlock (resized [] 0 (unat ?mx) g), hk_timestamp_array_size := ?mx, dev := d\<rparr>)"
    using TsNull ix by (simp add: items_def slotted_def)
  have "tl ((resized [] 0 (unat ?mx) g)[unat ?cur := t]) = tl (stamped s t)"
    using TsNull c0 by (intro nth_equalityI)
      (auto simp: stamped_def nth_tl nth_resized nth_list_update simp del: replicate_Suc upt_Suc)
  with h v TsNull show ?thesis
    by (intro exI [of _ "resized [] 0 (unat ?mx) g"] exI [of _ d]) simp
next
  case TsFreed
  with ix show ?thesis by (simp add: slotted_def)
next
  case (TsBlock xs)
  moreover have "MAX_FILES s \<noteq> 0" using cur by (auto simp: cursor_ok_def)
  ultimately show ?thesis using ix
    by (intro exI [of _ xs] exI [of _ "dev s"]) (simp add: handler_same slotted_def stamped_def)
qed

lemma store_config_sampled:
  assumes R: "red_reliable ops view" and ok: "fs_ok (view (dev s))"
    and zs: "timestamps s = TsBlock (zs[unat (current_file s) := t])" "unat (current_file s) < length zs"
      "length zs = unat (hk_timestamp_array_size s) + 1"
    and rw: "rw \<noteq> 1"
  shows "\<exists>d. store_config ops e rw s = Inr (SUCCESS, s\<lparr>dev := d\<rparr>) \<and> headed e (view d) s \<and>
    confined hk_config (view (dev s)) (view d) \<and>
    (files (view (dev s)) hk_config = None \<or> (\<exists>hdr rest. length hdr = 8 \<and>
       files (view (dev s)) hk_config = Some (hdr @ concat (map (to_bytes e 4) zs) @ rest)) \<longrightarrow> synced e (view d) s)"
proof (cases "files (view (dev s)) hk_config")
  case None
  from store_config_full [OF R ok zs(1), of rw e] None zs(3) show ?thesis
    by (auto intro: synced_headed)
next
  case (Some c)
  show ?thesis
  proof (cases "\<exists>hdr rest. length hdr = 8 \<and> c = hdr @ concat (map (to_bytes e 4) zs) @ rest")
    case False
    from store_config_slot [OF R ok zs(1) _ Some rw, of e] zs(2) Some False show ?thesis
      by (auto simp: headed_def)
  next
    case True
    then obtain hdr rest where h: "length hdr = 8" "c = hdr @ concat (map (to_bytes e 4) zs) @ rest" by blast
    from store_config_item [OF R ok zs(1,2) _ h(1) rw, of e rest] Some h(2) obtain d where
      d: "store_config ops e rw s = Inr (SUCCESS, s\<lparr>dev := d\<rparr>)"
        "files (view d) hk_config = Some (config_image e s @ rest)" "confined hk_config (view (dev s)) (view d)" by auto
    from d(2) have "synced e (view d) s" by (auto simp: synced_def)
    with d synced_headed [OF this] show ?thesis by blast
  qed
qed

lemma store_sample_run:
  assumes R: "red_reliable ops view" and M: "malloc_ok os view" and ok: "fs_ok (view (dev s))"
    and sz: "sized ls hk" "sizes_ok ls" and cur: "cursor_ok s" and ix: "slotted s"
    and lk: "f_count_lock s = LockHeld"
  shows "\<exists>ys d. store_sample ops os e hk s = Inr (SUCCESS, s\<lparr>config_loaded := 1, timestamps := TsBlock ys,
      hk_timestamp_array_size := MAX_FILES s, current_file := advance (MAX_FILES s) (current_file s),
      f_count_lock := LockFree, dev := d\<rparr>) \<and>
    length ys = unat (MAX_FILES s) + 1 \<and> tl ys = tl (stamped s (UNIXtimestamp (hk_timeorder hk))) \<and>
    headed e (view d) (s\<lparr>timestamps := TsBlock ys\<rparr>) \<and> fs_ok (view d) \<and>
    (indexed e (view (dev s)) s \<longrightarrow> synced e (view d) (s\<lparr>timestamps := TsBlock ys\<rparr>)) \<and>
    files (view d) fileName = Some (put (offset_of ls (current_file s))
      (concat (hk_fields e (hk\<lparr>hk_timeorder := (hk_timeorder hk)\<lparr>dataPosition := current_file s\<rparr>\<rparr>)))
      (contents (view (dev s)) fileName))"
proof -
  let ?cur = "current_file s" and ?mx = "MAX_FILES s" and ?t = "UNIXtimestamp (hk_timeorder hk)"
  let ?hk = "hk\<lparr>hk_timeorder := (hk_timeorder hk)\<lparr>dataPosition := ?cur\<rparr>\<rparr>"
  let ?s1 = "s\<lparr>config_loaded := 1\<rparr>"
  have c0: "?cur \<noteq> 0" "unat ?cur \<le> unat ?mx"
    using cur by (auto simp: cursor_ok_def word_le_nat_alt)
  have sz': "sized ls ?hk" using sz(1) by (simp add: sized_def hk_fields_def)
  from write_hk_reliable [OF R sz' sz(2) c0(1), of e ?s1] obtain d1 where
    w: "write_hk_to_file ops e ?cur ?hk ?s1 = Inr (SUCCESS, ?s1\<lparr>dev := d1\<rparr>)"
      "confined fileName (view (dev s)) (view d1)"
      "files (view d1) fileName = Some (put (offset_of ls ?cur) (concat (hk_fields e ?hk))
         (contents (view (dev s)) fileName))" by auto
  let ?s2 = "?s1\<lparr>dev := d1\<rparr>"
  have "slotted ?s2" "cursor_ok ?s2" using ix cur by simp_all
  from handler_slotted [OF M this, of ?t] obtain zs d2 where
    h: "dynamic_timestamp_array_handler os ?mx ?s2 =
        Inr (SUCCESS, ?s2\<lparr>timestamps := TsBlock zs, hk_timestamp_array_size := ?mx, dev := d2\<rparr>)"
    "length zs = unat ?mx + 1" "view d2 = view d1" "tl (zs[unat ?cur := ?t]) = tl (stamped s ?t)"
    "\<forall>xs. timestamps s = TsBlock xs \<longrightarrow> zs = xs"
    by auto
  let ?ys = "zs[unat ?cur := ?t]"
  let ?s3 = "?s2\<lparr>timestamps := TsBlock ?ys, hk_timestamp_array_size := ?mx, dev := d2\<rparr>"
  have lc: "unat ?cur < length zs" using h(2) c0(2) by simp
  have ok3: "fs_ok (view (dev ?s3))" using confined_ok [OF w(2)] ok h(3) by simp
  have cfg: "files (view (dev ?s3)) hk_config = files (view (dev s)) hk_config"
    using confined_files [OF w(2)] h(3) by simp
  have pre: "timestamps ?s3 = TsBlock (zs[unat (current_file ?s3) := ?t])" "unat (current_file ?s3) < length zs"
    "length zs = unat (hk_timestamp_array_size ?s3) + 1" "(0 :: byte) \<noteq> 1"
    using lc h(2) by simp_all
  from store_config_sampled [OF R ok3 pre, of e] obtain d where
    st: "store_config ops e 0 ?s3 = Inr (SUCCESS, ?s3\<lparr>dev := d\<rparr>)" "headed e (view d) ?s3"
      "confined hk_config (view (dev ?s3)) (view d)"
      "files (view (dev ?s3)) hk_config = None \<or> (\<exists>hdr rest. length hdr = 8 \<and>
         files (view (dev ?s3)) hk_config = Some (hdr @ concat (map (to_bytes e 4) zs) @ rest)) \<longrightarrow> synced e (view d) ?s3"
    by blast
  have tw: "ts_write (ucast ?cur) ?t (?s2\<lparr>timestamps := TsBlock zs, hk_timestamp_array_size := ?mx, dev := d2\<rparr>) =
      Inr ((), ?s3)"
    using lc by (simp add: ts_write_def)
  have "store_sample ops os e hk s = Inr (SUCCESS, s\<lparr>config_loaded := 1, timestamps := TsBlock ?ys,
      hk_timestamp_array_size := ?mx, current_file := advance ?mx ?cur, f_count_lock := LockFree, dev := d\<rparr>)"
    using w(1) h(1) tw st(1) lk
    by (simp add: store_sample_def Let_def prog_simps next_file_run prv_give_lock_run advance_def)
  moreover have "files (view d) fileName = files (view d1) fileName" "fs_ok (view d)"
    using confined_files [OF st(3)] confined_ok [OF st(3)] ok3 h(3) by simp_all
  moreover have "headed e (view d) (s\<lparr>timestamps := TsBlock ?ys\<rparr>)"
    using st(2) by (simp add: headed_def config_header_def)
  moreover have "synced e (view d) (s\<lparr>timestamps := TsBlock ?ys\<rparr>)" if "indexed e (view (dev s)) s"
  proof -
    have "synced e (view d) ?s3"
      using that st(4) cfg h(5) by (auto simp: indexed_def split: ts_ptr.splits)
    then show ?thesis by (simp add: synced_def config_image_def config_header_def)
  qed
  ultimately show ?thesis
    using h(2,4) w(3) by (intro exI [of _ ?ys] exI [of _ d]) simp
qed

definition hk_ready :: "endianness \<Rightarrow> ('f \<Rightarrow> fs_view) \<Rightarrow> 'f hk_state \<Rightarrow> bool" where
  "hk_ready e view s \<longleftrightarrow> f_count_lock s \<noteq> LockHeld \<and> cursor_ok s \<and> fs_ok (view (dev s)) \<and>
     indexed e (view (dev s)) s \<and> (config_loaded s \<noteq> 0 \<or> files (view (dev s)) hk_config = None)"

text \<open>The record that a sample leaves in the data file.\<close>

definition numbered :: "u16 \<Rightarrow> All_systems_housekeeping \<Rightarrow> All_systems_housekeeping" where
  "numbered n hk = hk\<lparr>hk_timeorder := (hk_timeorder hk)\<lparr>dataPosition := n\<rparr>\<rparr>"

definition sampled :: "nat list \<Rightarrow> endianness \<Rightarrow> ('f \<Rightarrow> fs_view) \<Rightarrow> 'f hk_state \<Rightarrow> All_systems_housekeeping \<Rightarrow>
    'f hk_state \<Rightarrow> bool" where
  "sampled ls e view s hk s' \<longleftrightarrow>
     MAX_FILES s' = MAX_FILES s \<and> current_file s' = advance (MAX_FILES s) (current_file s) \<and>
     f_count_lock s' = LockFree \<and> config_loaded s' = 1 \<and>
     tl (items (timestamps s')) = tl (stamped s (UNIXtimestamp (hk_timeorder hk))) \<and>
     synced e (view (dev s')) (s'\<lparr>current_file := current_file s\<rparr>) \<and>
     holds ls (view (dev s')) (current_file s) (hk_fields e (numbered (current_file s) hk)) \<and>
     (\<forall>m bss. m \<noteq> 0 \<longrightarrow> m \<noteq> current_file s \<longrightarrow> holds ls (view (dev s)) m bss \<longrightarrow> holds ls (view (dev s')) m bss)"

lemma synced_cong:
  "synced e v s \<Longrightarrow> MAX_FILES t = MAX_FILES s \<Longrightarrow> current_file t = current_file s \<Longrightarrow>
   tempTime t = tempTime s \<Longrightarrow> timestamps t = timestamps s \<Longrightarrow> synced e v t"
  by (simp add: synced_def config_image_def config_header_def)

lemma store_sample_step:
  assumes R: "red_reliable ops view" and M: "malloc_ok os view" and ok: "fs_ok (view (dev s))"
    and sz: "sized ls hk" "sizes_ok ls" and cur: "cursor_ok s" and ix: "indexed e (view (dev s)) s"
    and lk: "f_count_lock s = LockHeld"
  shows "\<exists>s'. store_sample ops os e hk s = Inr (SUCCESS, s') \<and> hk_ready e view s' \<and> sampled ls e view s hk s'"
proof -
  from store_sample_run [OF R M ok sz cur indexed_slotted [OF ix] lk, of e] ix obtain ys d where
    run: "store_sample ops os e hk s = Inr (SUCCESS, s\<lparr>config_loaded := 1, timestamps := TsBlock ys,
      hk_timestamp_array_size := MAX_FILES s, current_file := advance (MAX_FILES s) (current_file s),
      f_count_lock := LockFree, dev := d\<rparr>)" (is "_ = Inr (SUCCESS, ?s')")
    and ys: "length ys = unat (MAX_FILES s) + 1" "tl ys = tl (stamped s (UNIXtimestamp (hk_timeorder hk)))"
    and sy: "synced e (view d) (s\<lparr>timestamps := TsBlock ys\<rparr>)" and ok': "fs_ok (view d)"
    and hkfile: "files (view d) fileName = Some (put (offset_of ls (current_file s))
      (concat (hk_fields e (numbered (current_file s) hk))) (contents (view (dev s)) fileName))"
    unfolding numbered_def by blast
  have c: "current_file s \<noteq> 0" "1 \<le> current_file s" "current_file s \<le> MAX_FILES s" "MAX_FILES s \<le> 20160"
    using cur by (auto simp: cursor_ok_def)
  have len: "map length (hk_fields e (numbered (current_file s) hk)) = ls"
    using sizedD [OF sz(1), of e] by (simp add: hk_fields_def numbered_def)
  from sy obtain rest where "files (view d) hk_config = Some (config_image e (s\<lparr>timestamps := TsBlock ys\<rparr>) @ rest)"
    by (auto simp: synced_def)
  then have "indexed e (view (dev ?s')) ?s'"
    using ys(1) unfolding indexed_def
    by (simp add: config_image_def items_def)
      (intro exI [of _ "config_header e (s\<lparr>timestamps := TsBlock ys\<rparr>)"] exI [of _ rest], simp)
  moreover have "cursor_ok ?s'" using advance_range [OF c(2-4)] c(4) by (simp add: cursor_ok_def)
  ultimately have "hk_ready e view ?s'" using ok' by (simp add: hk_ready_def)
  moreover have "synced e (view d) (?s'\<lparr>current_file := current_file s\<rparr>)"
    by (rule synced_cong [OF sy]) simp_all
  then have "sampled ls e view s hk ?s'"
    using ys(2) put_holds [OF hkfile len sz(2)] put_holds_other [OF _ hkfile len c(1)]
    by (auto simp: sampled_def items_def)
  ultimately show ?thesis using run by blast
qed

text \<open>
  A sample gathers its record, takes the lock, loads the configuration unless that was done, and
  stores. The time that is stored is the indeterminate one of the automatic variable: no device
  writes it.
\<close>

lemma populate_run:
  assumes os: "os_ok os view" and D: "devices_ok view D" and sz: "sized ls junk"
    and lk: "f_count_lock s \<noteq> LockHeld"
  shows "\<exists>hk d. populate_and_store_hk_data ops os e D junk s =
      andthen (if config_loaded s = 0 then bnd (load_config ops os e) (\<lambda>_. ret ()) else ret ())
        (store_sample ops os e hk) (s\<lparr>f_count_lock := LockHeld, dev := d\<rparr>) \<and>
    sized ls hk \<and> hk_timeorder hk = hk_timeorder junk \<and> view d = view (dev s)"
proof -
  from collect_run [OF D sz] obtain hk d1 where
    c: "collect_hk_from_devices D junk s = Inr ((SUCCESS, hk), s\<lparr>dev := d1\<rparr>)" "sized ls hk"
      "hk_timeorder hk = hk_timeorder junk" "view d1 = view (dev s)" by blast
  have "f_count_lock (s\<lparr>dev := d1\<rparr>) \<noteq> LockHeld" using lk by simp
  from prv_get_lock_run [OF os this] obtain d2 where
    "prv_get_lock os (s\<lparr>dev := d1\<rparr>) = Inr ((), s\<lparr>f_count_lock := LockHeld, dev := d2\<rparr>)"
    "view d2 = view (dev s)" using c(4) by auto
  with c show ?thesis
    by (intro exI [of _ hk] exI [of _ d2]) (simp add: populate_and_store_hk_data_def bnd_run andthen_run gets_run)
qed

lemma load_config_none:
  assumes R: "red_reliable ops view" and ok: "fs_ok (view (dev s))"
    and no: "files (view (dev s)) hk_config = None"
  shows "\<exists>d. load_config ops os e s = Inr (FAILURE, s\<lparr>dev := d\<rparr>) \<and>
    files (view d) = files (view (dev s)) \<and> handles (view d) = handles (view (dev s))"
  using reliable_exists [OF R ok, of hk_config] no by (auto simp: load_config_def prog_simps)

text \<open>A sample taken while the service runs, or as the first one ever.\<close>

lemma populate_step:
  assumes R: "red_reliable ops view" and os: "os_ok os view" and D: "devices_ok view D"
    and sz: "sized ls junk" "sizes_ok ls" and rd: "hk_ready e view s"
  shows "\<exists>hk s'. populate_and_store_hk_data ops os e D junk s = Inr (SUCCESS, s') \<and> sized ls hk \<and>
    hk_timeorder hk = hk_timeorder junk \<and> hk_ready e view s' \<and> sampled ls e view s hk s'"
proof -
  have "f_count_lock s \<noteq> LockHeld" using rd by (simp add: hk_ready_def)
  from populate_run [OF os D sz(1) this, of ops e] obtain hk d2 where
    p: "populate_and_store_hk_data ops os e D junk s =
        andthen (if config_loaded s = 0 then bnd (load_config ops os e) (\<lambda>_. ret ()) else ret ())
          (store_sample ops os e hk) (s\<lparr>f_count_lock := LockHeld, dev := d2\<rparr>)"
      "sized ls hk" "hk_timeorder hk = hk_timeorder junk" "view d2 = view (dev s)" by blast
  have "\<exists>d3. (if config_loaded s = 0 then bnd (load_config ops os e) (\<lambda>_. ret ()) else ret ())
      (s\<lparr>f_count_lock := LockHeld, dev := d2\<rparr>) = Inr ((), s\<lparr>f_count_lock := LockHeld, dev := d3\<rparr>) \<and>
      files (view d3) = files (view (dev s)) \<and> handles (view d3) = handles (view (dev s))"
  proof (cases "config_loaded s = 0")
    case False
    then show ?thesis using p(4) by (intro exI [of _ d2]) (simp add: ret_run)
  next
    case True
    then have "files (view d2) hk_config = None" "fs_ok (view d2)"
      using rd p(4) by (simp_all add: hk_ready_def)
    with load_config_none [OF R, of "s\<lparr>f_count_lock := LockHeld, dev := d2\<rparr>" os e] True p(4) show ?thesis
      by (auto simp: prog_simps)
  qed
  then obtain d3 where g: "(if config_loaded s = 0 then bnd (load_config ops os e) (\<lambda>_. ret ()) else ret ())
      (s\<lparr>f_count_lock := LockHeld, dev := d2\<rparr>) = Inr ((), s\<lparr>f_count_lock := LockHeld, dev := d3\<rparr>)"
    "files (view d3) = files (view (dev s))" "handles (view d3) = handles (view (dev s))" by blast
  let ?s = "s\<lparr>f_count_lock := LockHeld, dev := d3\<rparr>"
  have "malloc_ok os view" using os by (simp add: os_ok_def)
  moreover have "fs_ok (view (dev ?s))" "cursor_ok ?s" "indexed e (view (dev ?s)) ?s"
    using rd g by (auto simp: hk_ready_def fs_ok_def indexed_def split: ts_ptr.splits)
  ultimately obtain s' where st: "store_sample ops os e hk ?s = Inr (SUCCESS, s')" "hk_ready e view s'"
    "sampled ls e view ?s hk s'"
    using store_sample_step [OF R _ _ p(2) sz(2), of os ?s e] by auto
  have "populate_and_store_hk_data ops os e D junk s = Inr (SUCCESS, s')"
    using p(1) g(1) st(1) by (simp add: andthen_run)
  moreover have "sampled ls e view s hk s'"
    using st(3) g(2) by (simp add: sampled_def holds_def)
  ultimately show ?thesis using p(2,3) st(2) by blast
qed

subsection \<open>A run of samples\<close>

primrec take_samples ::
  "'f red_ops \<Rightarrow> 'f os_ops \<Rightarrow> endianness \<Rightarrow> 'f hk_devices \<Rightarrow> All_systems_housekeeping list \<Rightarrow>
   ('f hk_state, Result list) prog" where
  "take_samples ops os e D [] = ret []"
| "take_samples ops os e D (j # js) =
     bnd (populate_and_store_hk_data ops os e D j) (\<lambda>r.
     bnd (take_samples ops os e D js) (\<lambda>rs. ret (r # rs)))"

text \<open>The numbers that successive samples get.\<close>

definition ring :: "u16 \<Rightarrow> u16 \<Rightarrow> nat \<Rightarrow> u16" where
  "ring mx cur i = ((advance mx) ^^ i) cur"

lemma ring_0 [simp]: "ring mx cur 0 = cur"
  by (simp add: ring_def)

lemma ring_Suc: "ring mx cur (Suc i) = ring mx (advance mx cur) i"
  by (simp add: ring_def funpow_swap1)

lemma unat_advance:
  "1 \<le> cur \<Longrightarrow> cur \<le> mx \<Longrightarrow> mx \<le> 20160 \<Longrightarrow> unat (advance mx cur) = unat cur mod unat mx + 1"
proof -
  assume a: "1 \<le> cur" "cur \<le> mx" "mx \<le> 20160"
  show ?thesis
  proof (cases "cur = mx")
    case True
    with a show ?thesis by (auto simp: advance_def word_le_nat_alt word_less_nat_alt unat_word_ariths)
  next
    case False
    then have "unat cur < unat mx" using a by (metis le_neq_trans word_less_nat_alt)
    with a show ?thesis by (auto simp: advance_def word_le_nat_alt word_less_nat_alt unat_word_ariths)
  qed
qed

lemma unat_ring:
  "1 \<le> cur \<Longrightarrow> cur \<le> mx \<Longrightarrow> mx \<le> 20160 \<Longrightarrow> unat (ring mx cur i) = (unat cur - 1 + i) mod unat mx + 1"
proof (induction i arbitrary: cur)
  case 0
  then show ?case by (auto simp: word_le_nat_alt)
next
  case (Suc i)
  have "1 \<le> unat cur" using Suc.prems(1) by (simp add: word_le_nat_alt)
  moreover have "unat (ring mx cur (Suc i)) = (unat cur mod unat mx + i) mod unat mx + 1"
    using advance_range [OF Suc.prems] Suc.prems
    by (simp add: ring_Suc Suc.IH unat_advance)
  ultimately show ?case by (simp add: mod_add_left_eq)
qed

lemma ring_inj:
  assumes "1 \<le> cur" "cur \<le> mx" "mx \<le> 20160" and "i < unat mx" "j < unat mx" "ring mx cur i = ring mx cur j"
  shows "i = j"
proof -
  from assms(6) have "unat (ring mx cur i) = unat (ring mx cur j)" by simp
  then have "(unat cur - 1 + i) mod unat mx = (unat cur - 1 + j) mod unat mx"
    using assms(1-3) by (simp add: unat_ring)
  then have "i mod unat mx = j mod unat mx"
    by (simp add: nat_mod_eq_iff)
  with assms(4,5) show ?thesis by simp
qed

lemma ring_nonzero: "1 \<le> cur \<Longrightarrow> cur \<le> mx \<Longrightarrow> mx \<le> 20160 \<Longrightarrow> ring mx cur i \<noteq> 0"
  by (metis unat_ring unat_0 add_is_0 one_neq_zero)

text \<open>As many samples as there are files are all kept, each under its number.\<close>

lemma take_samples_kept:
  assumes R: "red_reliable ops view" and os: "os_ok os view" and D: "devices_ok view D"
    and sz: "sizes_ok ls" and rd: "hk_ready e view s"
    and js: "\<forall>j\<in>set js. sized ls j" and len: "length js \<le> unat (MAX_FILES s)"
  shows "\<exists>hks s'. take_samples ops os e D js s = Inr (replicate (length js) SUCCESS, s') \<and> hk_ready e view s' \<and>
    MAX_FILES s' = MAX_FILES s \<and> current_file s' = ring (MAX_FILES s) (current_file s) (length js) \<and>
    length hks = length js \<and>
    (\<forall>i<length js. sized ls (hks ! i) \<and> hk_timeorder (hks ! i) = hk_timeorder (js ! i) \<and>
       holds ls (view (dev s')) (ring (MAX_FILES s) (current_file s) i)
         (hk_fields e (numbered (ring (MAX_FILES s) (current_file s) i) (hks ! i)))) \<and>
    (\<forall>m bss. m \<noteq> 0 \<longrightarrow> (\<forall>i<length js. m \<noteq> ring (MAX_FILES s) (current_file s) i) \<longrightarrow>
       holds ls (view (dev s)) m bss \<longrightarrow> holds ls (view (dev s')) m bss)"
  using rd js len
proof (induction js arbitrary: s)
  case Nil
  then show ?case by (simp add: ret_run)
next
  case (Cons j js)
  let ?mx = "MAX_FILES s" and ?cur = "current_file s"
  have "sized ls j" using Cons.prems(2) by simp
  from populate_step [OF R os D this sz Cons.prems(1)] obtain hk s1 where
    p: "populate_and_store_hk_data ops os e D j s = Inr (SUCCESS, s1)" "sized ls hk"
      "hk_timeorder hk = hk_timeorder j" "hk_ready e view s1" "sampled ls e view s hk s1" by blast
  have mx1: "MAX_FILES s1 = ?mx" "current_file s1 = advance ?mx ?cur"
    using p(5) by (simp_all add: sampled_def)
  have c: "1 \<le> ?cur" "?cur \<le> ?mx" "?mx \<le> 20160" using Cons.prems(1) by (auto simp: hk_ready_def cursor_ok_def)
  have "\<forall>j\<in>set js. sized ls j" "length js \<le> unat (MAX_FILES s1)" using Cons.prems(2,3) mx1 by simp_all
  from Cons.IH [OF p(4) this] mx1 obtain hks s' where
    q: "take_samples ops os e D js s1 = Inr (replicate (length js) SUCCESS, s')" "hk_ready e view s'"
      "MAX_FILES s' = ?mx" "current_file s' = ring ?mx ?cur (Suc (length js))" "length hks = length js"
      "\<forall>i<length js. sized ls (hks ! i) \<and> hk_timeorder (hks ! i) = hk_timeorder (js ! i) \<and>
         holds ls (view (dev s')) (ring ?mx ?cur (Suc i)) (hk_fields e (numbered (ring ?mx ?cur (Suc i)) (hks ! i)))"
      "\<forall>m bss. m \<noteq> 0 \<longrightarrow> (\<forall>i<length js. m \<noteq> ring ?mx ?cur (Suc i)) \<longrightarrow>
         holds ls (view (dev s1)) m bss \<longrightarrow> holds ls (view (dev s')) m bss"
    by (auto simp: ring_Suc)
  have fresh: "?cur \<noteq> ring ?mx ?cur (Suc i)" if "i < length js" for i
    using ring_inj [OF c, of 0 "Suc i"] that Cons.prems(3) by auto
  have "holds ls (view (dev s1)) ?cur (hk_fields e (numbered ?cur hk))"
    using p(5) by (simp add: sampled_def)
  then have first: "holds ls (view (dev s')) ?cur (hk_fields e (numbered ?cur hk))"
    using q(7) [rule_format, of ?cur "hk_fields e (numbered ?cur hk)"] fresh c(1) by force
  have keep: "holds ls (view (dev s')) m bss"
    if "m \<noteq> 0" "\<forall>i<Suc (length js). m \<noteq> ring ?mx ?cur i" "holds ls (view (dev s)) m bss" for m bss
  proof -
    have "m \<noteq> ?cur" using that(2) by (metis ring_0 zero_less_Suc)
    then have "holds ls (view (dev s1)) m bss" using p(5) that by (simp add: sampled_def)
    then show ?thesis using q(7) that(1,2) by auto
  qed
  have all: "sized ls ((hk # hks) ! i) \<and> hk_timeorder ((hk # hks) ! i) = hk_timeorder ((j # js) ! i) \<and>
      holds ls (view (dev s')) (ring ?mx ?cur i) (hk_fields e (numbered (ring ?mx ?cur i) ((hk # hks) ! i)))"
    if "i < Suc (length js)" for i
    using that p(2,3) first q(6) by (cases i) auto
  show ?case
    using p(1) q(1-5) all keep
    by (intro exI [of _ "hk # hks"] exI [of _ s']) (simp add: bnd_run ret_run)
qed

subsection \<open>After a restart\<close>

text \<open>
  A service that starts from an unset index with the configuration of \<open>s0\<close> on file goes on behind
  the last sample of \<open>s0\<close>.
\<close>

text \<open>C5: After a restart the first sample restores the index from the configuration file and goes on one
  number behind the last sample stored before.\<close>

theorem populate_after_restart:
  assumes R: "red_reliable ops view" and os: "os_ok os view" and D: "devices_ok view D"
    and sz: "sized ls junk" "sizes_ok ls"
    and s: "f_count_lock s \<noteq> LockHeld" "fs_ok (view (dev s))" "config_loaded s = 0" "timestamps s = TsNull"
      "hk_timestamp_array_size s = 0"
    and s0: "synced e (view (dev s)) s0" "cursor_ok s0" "timestamps s0 = TsBlock xs" "length xs = unat (MAX_FILES s0) + 1"
  shows "\<exists>hk s1 s'. populate_and_store_hk_data ops os e D junk s = Inr (SUCCESS, s') \<and> sized ls hk \<and>
    hk_timeorder hk = hk_timeorder junk \<and> hk_ready e view s' \<and> sampled ls e view s1 hk s' \<and>
    MAX_FILES s1 = MAX_FILES s0 \<and> current_file s1 = advance (MAX_FILES s0) (current_file s0) \<and>
    timestamps s1 = TsBlock xs \<and> files (view (dev s1)) = files (view (dev s))"
proof -
  from populate_run [OF os D sz(1) s(1), of ops e] s(3) obtain hk d2 where
    p: "populate_and_store_hk_data ops os e D junk s = andthen (bnd (load_config ops os e) (\<lambda>_. ret ()))
          (store_sample ops os e hk) (s\<lparr>f_count_lock := LockHeld, dev := d2\<rparr>)"
      "sized ls hk" "hk_timeorder hk = hk_timeorder junk" "view d2 = view (dev s)" by auto
  let ?s = "s\<lparr>f_count_lock := LockHeld, dev := d2\<rparr>"
  have M: "malloc_ok os view" using os by (simp add: os_ok_def)
  have c0: "1 \<le> current_file s0" "current_file s0 \<le> MAX_FILES s0" "MAX_FILES s0 \<le> 20160"
    using s0(2) by (auto simp: cursor_ok_def)
  have pre: "fs_ok (view (dev ?s))" "ts_inv ?s" "unat (hk_timestamp_array_size ?s) < 65535"
    "synced e (view (dev ?s)) s0" "MAX_FILES s0 \<noteq> 0" "unat (MAX_FILES s0) < 65535"
    using s p(4) s0 c0 by (auto simp: ts_inv_def word_le_nat_alt)
  from load_config_restores [OF R pre(1) M pre(2-4) s0(3,4) pre(5,6)] p(4) obtain d3 where
    g: "load_config ops os e ?s = Inr (SUCCESS, s\<lparr>f_count_lock := LockHeld, MAX_FILES := MAX_FILES s0,
      current_file := advance (MAX_FILES s0) (current_file s0), tempTime := tempTime s0,
      timestamps := TsBlock xs, hk_timestamp_array_size := MAX_FILES s0, dev := d3\<rparr>)" (is "_ = Inr (_, ?s1)")
    "files (view d3) = files (view (dev s))" "handles (view d3) = handles (view (dev s))"
    unfolding advance_def by auto
  from s0 obtain rest where "files (view (dev s)) hk_config =
      Some (config_header e s0 @ concat (map (to_bytes e 4) xs) @ rest)"
    by (auto simp: synced_def config_image_def items_def)
  then have "indexed e (view (dev ?s1)) ?s1"
    using g(2) s0(4) unfolding indexed_def
    by simp (intro exI [of _ "config_header e s0"] exI [of _ rest], simp)
  moreover have "fs_ok (view (dev ?s1))" "cursor_ok ?s1" "f_count_lock ?s1 = LockHeld"
    using s(2) g(3) advance_range [OF c0] c0 by (auto simp: fs_ok_def cursor_ok_def)
  ultimately obtain s' where st: "store_sample ops os e hk ?s1 = Inr (SUCCESS, s')" "hk_ready e view s'"
    "sampled ls e view ?s1 hk s'"
    using store_sample_step [OF R M _ p(2) sz(2), of ?s1 e] by blast
  have "populate_and_store_hk_data ops os e D junk s = Inr (SUCCESS, s')"
    using p(1) g(1) st(1) by (simp add: bnd_run andthen_run ret_run)
  then show ?thesis
    using p(2,3) st(2,3) g(2) by (intro exI [of _ hk] exI [of _ ?s1] exI [of _ s']) simp
qed

end
