(* ===== verification/Hk_Requests.thy ===== *)
theory Hk_Requests
  imports Hk_Sampling
begin

text \<open>
  The requests to the housekeeping service: changing the number of files, paging, and the request
  handler. \<^verbatim>\<open>page_ids\<close> is the list of records that a page consists of; the loop of
  \<^verbatim>\<open>fetch_historic_hk_and_transmit\<close> sends exactly these, in that order.
\<close>

subsection \<open>The number of files\<close>

lemma set_max_files_rejects:
  "new_max = 0 \<or> 20160 < new_max \<Longrightarrow> set_max_files ops os e new_max s = Inr (FAILURE, s)"
  by (auto simp: set_max_files_def ret_run word_less_nat_alt unat_gt_0)

text \<open>
  Growing: the array grows and keeps the items below the old size. The item of the old size is
  the one that the allocator delivers.
\<close>

lemma set_max_files_grow_run:
  assumes os: "os_ok os view" and lk: "f_count_lock s \<noteq> LockHeld" and sl: "slotted s" and cur: "cursor_ok s"
    and new: "MAX_FILES s < new_max" "new_max \<le> 20160"
  shows "\<exists>g d. set_max_files ops os e new_max s = Inr (SUCCESS, s\<lparr>MAX_FILES := new_max,
      timestamps := TsBlock (resized (items (timestamps s)) (unat (hk_timestamp_array_size s)) (unat new_max) g),
      hk_timestamp_array_size := new_max, f_count_lock := LockFree, dev := d\<rparr>) \<and> view d = view (dev s)"
proof -
  have M: "malloc_ok os view" using os by (simp add: os_ok_def)
  from prv_get_lock_run [OF os lk] obtain d1 where
    l: "prv_get_lock os s = Inr ((), s\<lparr>f_count_lock := LockHeld, dev := d1\<rparr>)" "view d1 = view (dev s)" by blast
  let ?s = "s\<lparr>f_count_lock := LockHeld, dev := d1, MAX_FILES := new_max\<rparr>"
  obtain g d where m: "pvPortMalloc os (4 * (unat new_max + 1)) (dev ?s) = (Some g, d)"
    using M by (metis malloc_ok_def not_None_eq prod.collapse)
  have v: "view d = view d1"
    using M m unfolding malloc_ok_def by (metis hk_state.select_convs(8) hk_state.surjective hk_state.update_convs(1,8) snd_conv)
  have c: "1 \<le> current_file s" "current_file s \<le> MAX_FILES s" "MAX_FILES s \<le> 20160"
    using cur by (auto simp: cursor_ok_def)
  have mx0: "MAX_FILES s \<noteq> 0" "new_max \<noteq> 0" "\<not> new_max < 1" using c new(1) by (auto simp: word_le_nat_alt word_less_nat_alt)
  have pre: "ts_inv ?s" "new_max \<noteq> hk_timestamp_array_size ?s" "unat new_max < 65535"
    "unat (hk_timestamp_array_size ?s) < 65535"
    using sl mx0 new c by (auto simp: ts_inv_def slotted_def word_le_nat_alt split: ts_ptr.splits)
  from dynamic_timestamp_array_handler_run [OF pre(1) mx0(2) pre(2-4) m]
  have h: "dynamic_timestamp_array_handler os new_max ?s = Inr (SUCCESS, ?s\<lparr>dev := d, hk_timestamp_array_size := new_max,
      timestamps := TsBlock (resized (items (timestamps s)) (unat (hk_timestamp_array_size s)) (unat new_max) g)\<rparr>)"
    by simp
  have "set_max_files ops os e new_max s = Inr (SUCCESS, s\<lparr>MAX_FILES := new_max,
      timestamps := TsBlock (resized (items (timestamps s)) (unat (hk_timestamp_array_size s)) (unat new_max) g),
      hk_timestamp_array_size := new_max, f_count_lock := LockFree, dev := d\<rparr>)"
    using new mx0 l(1) h
    by (simp add: set_max_files_def bnd_run andthen_run gets_run modify_run ret_run prv_give_lock_run not_less)
  with v l(2) show ?thesis by auto
qed

theorem set_max_files_grows:
  assumes os: "os_ok os view" and rd: "hk_ready e view s" and xs: "timestamps s = TsBlock xs"
    and new: "MAX_FILES s < new_max" "new_max \<le> 20160"
  shows "\<exists>g d. set_max_files ops os e new_max s = Inr (SUCCESS, s\<lparr>MAX_FILES := new_max,
      timestamps := TsBlock (resized xs (unat (MAX_FILES s)) (unat new_max) g),
      hk_timestamp_array_size := new_max, f_count_lock := LockFree, dev := d\<rparr>) \<and> view d = view (dev s)"
proof -
  have "f_count_lock s \<noteq> LockHeld" "slotted s" "cursor_ok s"
    using rd by (auto simp: hk_ready_def intro: indexed_slotted)
  from set_max_files_grow_run [OF os this new, of ops e] this(2) xs show ?thesis
    by (simp add: slotted_def items_def)
qed

text \<open>
  Not growing: the data file is removed, the array released and the configuration stored.
\<close>

lemma set_max_files_start:
  assumes R: "red_reliable ops view" and os: "os_ok os view" and lk: "f_count_lock s \<noteq> LockHeld"
    and ok: "fs_ok (view (dev s))" and new: "1 \<le> new_max" "new_max \<le> MAX_FILES s" "MAX_FILES s \<le> 20160"
  shows "\<exists>d. set_max_files ops os e new_max s =
      bnd (dynamic_timestamp_array_handler os 0) (\<lambda>_. bnd (store_config ops e 1) (\<lambda>_. andthen prv_give_lock (ret SUCCESS)))
        (s\<lparr>f_count_lock := LockHeld, MAX_FILES := new_max, current_file := 1, dev := d\<rparr>) \<and>
    files (view d) = (files (view (dev s)))(fileName := None) \<and> handles (view d) = handles (view (dev s))"
proof -
  from prv_get_lock_run [OF os lk] obtain d1 where
    l: "prv_get_lock os s = Inr ((), s\<lparr>f_count_lock := LockHeld, dev := d1\<rparr>)" "view d1 = view (dev s)" by blast
  let ?s = "s\<lparr>f_count_lock := LockHeld, dev := d1, MAX_FILES := new_max, current_file := 1\<rparr>"
  have "fs_ok (view (dev ?s))" using ok l(2) by simp
  from reliable_exists [OF R this, of fileName] l(2) obtain d2 where
    x: "exists_file ops fileName ?s = Inr (if files (view (dev s)) fileName = None then FILE_NOT_EXIST
          else FILE_EXISTS, ?s\<lparr>dev := d2\<rparr>)"
      "files (view d2) = files (view (dev s))" "handles (view d2) = handles (view (dev s))" by auto
  let ?d3 = "if files (view (dev s)) fileName = None then d2 else red_unlink ops fileName d2"
  have "\<not> new_max < 1" "\<not> 20160 < new_max" "\<not> MAX_FILES s < new_max" using new by auto
  then have "set_max_files ops os e new_max s =
      bnd (dynamic_timestamp_array_handler os 0) (\<lambda>_. bnd (store_config ops e 1) (\<lambda>_. andthen prv_give_lock (ret SUCCESS)))
        (?s\<lparr>dev := ?d3\<rparr>)"
    using l(1) x(1) by (simp add: set_max_files_def prog_simps)
  moreover have "files (view ?d3) = (files (view (dev s)))(fileName := None) \<and> handles (view ?d3) = handles (view (dev s))"
    using x(2,3) reliable_unlink [OF R, of fileName d2] red_posixD(9) [OF reliable_posix [OF R], of fileName d2]
    by (auto simp: unlink_spec_def fun_eq_iff)
  ultimately show ?thesis by (intro exI [of _ ?d3]) simp
qed

text \<open>Before the first sample there is no array: only the header of the configuration is written.\<close>

lemma set_max_files_fresh:
  assumes R: "red_reliable ops view" and os: "os_ok os view" and lk: "f_count_lock s \<noteq> LockHeld"
    and ok: "fs_ok (view (dev s))" and ts: "timestamps s = TsNull"
    and new: "1 \<le> new_max" "new_max \<le> MAX_FILES s" "MAX_FILES s \<le> 20160"
  shows "\<exists>d. set_max_files ops os e new_max s = Inr (SUCCESS, s\<lparr>MAX_FILES := new_max, current_file := 1,
      hk_timestamp_array_size := 0, f_count_lock := LockFree, dev := d\<rparr>) \<and>
    headed e (view d) (s\<lparr>MAX_FILES := new_max, current_file := 1\<rparr>) \<and> fs_ok (view d) \<and> files (view d) fileName = None"
proof -
  from set_max_files_start [OF R os lk ok new, of e] obtain d where
    st: "set_max_files ops os e new_max s =
      bnd (dynamic_timestamp_array_handler os 0) (\<lambda>_. bnd (store_config ops e 1) (\<lambda>_. andthen prv_give_lock (ret SUCCESS)))
        (s\<lparr>f_count_lock := LockHeld, MAX_FILES := new_max, current_file := 1, dev := d\<rparr>)"
    "files (view d) = (files (view (dev s)))(fileName := None)" "handles (view d) = handles (view (dev s))" by blast
  let ?s = "s\<lparr>f_count_lock := LockHeld, MAX_FILES := new_max, current_file := 1, dev := d, hk_timestamp_array_size := 0\<rparr>"
  have "fs_ok (view (dev ?s))" "timestamps ?s = TsNull" using ok st(3) ts by (simp_all add: fs_ok_def)
  from store_config_null [OF R this, of e] obtain d' where
    c: "store_config ops e 1 ?s = Inr (SUCCESS, ?s\<lparr>dev := d'\<rparr>)"
      "files (view d') hk_config = Some (config_header e ?s @ drop 8 (contents (view (dev ?s)) hk_config))"
      "confined hk_config (view (dev ?s)) (view d')" by blast
  have "headed e (view d') (s\<lparr>MAX_FILES := new_max, current_file := 1\<rparr>)"
    using c(2) by (auto simp: headed_def config_header_def)
  moreover have "fs_ok (view d')" "files (view d') fileName = None"
    using confined_ok [OF c(3)] confined_files [OF c(3)] ok st(2,3) by (simp_all add: fs_ok_def)
  ultimately show ?thesis
    using st(1) c(1) ts by (intro exI [of _ d']) (simp add: prog_simps handler_release_null prv_give_lock_run)
qed

text \<open>
  With an array in use, it is handed to \<^verbatim>\<open>store_config(1)\<close> after its release.
\<close>

lemma store_config_freed:
  assumes R: "red_reliable ops view" and "fs_ok (view (dev s))" and "timestamps s = TsFreed"
  shows "store_config ops e 1 s = Inl UseAfterFree"
proof -
  from store_config_start [OF assms(1,2), of e] obtain fd d0 d1 d2 where
    "exists_file ops hk_config s =
        Inr (if files (view (dev s)) hk_config = None then FILE_NOT_EXIST else FILE_EXISTS, s\<lparr>dev := d0\<rparr>)"
      "red_open ops hk_config RED_CREAT_RDWR d0 = (fd, d1)" "fd \<noteq> -1"
      "write_all ops fd [to_bytes e 2 (MAX_FILES s), to_bytes e 2 (current_file s), to_bytes e 4 (tempTime s)]
        (s\<lparr>dev := d1\<rparr>) = Inr ((), s\<lparr>dev := d2\<rparr>)" by blast
  with assms(3) show ?thesis
    by (auto simp: store_config_def prog_simps ts_copy_def simp del: write_all.simps)
qed

lemma set_max_files_frees:
  assumes R: "red_reliable ops view" and os: "os_ok os view" and lk: "f_count_lock s \<noteq> LockHeld"
    and ok: "fs_ok (view (dev s))" and xs: "timestamps s = TsBlock xs"
    and new: "1 \<le> new_max" "new_max \<le> MAX_FILES s" "MAX_FILES s \<le> 20160"
  shows "set_max_files ops os e new_max s = Inl UseAfterFree"
proof -
  from set_max_files_start [OF R os lk ok new, of e] obtain d where
    st: "set_max_files ops os e new_max s =
      bnd (dynamic_timestamp_array_handler os 0) (\<lambda>_. bnd (store_config ops e 1) (\<lambda>_. andthen prv_give_lock (ret SUCCESS)))
        (s\<lparr>f_count_lock := LockHeld, MAX_FILES := new_max, current_file := 1, dev := d\<rparr>)"
    "handles (view d) = handles (view (dev s))" by blast
  let ?s = "s\<lparr>f_count_lock := LockHeld, MAX_FILES := new_max, current_file := 1, dev := d\<rparr>"
  have "fs_ok (view (dev (?s\<lparr>timestamps := TsFreed, hk_timestamp_array_size := 0\<rparr>)))"
    using ok st(2) by (simp add: fs_ok_def)
  from store_config_freed [OF R this, of e] st(1) handler_release [of ?s xs os] xs show ?thesis
    by (simp add: prog_simps)
qed


subsection \<open>A reply packet with a record\<close>

lemma copy_fields_run:
  assumes "2 + unat used + length (concat bss) \<le> length (data s)" and "unat used + length (concat bss) < 65536"
  shows "copy_fields used bss s = Inr (of_nat (unat used + length (concat bss)),
    s\<lparr>packet := (packet s)\<lparr>pkt_data := overlay (2 + unat used) (concat bss) (data s)\<rparr>\<rparr>)"
  using assms
proof (induction bss arbitrary: used s)
  case Nil
  then show ?case by (simp add: ret_run overlay_def)
next
  case (Cons b bss)
  have u: "unat (used + of_nat (length b)) = unat used + length b"
    using Cons.prems(2) by (simp add: unat_word_ariths unat_of_nat)
  let ?s = "s\<lparr>packet := (packet s)\<lparr>pkt_data := overlay (2 + unat used) b (data s)\<rparr>\<rparr>"
  have "copy_fields (used + of_nat (length b)) bss ?s = Inr (of_nat (unat used + length b + length (concat bss)),
      ?s\<lparr>packet := (packet ?s)\<lparr>pkt_data := overlay (2 + (unat used + length b)) (concat bss) (data ?s)\<rparr>\<rparr>)"
    using Cons.IH [of "used + of_nat (length b)" ?s] Cons.prems u by simp
  then show ?case
    using Cons.prems overlay_adjacent [of "2 + unat used" b "concat bss" "data s"]
    by (simp add: andthen_run pkt_write_run OUT_DATA_BYTE_def add.assoc)
qed

text \<open>What a packet with the record \<open>hk\<close> says.\<close>

definition carries :: "endianness \<Rightarrow> All_systems_housekeeping \<Rightarrow> csp_packet \<Rightarrow> bool" where
  "carries e hk p \<longleftrightarrow> (let bs = 0 # 0 # concat (hk_sent e hk) in
     pkt_length p = of_nat (length bs) \<and> length bs \<le> length (pkt_data p) \<and> take (length bs) (pkt_data p) = bs)"

lemma fill_packet_run:
  assumes "2 + length (concat (hk_sent e hk)) \<le> length (data s)" and "length (concat (hk_sent e hk)) < 65534"
  shows "\<exists>p. fill_packet e hk s = Inr ((), s\<lparr>packet := p\<rparr>) \<and> carries e hk p"
proof -
  let ?n = "length (concat (hk_sent e hk))"
  let ?d0 = "overlay 0 [0] (data s)"
  let ?d = "overlay (0 + length [0 :: byte]) [0] ?d0"
  have d: "?d = overlay 0 [0, 0] (data s)"
    using overlay_adjacent [of 0 "[0]" "[0]" "data s"] assms(1) by simp
  let ?s = "s\<lparr>packet := (packet s)\<lparr>pkt_data := overlay 0 [0, 0] (data s)\<rparr>\<rparr>"
  let ?e = "overlay (2 + unat (0 :: u16)) (concat (hk_sent e hk)) (data ?s)"
  have e: "?e = overlay 0 (0 # 0 # concat (hk_sent e hk)) (data s)"
    using overlay_adjacent [of 0 "[0, 0]" "concat (hk_sent e hk)" "data s"] assms(1)
    by (simp add: numeral_2_eq_2)
  have "copy_fields 0 (hk_sent e hk) ?s = Inr (of_nat ?n, ?s\<lparr>packet := (packet ?s)\<lparr>pkt_data := ?e\<rparr>\<rparr>)"
    using copy_fields_run [of 0 "hk_sent e hk" ?s] assms by simp
  then have run: "fill_packet e hk s = Inr ((), s\<lparr>packet := \<lparr>pkt_length = of_nat (?n + 2), pkt_data = ?e\<rparr>\<rparr>)"
    using d assms
    by (simp add: fill_packet_def andthen_run bnd_run pkt_write_run set_packet_length_run SUBSERVICE_BYTE_def
        STATUS_BYTE_def unat_of_nat_u16)
  have "carries e hk \<lparr>pkt_length = of_nat (?n + 2), pkt_data = ?e\<rparr>"
    unfolding e using assms(1) overlay_same [of 0 "0 # 0 # concat (hk_sent e hk)" "data s"]
    by (simp add: carries_def Let_def)
  with run show ?thesis by blast
qed

subsection \<open>Paging\<close>

definition before :: "u16 \<Rightarrow> u16 \<Rightarrow> u16" where
  "before mx b = (if b - 1 = 0 then mx else b - 1)"

primrec page_ids :: "u16 \<Rightarrow> nat \<Rightarrow> u16 \<Rightarrow> u16 list" where
  "page_ids mx 0 b = []"
| "page_ids mx (Suc n) b = before mx b # page_ids mx n (before mx b)"

lemma length_page_ids [simp]: "length (page_ids mx n b) = n"
  by (induction n arbitrary: b) auto

lemma unat_before:
  assumes "1 \<le> b"
  shows "unat (before mx b) = (if unat b = 1 then unat mx else unat b - 1)"
proof -
  have "b \<noteq> 0" using assms by auto
  then have "unat (b - 1) = unat b - 1" by (rule unat_minus_one)
  moreover have "b - 1 = 0 \<longleftrightarrow> unat b = 1"
    by (metis eq_iff_diff_eq_0 unat_1 word_unat_eq_iff)
  ultimately show ?thesis by (simp add: before_def)
qed

lemma before_range: "1 \<le> b \<Longrightarrow> b \<le> mx \<Longrightarrow> 1 \<le> before mx b \<and> before mx b \<le> mx"
  by (auto simp: word_le_nat_alt unat_before)

text \<open>The inverse of the order in which samples are taken.\<close>

lemma advance_before:
  assumes "1 \<le> b" "b \<le> mx" "mx \<le> 20160"
  shows "advance mx (before mx b) = b"
proof -
  from before_range [OF assms(1,2)] assms(3)
  have "unat (advance mx (before mx b)) = unat (before mx b) mod unat mx + 1"
    by (intro unat_advance) auto
  also have "\<dots> = unat b" using assms(1,2) by (auto simp: unat_before word_le_nat_alt)
  finally show ?thesis by (simp add: word_unat_eq_iff)
qed

lemma page_ids_range: "1 \<le> b \<Longrightarrow> b \<le> mx \<Longrightarrow> i \<in> set (page_ids mx n b) \<Longrightarrow> 1 \<le> i \<and> i \<le> mx"
proof (induction n arbitrary: b)
  case 0
  then show ?case by simp
next
  case (Suc n)
  note r = before_range [OF Suc.prems(1,2)]
  show ?case
  proof (cases "i = before mx b")
    case True
    with r show ?thesis by simp
  next
    case False
    with Suc.prems(3) have "i \<in> set (page_ids mx n (before mx b))" by simp
    with r show ?thesis by (intro Suc.IH [of "before mx b"]) simp_all
  qed
qed

lemma ring_page_ids:
  "1 \<le> b \<Longrightarrow> b \<le> mx \<Longrightarrow> mx \<le> 20160 \<Longrightarrow> k < n \<Longrightarrow> ring mx (page_ids mx n b ! k) (Suc k) = b"
proof (induction n arbitrary: b k)
  case 0
  then show ?case by simp
next
  case (Suc n)
  show ?case
  proof (cases k)
    case 0
    then show ?thesis using Suc.prems by (simp add: ring_Suc advance_before)
  next
    case (Suc j)
    have r: "ring mx x (Suc (Suc j)) = advance mx (ring mx x (Suc j))" for x by (simp add: ring_def)
    show ?thesis
      using Suc Suc.prems before_range [OF Suc.prems(1,2)] Suc.IH [of "before mx b" j]
      by (simp add: r advance_before del: One_nat_def)
  qed
qed

lemma before_advance:
  assumes "1 \<le> b" "b \<le> mx" "mx \<le> 20160"
  shows "before mx (advance mx b) = b"
proof -
  from advance_range [OF assms] have r: "1 \<le> advance mx b" by simp
  have u: "unat (advance mx b) = unat b mod unat mx + 1" by (rule unat_advance [OF assms])
  have "unat (before mx (advance mx b)) = unat b"
  proof (cases "b = mx")
    case True
    with u show ?thesis unfolding unat_before [OF r] by simp
  next
    case False
    then have "unat b < unat mx" using assms by (metis le_neq_trans word_less_nat_alt)
    moreover have "0 < unat b" using assms(1) by (simp add: word_le_nat_alt)
    ultimately show ?thesis using u unfolding unat_before [OF r] by simp
  qed
  then show ?thesis by (simp add: word_unat_eq_iff)
qed

lemma ring_range: "1 \<le> b \<Longrightarrow> b \<le> mx \<Longrightarrow> mx \<le> 20160 \<Longrightarrow> 1 \<le> ring mx b i \<and> ring mx b i \<le> mx"
  by (induction i arbitrary: b) (simp_all add: ring_Suc advance_range)

lemma ring_advance: "ring mx b (Suc i) = advance mx (ring mx b i)"
  by (simp add: ring_def)

lemma page_ids_ring:
  assumes "1 \<le> b" "b \<le> mx" "mx \<le> 20160"
  shows "page_ids mx n (ring mx b n) = rev (map (ring mx b) [0..<n])"
proof (induction n)
  case 0
  then show ?case by simp
next
  case (Suc n)
  have "before mx (ring mx b (Suc n)) = ring mx b n"
    unfolding ring_advance using ring_range [OF assms] assms(3) by (intro before_advance) auto
  with Suc show ?case by (simp del: )
qed

text \<open>What the network and the converters owe the service.\<close>

definition cv_ok :: "hk_converters \<Rightarrow> bool" where
  "cv_ok cv \<longleftrightarrow> (\<forall>bs. length (Athena_hk_convert_endianness cv bs) = length bs \<and>
     length (prv_instantaneous_telemetry_letoh cv bs) = length bs \<and>
     length (UHF_convert_endianness cv bs) = length bs \<and> length (HAL_S_hk_convert_endianness cv bs) = length bs)"

definition net_ok :: "'f csp_ops \<Rightarrow> ('f \<Rightarrow> fs_view) \<Rightarrow> ('f \<Rightarrow> csp_packet list) \<Rightarrow> bool" where
  "net_ok net view sent \<longleftrightarrow>
     (\<forall>n f. \<exists>p. fst (op_buffer_get net n f) = Some p \<and> n \<le> length (pkt_data p) \<and>
        view (snd (op_buffer_get net n f)) = view f \<and> sent (snd (op_buffer_get net n f)) = sent f) \<and>
     (\<forall>p f. fst (op_send net p f) \<and> view (snd (op_send net p f)) = view f \<and>
        sent (snd (op_send net p f)) = sent f @ [p])"

text \<open>The record as it is sent: converted, and marked when more will follow.\<close>

definition outgoing :: "csp_endian \<Rightarrow> hk_converters \<Rightarrow> bool \<Rightarrow> All_systems_housekeeping \<Rightarrow> All_systems_housekeeping" where
  "outgoing ce cv follow hk = (let hk2 = snd (convert_hk_endianness ce cv hk) in
     if follow then hk2\<lparr>hk_timeorder := (hk_timeorder hk2)\<lparr>final := 1\<rparr>\<rparr> else hk2)"

primrec replies :: "csp_endian \<Rightarrow> hk_converters \<Rightarrow> All_systems_housekeeping list \<Rightarrow> All_systems_housekeeping list" where
  "replies ce cv [] = []"
| "replies ce cv (hk # hks) = outgoing ce cv (hks \<noteq> []) hk # replies ce cv hks"

lemma sized_outgoing: "cv_ok cv \<Longrightarrow> sized ls (outgoing ce cv follow hk) = sized ls hk"
  by (simp add: sized_def hk_fields_def outgoing_def convert_hk_endianness_def cv_ok_def Let_def)

lemma sent_outgoing_startup:
  "hk_sent e (outgoing ce cv follow (keep_startup x b)) = hk_sent e (outgoing ce cv follow x)"
  by (simp add: hk_sent_def outgoing_def convert_hk_endianness_def keep_startup_def Let_def)

lemma length_sent: "sized ls hk \<Longrightarrow> length (concat (hk_sent e hk)) \<le> sum_list ls"
  by (auto simp: sized_def hk_fields_def hk_sent_def)

lemma sized_keep_startup [simp]: "sized ls (keep_startup x b) = sized ls x"
  by (simp add: sized_def hk_fields_def keep_startup_def)

lemma carries_startup:
  "carries e (outgoing ce cv follow (keep_startup x b)) = carries e (outgoing ce cv follow x)"
  by (rule ext) (simp add: carries_def sent_outgoing_startup)

text \<open>A record is found where the store has it.\<close>

lemma load_run:
  assumes R: "red_reliable ops view" and ok: "fs_ok (view (dev s))"
    and sz: "sized ls hk" "sizes_ok ls" and n: "n \<noteq> 0" and has: "holds ls (view (dev s)) n (hk_fields e x)"
  shows "\<exists>d. load_historic_hk_data ops e n hk s = Inr ((SUCCESS, keep_startup x hk), s\<lparr>dev := d\<rparr>) \<and>
    files (view d) = files (view (dev s)) \<and> handles (view d) = handles (view (dev s))"
proof -
  have C: "red_posix ops view" by (rule reliable_posix [OF R])
  from read_hk_view [OF C ok sz n, of e] obtain r y d where
    w: "read_hk_from_file ops e n hk s = Inr ((r, y), s\<lparr>dev := d\<rparr>)" "confined fileName (view (dev s)) (view d)"
      "r = SUCCESS \<longrightarrow> files (view d) = files (view (dev s)) \<and> (\<exists>c. files (view d) fileName = Some c \<and>
         y = hk_set_fields e (read_into (offset_of ls n) c (hk_fields e hk)) hk)" by blast
  have "r = SUCCESS" using read_hk_reliable [OF R ok sz n, of e] has w(1) by (auto simp: holds_def)
  moreover from this w(3) obtain c where "files (view d) = files (view (dev s))" "files (view (dev s)) fileName = Some c"
      "y = hk_set_fields e (read_into (offset_of ls n) c (hk_fields e hk)) hk" by auto
  moreover from this have "y = keep_startup x hk"
    using holds_read [OF has _ sizedD [OF sz(1)], of c e] by (simp add: hk_set_fields_fields)
  ultimately show ?thesis
    using w(1,2) by (intro exI [of _ d]) (simp add: load_historic_hk_data_def bnd_run ret_run confined_def)
qed

text \<open>File operations send nothing.\<close>

definition quiet :: "'f red_ops \<Rightarrow> ('f \<Rightarrow> csp_packet list) \<Rightarrow> bool" where
  "quiet ops sent \<longleftrightarrow>
     (\<forall>nm fl f. sent (snd (red_open ops nm fl f)) = sent f) \<and> (\<forall>fd f. sent (red_close ops fd f) = sent f) \<and>
     (\<forall>fd n f. sent (snd (read_bytes ops fd n f)) = sent f) \<and> (\<forall>fd n f. sent (red_lseek_set ops fd n f) = sent f) \<and>
     (\<forall>nm f. sent (red_unlink ops nm f) = sent f) \<and> (\<forall>n f. sent (set_red_errno ops n f) = sent f)"

definition keeps :: "('f \<Rightarrow> 'b) \<Rightarrow> ('f hk_state, 'a) prog \<Rightarrow> bool" where
  "keeps sent m \<longleftrightarrow> (\<forall>s a t. m s = Inr (a, t) \<longrightarrow> sent (dev t) = sent (dev s))"

lemma keepsD: "keeps sent m \<Longrightarrow> m s = Inr (a, t) \<Longrightarrow> sent (dev t) = sent (dev s)"
  unfolding keeps_def by blast

lemma keeps_ret: "keeps sent (ret a)"
  by (simp add: keeps_def ret_run)

lemma keeps_gets: "keeps sent (gets f)"
  by (simp add: keeps_def gets_run)

lemma keeps_bnd: "keeps sent m \<Longrightarrow> (\<And>a. keeps sent (f a)) \<Longrightarrow> keeps sent (bnd m f)"
  by (fastforce simp: keeps_def bnd_run split: sum.splits)

lemma keeps_andthen: "keeps sent m \<Longrightarrow> keeps sent k \<Longrightarrow> keeps sent (andthen m k)"
  unfolding andthen_def by (rule keeps_bnd)

lemma keeps_sys: "(\<And>f. sent (snd (g f)) = sent f) \<Longrightarrow> keeps sent (sys g)"
  by (auto simp: keeps_def sys_run)

lemma keeps_sysu: "(\<And>f. sent (g f) = sent f) \<Longrightarrow> keeps sent (sysu g)"
  by (auto simp: keeps_def sysu_run)

lemma keeps_if: "(b \<Longrightarrow> keeps sent m) \<Longrightarrow> (\<not> b \<Longrightarrow> keeps sent k) \<Longrightarrow> keeps sent (if b then m else k)"
  by simp

lemmas keeps_rules = keeps_ret keeps_gets keeps_bnd keeps_andthen keeps_sys keeps_sysu keeps_if

lemma load_keeps:
  assumes Q: "quiet ops sent"
  shows "keeps sent (load_historic_hk_data ops e n hk)"
proof -
  note q = Q [unfolded quiet_def]
  have x: "keeps sent (exists_file ops nm)" for nm
    unfolding exists_file_def by (intro keeps_rules) (use q in simp_all)
  have r: "keeps sent (read_all ops fd bss)" for fd bss
    by (induction bss) (use q in \<open>auto intro!: keeps_rules\<close>)
  have o: "keeps sent (record_offset m k)" for m k
    by (auto simp: keeps_def record_offset_def Let_def prog_simps split: if_splits)
  have "keeps sent (read_hk_from_file ops e n hk)"
    unfolding read_hk_from_file_def by (intro keeps_rules x r o) (use q in simp_all)
  then show ?thesis
    unfolding load_historic_hk_data_def by (auto intro!: keeps_rules split: prod.splits)
qed

text \<open>The loop sends one packet per record of the page.\<close>

lemma fetch_loop_run:
  assumes R: "red_reliable (hk_fs E) view" and N: "net_ok (hk_net E) view sent" and Q: "quiet (hk_fs E) sent"
    and cv: "cv_ok (hk_cv E)" and ls: "sizes_ok ls" "sum_list ls < 65534"
    and r: "\<forall>i\<in>set (page_ids mx n b). holds ls (view (dev (pworld s))) i (hk_fields (host (hk_ce E)) (rec i)) \<and>
      sized ls (rec i)"
    and b: "1 \<le> b" "b \<le> mx" and hk: "sized ls hk" and ok: "fs_ok (view (dev (pworld s)))" and P: "pool_ok s"
  shows "\<exists>d ps. fetch_loop E n b mx hk s =
      Inr (SUCCESS, s\<lparr>nxt := nxt s + n, pworld := (pworld s)\<lparr>dev := d\<rparr>\<rparr>) \<and>
    files (view d) = files (view (dev (pworld s))) \<and> handles (view d) = handles (view (dev (pworld s))) \<and>
    sent d = sent (dev (pworld s)) @ ps \<and>
    list_all2 (carries (host (hk_ce E))) (replies (hk_ce E) (hk_cv E) (map rec (page_ids mx n b))) ps"
  using r b hk ok P
proof (induction n arbitrary: b hk s)
  case 0
  then show ?case by (intro exI [of _ "dev (pworld s)"] exI [of _ "[]"]) (simp add: ret_run)
next
  case (Suc n)
  let ?e = "host (hk_ce E)" and ?i = "before mx b" and ?w = "pworld s"
  have i: "1 \<le> ?i" "?i \<le> mx" "?i \<noteq> 0" using before_range [OF Suc.prems(2,3)] by auto
  have h: "holds ls (view (dev ?w)) ?i (hk_fields ?e (rec ?i))" "sized ls (rec ?i)" using Suc.prems(1) by simp_all
  from load_run [OF R Suc.prems(5) Suc.prems(4) ls(1) i(3) h(1)] obtain d1 where
    l: "load_historic_hk_data (hk_fs E) ?e ?i hk ?w = Inr ((SUCCESS, keep_startup (rec ?i) hk), ?w\<lparr>dev := d1\<rparr>)"
      "files (view d1) = files (view (dev ?w))" "handles (view d1) = handles (view (dev ?w))" by blast
  have s1: "sent d1 = sent (dev ?w)"
    using keepsD [OF load_keeps [OF Q] l(1)] by simp
  let ?hk = "outgoing (hk_ce E) (hk_cv E) (0 < n) (keep_startup (rec ?i) hk)"
  have sz: "sized ls ?hk" using h(2) by (simp add: sized_outgoing [OF cv])
  have need: "unat (get_size_of_housekeeping ?hk + 2) = sum_list ls + 2"
    using sized_get_size [OF sz ls(1)] ls(2) by (simp add: unat_word_ariths)
  from N obtain p where p: "fst (op_buffer_get (hk_net E) (sum_list ls + 2) d1) = Some p"
    "sum_list ls + 2 \<le> length (pkt_data p)"
    "view (snd (op_buffer_get (hk_net E) (sum_list ls + 2) d1)) = view d1"
    "sent (snd (op_buffer_get (hk_net E) (sum_list ls + 2) d1)) = sent d1" unfolding net_ok_def by blast
  let ?d2 = "snd (op_buffer_get (hk_net E) (sum_list ls + 2) d1)"
  have "2 + length (concat (hk_sent ?e ?hk)) \<le> length (data \<lparr>packet = p, world = ?w\<lparr>dev := ?d2\<rparr>\<rparr>)"
    "length (concat (hk_sent ?e ?hk)) < 65534"
    using length_sent [OF sz, of ?e] p(2) ls(2) by simp_all
  from fill_packet_run [OF this] obtain q where
    q: "fill_packet ?e ?hk \<lparr>packet = p, world = ?w\<lparr>dev := ?d2\<rparr>\<rparr> = Inr ((), \<lparr>packet = q, world = ?w\<lparr>dev := ?d2\<rparr>\<rparr>)"
      "carries ?e ?hk q" by auto
  let ?d3 = "snd (op_send (hk_net E) q ?d2)"
  have snd: "fst (op_send (hk_net E) q ?d2)" "view ?d3 = view ?d2" "sent ?d3 = sent ?d2 @ [q]"
    using N unfolding net_ok_def by blast+
  let ?s = "s\<lparr>nxt := Suc (nxt s), pworld := ?w\<lparr>dev := ?d3\<rparr>\<rparr>"
  have free: "bufs s (nxt s) = None" using Suc.prems(6) by (simp add: pool_ok_def)
  have step: "fetch_loop E (Suc n) b mx hk s = fetch_loop E n ?i mx ?hk ?s"
  proof -
    have "(if b - 1 = 0 then mx else b - 1) = ?i" by (simp add: before_def)
    moreover have "(bufs s)(nxt s := None) = bufs s" using free by auto
    ultimately show ?thesis
      using l(1) p(1) q(1) snd(1) need
      by (simp add: bnd_run andthen_run ret_run on_world_def on_packet_def csp_buffer_get_def csp_send_def take_buffer_def
          hk_csp_def on_dev_def outgoing_def convert_hk_endianness_def Let_def split: prod.splits)
  qed
  have v3: "files (view ?d3) = files (view (dev ?w))" "handles (view ?d3) = handles (view (dev ?w))"
    using snd(2) p(3) l(2,3) by simp_all
  have pre: "\<forall>i\<in>set (page_ids mx n ?i). holds ls (view (dev (pworld ?s))) i (hk_fields ?e (rec i)) \<and> sized ls (rec i)"
    "fs_ok (view (dev (pworld ?s)))" "pool_ok ?s"
    using Suc.prems(1,5,6) v3 by (auto simp: holds_def fs_ok_def pool_ok_def)
  from Suc.IH [OF pre(1) i(1,2) sz pre(2,3)] obtain d ps where
    z: "fetch_loop E n ?i mx ?hk ?s = Inr (SUCCESS, ?s\<lparr>nxt := nxt ?s + n, pworld := (pworld ?s)\<lparr>dev := d\<rparr>\<rparr>)"
      "files (view d) = files (view ?d3)" "handles (view d) = handles (view ?d3)" "sent d = sent ?d3 @ ps"
      "list_all2 (carries ?e) (replies (hk_ce E) (hk_cv E) (map rec (page_ids mx n ?i))) ps" by auto
  have "map rec (page_ids mx n ?i) \<noteq> [] \<longleftrightarrow> 0 < n" by (cases n) auto
  then have "list_all2 (carries ?e) (replies (hk_ce E) (hk_cv E) (map rec (page_ids mx (Suc n) b))) (q # ps)"
    using z(5) q(2) by (simp add: carries_startup)
  then show ?case
    using step z(1-4) v3 snd(3) p(4) s1
    by (intro exI [of _ d] exI [of _ "q # ps"]) simp
qed

text \<open>All that a page needs is a cursor in range, the lock, and its records on file.\<close>

lemma fetch_page_view:
  assumes R: "red_reliable (hk_fs E) view" and N: "net_ok (hk_net E) view sent" and Q: "quiet (hk_fs E) sent"
    and os: "os_ok (hk_os E) view" and mute: "\<forall>f. sent (snd (xSemaphoreCreateMutex (hk_os E) f)) = sent f"
    and cv: "cv_ok (hk_cv E)" and ls: "sizes_ok ls" "sum_list ls < 65534" "sized ls shape"
    and lk: "f_count_lock (pworld s) \<noteq> LockHeld" and cur: "cursor_ok (pworld s)"
    and ok: "fs_ok (view (dev (pworld s)))" and P: "pool_ok s"
    and n: "n = min (unat limit) (unat (MAX_FILES (pworld s)))"
    and b: "b = (if bid = 0 \<or> MAX_FILES (pworld s) < bid then current_file (pworld s) else bid)"
    and r: "\<forall>i\<in>set (page_ids (MAX_FILES (pworld s)) n b).
      holds ls (view (dev (pworld s))) i (hk_fields (host (hk_ce E)) (rec i)) \<and> sized ls (rec i)"
  shows "\<exists>d ps. fetch_historic_hk_and_transmit E shape limit bid 0 s = Inr (SUCCESS, s\<lparr>nxt := nxt s + n,
      pworld := (pworld s)\<lparr>f_count_lock := LockFree, dev := d\<rparr>\<rparr>) \<and>
    files (view d) = files (view (dev (pworld s))) \<and> handles (view d) = handles (view (dev (pworld s))) \<and>
    sent d = sent (dev (pworld s)) @ ps \<and> list_all2 (carries (host (hk_ce E)))
      (replies (hk_ce E) (hk_cv E) (map rec (page_ids (MAX_FILES (pworld s)) n b))) ps"
proof -
  let ?w = "pworld s"
  from prv_get_lock_run [OF os lk] obtain d1 where
    l: "prv_get_lock (hk_os E) ?w = Inr ((), ?w\<lparr>f_count_lock := LockHeld, dev := d1\<rparr>)" "view d1 = view (dev ?w)" by blast
  have "keeps sent (prv_get_lock (hk_os E))"
    unfolding prv_get_lock_def
    by (intro keeps_rules) (use mute in \<open>auto simp: keeps_def modify_run xSemaphoreTake_def split: lock.splits\<close>)
  from keepsD [OF this l(1)] have s1: "sent d1 = sent (dev ?w)" by simp
  let ?s = "s\<lparr>pworld := ?w\<lparr>dev := d1, f_count_lock := LockFree\<rparr>\<rparr>"
  have c: "1 \<le> current_file ?w" "current_file ?w \<le> MAX_FILES ?w" "MAX_FILES ?w \<le> 20160" "fs_ok (view (dev ?w))"
    using cur ok by (auto simp: cursor_ok_def)
  have br: "1 \<le> b" "b \<le> MAX_FILES ?w" using c b by (auto simp: not_less word_le_nat_alt unat_gt_0 Suc_le_eq)
  let ?n = "if limit > MAX_FILES ?w then MAX_FILES ?w else limit"
  have un: "unat ?n = n" using n by (auto simp: word_less_nat_alt min_def)
  have start: "fetch_historic_hk_and_transmit E shape limit bid 0 s =
      (if n = 0 then Inr (SUCCESS, ?s) else fetch_loop E n b (MAX_FILES ?w) (zero_hk shape) ?s)"
  proof -
    have "?n = 0 \<longleftrightarrow> n = 0" unfolding un [symmetric] by (rule unat_eq_zero [symmetric])
    moreover have "b = (if bid = 0 \<or> bid > MAX_FILES ?w then current_file ?w else bid)" using b by simp
    ultimately show ?thesis
      using l(1) un
      by (auto simp: fetch_historic_hk_and_transmit_def bnd_run andthen_run on_world_def gets_run ret_run
          prv_give_lock_run Let_def)
  qed
  show ?thesis
  proof (cases "n = 0")
    case True
    then show ?thesis
      using start s1 l(2) by (intro exI [of _ d1] exI [of _ "[]"]) simp
  next
    case False
    have pre: "\<forall>i\<in>set (page_ids (MAX_FILES ?w) n b). holds ls (view (dev (pworld ?s))) i
        (hk_fields (host (hk_ce E)) (rec i)) \<and> sized ls (rec i)"
      "fs_ok (view (dev (pworld ?s)))" "pool_ok ?s" "sized ls (zero_hk shape)"
      using r c(4) P ls(3) l(2)
      by (auto simp: pool_ok_def zero_hk_def sized_def hk_fields_def Let_def)
    from fetch_loop_run [OF R N Q cv ls(1,2) pre(1) br pre(4,2,3)] s1 l(2) show ?thesis
      using False start by auto
  qed
qed

lemma fetch_page:
  assumes R: "red_reliable (hk_fs E) view" and N: "net_ok (hk_net E) view sent" and Q: "quiet (hk_fs E) sent"
    and os: "os_ok (hk_os E) view" and mute: "\<forall>f. sent (snd (xSemaphoreCreateMutex (hk_os E) f)) = sent f"
    and cv: "cv_ok (hk_cv E)" and ls: "sizes_ok ls" "sum_list ls < 65534" "sized ls shape"
    and lk: "f_count_lock (pworld s) \<noteq> LockHeld" and cur: "cursor_ok (pworld s)"
    and ok: "fs_ok (view (dev (pworld s)))" and P: "pool_ok s"
    and n: "n = min (unat limit) (unat (MAX_FILES (pworld s)))"
    and b: "b = (if bid = 0 \<or> MAX_FILES (pworld s) < bid then current_file (pworld s) else bid)"
    and r: "\<forall>i\<in>set (page_ids (MAX_FILES (pworld s)) n b).
      holds ls (view (dev (pworld s))) i (hk_fields (host (hk_ce E)) (rec i)) \<and> sized ls (rec i)"
  shows "\<exists>d ps. fetch_historic_hk_and_transmit E shape limit bid 0 s = Inr (SUCCESS, s\<lparr>nxt := nxt s + n,
      pworld := (pworld s)\<lparr>f_count_lock := LockFree, dev := d\<rparr>\<rparr>) \<and>
    sent d = sent (dev (pworld s)) @ ps \<and> list_all2 (carries (host (hk_ce E)))
      (replies (hk_ce E) (hk_cv E) (map rec (page_ids (MAX_FILES (pworld s)) n b))) ps"
  using fetch_page_view [OF assms] by blast

theorem fetch_run:
  assumes R: "red_reliable (hk_fs E) view" and N: "net_ok (hk_net E) view sent" and Q: "quiet (hk_fs E) sent"
    and os: "os_ok (hk_os E) view" and mute: "\<forall>f. sent (snd (xSemaphoreCreateMutex (hk_os E) f)) = sent f"
    and cv: "cv_ok (hk_cv E)" and ls: "sizes_ok ls" "sum_list ls < 65534" "sized ls shape"
    and rd: "hk_ready (host (hk_ce E)) view (pworld s)" and P: "pool_ok s"
    and n: "n = min (unat limit) (unat (MAX_FILES (pworld s)))"
    and b: "b = (if bid = 0 \<or> MAX_FILES (pworld s) < bid then current_file (pworld s) else bid)"
    and r: "\<forall>i\<in>set (page_ids (MAX_FILES (pworld s)) n b).
      holds ls (view (dev (pworld s))) i (hk_fields (host (hk_ce E)) (rec i)) \<and> sized ls (rec i)"
  shows "\<exists>d ps. fetch_historic_hk_and_transmit E shape limit bid 0 s = Inr (SUCCESS, s\<lparr>nxt := nxt s + n,
      pworld := (pworld s)\<lparr>f_count_lock := LockFree, dev := d\<rparr>\<rparr>) \<and>
    sent d = sent (dev (pworld s)) @ ps \<and> list_all2 (carries (host (hk_ce E)))
      (replies (hk_ce E) (hk_cv E) (map rec (page_ids (MAX_FILES (pworld s)) n b))) ps"
  using fetch_page [OF R N Q os mute cv ls _ _ _ P n b r] rd by (simp add: hk_ready_def)

subsection \<open>The handler\<close>

theorem hk_app_get_max_files:
  assumes h: "bufs s h = Some p" and len: "4 \<le> length (pkt_data p)" and sub: "pkt_data p ! 0 = GET_MAX_FILES"
    and snd: "op_send (hk_net E) (data_packet 0 (to_bytes (host (hk_ce E)) 2
      (csp_hton16 (hk_ce E) (MAX_FILES (pworld s)))) p) (dev (pworld s)) = (ok, d)"
  shows "hk_service_app E shape h s =
    Inr (SATR_OK, s\<lparr>bufs := (bufs s)(h := None), pworld := (pworld s)\<lparr>dev := d\<rparr>\<rparr>)"
proof -
  have "pkt_data p \<noteq> []" using len by auto
  with assms show ?thesis
    by (cases ok) (simp_all add: hk_service_app_def prog_simps const_simps send_or_release_def pool_op_defs
        hk_csp_def on_dev_def Let_def)
qed

lemma hk_app_rejects:
  assumes h: "bufs s h = Some p" and len: "3 \<le> length (pkt_data p)" and sub: "pkt_data p ! 0 = SET_MAX_FILES"
    and bad: "new_max = csp_ntoh16 (hk_ce E) (cnv8_16 (host (hk_ce E)) (take 2 (drop 1 (pkt_data p))))"
      "new_max = 0 \<or> 20160 < new_max"
    and snd: "op_send (hk_net E) (status_packet (- 1) p) (dev (pworld s)) = (ok, d)"
  shows "hk_service_app E shape h s =
    Inr (SATR_OK, s\<lparr>bufs := (bufs s)(h := None), pworld := (pworld s)\<lparr>dev := d\<rparr>\<rparr>)"
proof -
  have "pkt_data p \<noteq> []" using len by auto
  with assms set_max_files_rejects [OF bad(2), of "hk_fs E" "hk_os E" "host (hk_ce E)" "pworld s"] show ?thesis
    by (cases ok) (simp_all add: hk_service_app_def prog_simps const_simps send_or_release_def pool_op_defs
        hk_csp_def on_dev_def Let_def numeral_2_eq_2)
qed

theorem hk_app_illegal:
  assumes "bufs s h = Some p" and "0 < length (pkt_data p)"
    and "pkt_data p ! 0 \<notin> {GET_HK, SET_MAX_FILES, GET_MAX_FILES}"
  shows "hk_service_app E shape h s = Inr (SATR_PKT_ILLEGAL_SUBSERVICE, s)"
proof -
  have "(bufs s)(h \<mapsto> p) = bufs s" using assms(1) by (rule fun_upd_idem)
  with assms show ?thesis
    by (auto simp: hk_service_app_def prog_simps const_simps pool_op_defs Let_def)
qed

end
