(* ===== verification/Hk_Environment.thy ===== *)
theory Hk_Environment
  imports Hk_Requests
begin

text \<open>
  A concrete environment for the housekeeping service: files in memory, an allocator that clears
  its blocks, a network that delivers every packet to a log, and a build with all devices stubbed. It
  satisfies every assumption that the theorems on the service make.
\<close>

definition ram_os :: "ramfs os_ops" where
  "ram_os = \<lparr>pvPortMalloc = (\<lambda>n f. (Some (\<lambda>_. 0), f)), xSemaphoreCreateMutex = (\<lambda>f. (True, f))\<rparr>"

definition ram_net :: "ramfs csp_ops" where
  "ram_net = \<lparr>op_send = (\<lambda>p f. (True, f\<lparr>mout := mout f @ [p]\<rparr>)),
     op_buffer_get = (\<lambda>n f. (Some \<lparr>pkt_length = 0, pkt_data = replicate n 0\<rparr>, f)),
     op_buffer_clone = (\<lambda>p f. (Some p, f))\<rparr>"

definition no_devices :: "ramfs hk_devices" where
  "no_devices = \<lparr>HAL_ADCS_getHK = None, Athena_getHK = None, EPS_getHK = None, uhf_is_busy = (\<lambda>f. (False, f)),
     UHF_getHK = None, HAL_S_getHK = None, Hyperion_config1_getHK = None, Hyperion_config3_getHK = None,
     Charon_getHK = None, HAL_DFGM_get_HK = None\<rparr>"

definition plain_cv :: hk_converters where
  "plain_cv = \<lparr>Athena_hk_convert_endianness = (\<lambda>bs. bs), prv_instantaneous_telemetry_letoh = (\<lambda>bs. bs),
     UHF_convert_endianness = (\<lambda>bs. bs), HAL_S_hk_convert_endianness = (\<lambda>bs. bs)\<rparr>"

text \<open>A little-endian host; the 32-bit conversions reverse the bytes.\<close>

definition swap32 :: "u32 \<Rightarrow> u32" where
  "swap32 x = of_bytes SYS_LITTLE_ENDIAN (rev (to_bytes SYS_LITTLE_ENDIAN 4 x))"

definition le_host :: csp_endian where
  "le_host = \<lparr>host = SYS_LITTLE_ENDIAN, csp_hton16 = htons SYS_LITTLE_ENDIAN, csp_ntoh16 = ntohs SYS_LITTLE_ENDIAN,
     csp_hton32 = swap32, csp_ntoh32 = swap32, csp_htonflt = swap32, csp_ntohflt = swap32\<rparr>"

definition ram_env :: "ramfs hk_env" where
  "ram_env = \<lparr>hk_fs = ram_ops, hk_os = ram_os, hk_net = ram_net, hk_ce = le_host, hk_cv = plain_cv\<rparr>"

definition empty_ram :: ramfs where
  "empty_ram = \<lparr>mfiles = (\<lambda>_. None), mhandles = [], merrno = 0, mout = []\<rparr>"

definition small_hk :: All_systems_housekeeping where
  "small_hk = \<lparr>hk_timeorder = \<lparr>final = 0, UNIXtimestamp = 1000, dataPosition = 0\<rparr>, adcs_hk = [1, 2],
     Athena_hk = [3], EPS_hk = [4], EPS_startup_hk = [5], UHF_hk = [6], S_band_hk = [7], hyperion_hk = [8],
     charon_hk = [9], DFGM_hk = [10]\<rparr>"

definition small_sizes :: "nat list" where
  "small_sizes = [7, 2, 1, 1, 1, 1, 1, 1, 1]"

text \<open>One record on file, and services that own these files.\<close>

definition one_record :: ramfs where
  "one_record = empty_ram\<lparr>mfiles := [fileName \<mapsto> concat (hk_fields SYS_LITTLE_ENDIAN (numbered 1 small_hk))]\<rparr>"

definition pool_with :: "'w \<Rightarrow> 'w pool" where
  "pool_with w = \<lparr>bufs = (\<lambda>_. None), nxt = 0, svc_wdt_counter = 0, pworld = w\<rparr>"

text \<open>An index of \<open>n\<close> items with one sample every 30 seconds, next to be written at \<open>cur\<close>.\<close>

definition sampled_index :: "nat \<Rightarrow> u16 \<Rightarrow> 'f \<Rightarrow> 'f hk_state" where
  "sampled_index n cur f = (hk_init f)\<lparr>MAX_FILES := of_nat n, current_file := cur, config_loaded := 1,
     hk_timestamp_array_size := of_nat n, timestamps := TsBlock (map (\<lambda>i. of_nat (1000 + 30 * i)) [0..<n + 1])\<rparr>"

lemma pool_with_ok [simp]: "pool_ok (pool_with w)"
  by (simp add: pool_ok_def pool_with_def)

lemma swap32_net: "net_order SYS_LITTLE_ENDIAN 4 swap32 swap32"
  by unfold_locales (simp_all add: swap32_def, simp_all add: to_bytes_def)

lemma le_host_ok: "csp_endian_ok le_host"
  using swap32_net htons.net_order_axioms [of SYS_LITTLE_ENDIAN]
  by (simp add: csp_endian_ok_def le_host_def)

lemma ram_os_ok: "os_ok ram_os ram_view"
  by (simp add: os_ok_def malloc_ok_def ram_os_def)

lemma no_devices_ok: "devices_ok view no_devices"
  by (simp add: devices_ok_def get_hk_ok_def no_devices_def)

lemma plain_cv_ok: "cv_ok plain_cv"
  by (simp add: cv_ok_def plain_cv_def)

lemma ram_net_ok: "net_ok ram_net ram_view mout"
  by (simp add: net_ok_def ram_net_def ram_view_def)

lemma ram_quiet: "quiet ram_ops mout"
  by (auto simp: quiet_def read_bytes_def ram_ops_def ram_open_def ram_close_def ram_read_def ram_seek_def ram_unlink_def Let_def
      split: option.splits)

lemma small_sized: "sized small_sizes small_hk" "sizes_ok small_sizes"
  by (simp_all add: sized_def small_sizes_def small_hk_def hk_fields_def sizes_ok_def)

lemma fresh_ready: "hk_ready e ram_view (hk_init empty_ram)"
  by (simp add: hk_ready_def hk_init_def cursor_ok_def fs_ok_def indexed_def ram_view_def empty_ram_def)

lemma one_record_ready: "hk_ready e ram_view (hk_init one_record)"
  by (simp add: hk_ready_def hk_init_def cursor_ok_def fs_ok_def indexed_def ram_view_def one_record_def empty_ram_def)

lemma one_record_holds:
  "holds small_sizes (ram_view one_record) 1 (hk_fields SYS_LITTLE_ENDIAN (numbered 1 small_hk))"
  by (simp add: holds_def ram_view_def one_record_def empty_ram_def offset_of_def small_sizes_def numbered_def
      hk_fields_def small_hk_def)

end
