(* ===== verification/Hk_Properties.thy ===== *)
theory Hk_Properties
  imports Hk_Environment
begin

text \<open>
  Properties of the housekeeping service that join several of its operations, and the
  instances, on the concrete environment of \<^verbatim>\<open>Hk_Environment\<close>, at which the hypotheses of its
  properties hold.
\<close>

subsection \<open>Samples\<close>

theorem samples_kept:
  assumes "red_reliable ops view" and "os_ok os view" and "devices_ok view D"
    and "sizes_ok ls" and "hk_ready e view s"
    and "\<forall>j\<in>set js. sized ls j" and "length js \<le> unat (MAX_FILES s)"
  shows "\<exists>hks s'. take_samples ops os e D js s = Inr (replicate (length js) SUCCESS, s') \<and> hk_ready e view s' \<and>
    MAX_FILES s' = MAX_FILES s \<and> current_file s' = ring (MAX_FILES s) (current_file s) (length js) \<and>
    length hks = length js \<and>
    (\<forall>i<length js. sized ls (hks ! i) \<and> hk_timeorder (hks ! i) = hk_timeorder (js ! i) \<and>
       holds ls (view (dev s')) (ring (MAX_FILES s) (current_file s) i)
         (hk_fields e (numbered (ring (MAX_FILES s) (current_file s) i) (hks ! i)))) \<and>
    (\<forall>m bss. m \<noteq> 0 \<longrightarrow> (\<forall>i<length js. m \<noteq> ring (MAX_FILES s) (current_file s) i) \<longrightarrow>
       holds ls (view (dev s)) m bss \<longrightarrow> holds ls (view (dev s')) m bss)"
  using assms by (rule take_samples_kept)

subsection \<open>Storage\<close>

text \<open>C6: The data file refines a map from numbers to records: after a run of successful writes a
  successful read returns the record last written under the number, without its EPS startup part,
  whatever else was written.\<close>

theorem record_store_history:
  assumes C: "red_posix ops view" and sz: "sizes_ok ls" and ok: "fs_ok (view (dev s))"
    and ws: "\<forall>w\<in>set ws. fst w \<noteq> 0 \<and> sized ls (snd w)" and b: "sized ls b" and n: "n \<noteq> 0"
    and E: "E = \<lparr>env_ops = ops, env_view = view, env_endian = e, env_sizes = ls\<rparr>"
    and last: "map_of (rev ws) n = Some x"
  shows "\<exists>r t. hk_store.put_all E ws s = Inr (r, t) \<and> (r = SUCCESS \<longrightarrow>
    (\<exists>r' y u. read_hk_from_file ops e n b t = Inr ((r', y), u) \<and> (r' = SUCCESS \<longrightarrow> y = keep_startup x b)))"
proof -
  have wf: "store_wf E" using C sz by (simp add: E store_wf_def)
  have "hk_store.refines E (\<lambda>_. None) s" using ok by (simp add: hk_store.refines_def store_inv_def E)
  moreover have "\<forall>w\<in>set ws. fst w \<noteq> 0 \<and> sized (env_sizes E) (snd w)" using ws by (simp add: E)
  ultimately obtain r t where p: "hk_store.put_all E ws s = Inr (r, t)"
    "r = SUCCESS \<longrightarrow> hk_store.refines E ((\<lambda>_. None) ++ map_of (rev ws)) t"
    using hk_store.put_all_refines [OF wf] by blast
  have "\<exists>r' y u. read_hk_from_file ops e n b t = Inr ((r', y), u) \<and> (r' = SUCCESS \<longrightarrow> y = keep_startup x b)"
    if "r = SUCCESS"
    using hk_store.get_refines [OF wf mp [OF p(2) that], of b n x] b n last by (auto simp: E)
  with p(1) show ?thesis by blast
qed

text \<open>C16: Reading a record that lies behind the end of the data file reports success and leaves in the
  caller the record that its buffer held before.\<close>

theorem stale_record_reported:
  assumes R: "red_reliable ops view" and ok: "fs_ok (view (dev s))" and sz: "sized ls hk" "sizes_ok ls"
    and n: "n \<noteq> 0" and c: "files (view (dev s)) fileName = Some c" "length c \<le> offset_of ls n"
  shows "\<exists>d. read_hk_from_file ops e n hk s = Inr ((SUCCESS, hk), s\<lparr>dev := d\<rparr>)"
proof -
  have C: "red_posix ops view" by (rule reliable_posix [OF R])
  from read_hk_view [OF C ok sz n, of e] obtain r y d where
    w: "read_hk_from_file ops e n hk s = Inr ((r, y), s\<lparr>dev := d\<rparr>)"
      "r = SUCCESS \<longrightarrow> files (view d) = files (view (dev s)) \<and> (\<exists>c. files (view d) fileName = Some c \<and>
         y = hk_set_fields e (read_into (offset_of ls n) c (hk_fields e hk)) hk)" by blast
  have r: "r = SUCCESS" using read_hk_reliable [OF R ok sz n, of e] c(1) w(1) by auto
  with w(2) c have "y = hk"
    by (auto simp: read_into_eof hk_set_fields_fields keep_startup_def)
  with w(1) r show ?thesis by blast
qed

theorem config_round_trip:
  assumes R: "red_reliable ops view" and M: "malloc_ok os view" and ok: "fs_ok (view (dev s))"
    and xs: "timestamps s = TsBlock xs" "length xs = unat (MAX_FILES s) + 1"
    and sz: "hk_timestamp_array_size s = MAX_FILES s" and mx: "1 \<le> MAX_FILES s" "MAX_FILES s \<le> 20160"
    and fresh: "timestamps t = TsNull" "hk_timestamp_array_size t = 0"
  shows "\<exists>d d'. store_config ops e 1 s = Inr (SUCCESS, s\<lparr>dev := d\<rparr>) \<and>
    load_config ops os e (t\<lparr>dev := d\<rparr>) = Inr (SUCCESS, t\<lparr>dev := d', MAX_FILES := MAX_FILES s,
      current_file := advance (MAX_FILES s) (current_file s), tempTime := tempTime s, timestamps := TsBlock xs,
      hk_timestamp_array_size := MAX_FILES s\<rparr>)"
proof -
  from store_config_full [OF R ok xs(1), of 1 e] xs(2) sz obtain d where
    d: "store_config ops e 1 s = Inr (SUCCESS, s\<lparr>dev := d\<rparr>)" "synced e (view d) s"
      "confined hk_config (view (dev s)) (view d)" by auto
  let ?t = "t\<lparr>dev := d\<rparr>"
  have pre: "fs_ok (view (dev ?t))" "ts_inv ?t" "unat (hk_timestamp_array_size ?t) < 65535"
    "synced e (view (dev ?t)) s" "MAX_FILES s \<noteq> 0" "unat (MAX_FILES s) < 65535"
    using ok confined_ok [OF d(3)] d(2) fresh mx by (auto simp: ts_inv_def word_le_nat_alt)
  from load_config_restores [OF R pre(1) M pre(2-4) xs pre(5,6)] obtain d' where
    "load_config ops os e ?t = Inr (SUCCESS, ?t\<lparr>MAX_FILES := MAX_FILES s,
      current_file := (if current_file s + 1 > MAX_FILES s then 1 else current_file s + 1),
      tempTime := tempTime s, timestamps := TsBlock xs, hk_timestamp_array_size := MAX_FILES s, dev := d'\<rparr>)" by blast
  with d(1) show ?thesis by (intro exI [of _ d] exI [of _ d']) (simp add: advance_def)
qed

subsection \<open>The byte order of the number of files\<close>

lemma set_max_files_decodes:
  assumes ce: "csp_endian_ok ce" and bs: "length bs = 2"
  shows "csp_ntoh16 ce (cnv8_16 (host ce) bs) = of_bytes SYS_LITTLE_ENDIAN bs"
proof -
  have n: "net_order (host ce) 2 (csp_hton16 ce) (csp_ntoh16 ce)" using ce by (simp add: csp_endian_ok_def)
  have l: "length (rev bs) = 2" using bs by simp
  have "csp_ntoh16 ce (cnv8_16 (host ce) bs) = csp_ntoh16 ce (of_bytes (host ce) (rev bs))"
    by (simp only: cnv8_16_of_bytes [OF bs])
  also have "\<dots> = of_bytes SYS_BIG_ENDIAN (rev bs)" by (rule net_order.ntoh_decode [OF n l])
  also have "\<dots> = of_bytes SYS_LITTLE_ENDIAN bs" by (simp add: of_bytes_def)
  finally show ?thesis .
qed

lemma get_max_files_encodes:
  "csp_endian_ok ce \<Longrightarrow> to_bytes (host ce) 2 (csp_hton16 ce x) = to_bytes SYS_BIG_ENDIAN 2 x"
  unfolding csp_endian_ok_def by (blast intro: net_order.wire)

text \<open>C17: SET_MAX_FILES reads its number in the opposite byte order to the one GET_MAX_FILES replies in:
  the default number of files, sent back as it was reported, is rejected.\<close>

theorem max_files_echo_rejected:
  assumes ce: "csp_endian_ok (hk_ce E)" and h: "bufs s h = Some p"
    and p: "pkt_data p = SET_MAX_FILES # to_bytes (host (hk_ce E)) 2 (csp_hton16 (hk_ce E) 20160) @ rest"
    and snd: "op_send (hk_net E) (status_packet (- 1) p) (dev (pworld s)) = (ok, d)"
  shows "hk_service_app E shape h s =
    Inr (SATR_OK, s\<lparr>bufs := (bufs s)(h := None), pworld := (pworld s)\<lparr>dev := d\<rparr>\<rparr>)"
proof -
  have tk: "take 2 (drop 1 (pkt_data p)) = to_bytes SYS_BIG_ENDIAN 2 (20160 :: u16)"
    by (simp add: p get_max_files_encodes [OF ce])
  have "csp_ntoh16 (hk_ce E) (cnv8_16 (host (hk_ce E)) (take 2 (drop 1 (pkt_data p)))) = 49230"
    unfolding tk set_max_files_decodes [OF ce length_to_bytes]
    by (simp add: to_bytes_2 of_bytes_def push_bit_eq_mult)
  then show ?thesis
    using hk_app_rejects [OF h _ _ _ _ snd] by (simp add: p SET_MAX_FILES_def)
qed


subsection \<open>Instances\<close>

lemma hk_init_sel [simp]: "MAX_FILES (hk_init f) = 20160" "current_file (hk_init f) = 1" "dev (hk_init f) = f"
  by (simp_all add: hk_init_def)

lemma ring_start: "ring 20160 1 0 = 1" "ring 20160 1 1 = 2" "ring 20160 1 2 = 3"
proof -
  have a: "advance 20160 1 = 2" "advance 20160 2 = 3" by (simp_all add: advance_def)
  show "ring 20160 1 0 = 1" by simp
  show "ring 20160 1 1 = 2" using ring_Suc [of 20160 1 0] by (simp add: a)
  show "ring 20160 1 2 = 3" using ring_Suc [of 20160 1 1] ring_Suc [of 20160 2 0] by (simp add: a flip: numeral_2_eq_2)
qed

theorem samples_kept_instance:
  "\<exists>hks s'. take_samples ram_ops ram_os SYS_LITTLE_ENDIAN no_devices [small_hk, small_hk] (hk_init empty_ram) =
     Inr ([SUCCESS, SUCCESS], s') \<and> current_file s' = 3 \<and> length hks = 2 \<and>
     holds small_sizes (ram_view (dev s')) 2 (hk_fields SYS_LITTLE_ENDIAN (numbered 2 (hks ! 1)))"
proof -
  have js: "\<forall>j\<in>set [small_hk, small_hk]. sized small_sizes j"
    "length [small_hk, small_hk] \<le> unat (MAX_FILES (hk_init empty_ram))"
    by (simp_all add: small_sized)
  have two: "length [small_hk, small_hk] = 2" "replicate 2 SUCCESS = [SUCCESS, SUCCESS]" by (simp_all add: numeral_2_eq_2)
  from samples_kept [OF ram_reliable ram_os_ok no_devices_ok small_sized(2) fresh_ready js, of SYS_LITTLE_ENDIAN]
  obtain hks s' where "take_samples ram_ops ram_os SYS_LITTLE_ENDIAN no_devices [small_hk, small_hk] (hk_init empty_ram) =
      Inr ([SUCCESS, SUCCESS], s')" "current_file s' = ring 20160 1 2" "length hks = 2"
    "\<forall>i<2. holds small_sizes (ram_view (dev s')) (ring 20160 1 i) (hk_fields SYS_LITTLE_ENDIAN (numbered (ring 20160 1 i) (hks ! i)))"
    unfolding two hk_init_sel by blast
  then show ?thesis
    unfolding ring_start by (intro exI [of _ hks] exI [of _ s']) (metis one_less_numeral_iff ring_start(2) semiring_norm(76))
qed

theorem page_transmitted_instance:
  "\<exists>d p. fetch_historic_hk_and_transmit ram_env small_hk 1 2 0 (pool_with (hk_init one_record)) =
     Inr (SUCCESS, (pool_with (hk_init one_record))\<lparr>nxt := 1, pworld := (hk_init one_record)\<lparr>f_count_lock := LockFree, dev := d\<rparr>\<rparr>) \<and>
     mout d = [p] \<and> carries SYS_LITTLE_ENDIAN (outgoing le_host plain_cv False (numbered 1 small_hk)) p"
proof -
  have sel: "hk_fs ram_env = ram_ops" "hk_os ram_env = ram_os" "hk_net ram_env = ram_net" "hk_cv ram_env = plain_cv"
    "hk_ce ram_env = le_host" "host le_host = SYS_LITTLE_ENDIAN"
    by (simp_all add: ram_env_def le_host_def)
  have pw: "pworld (pool_with w) = w" "nxt (pool_with w) = 0" for w :: "ramfs hk_state" by (simp_all add: pool_with_def)
  have mute: "\<forall>f. mout (snd (xSemaphoreCreateMutex ram_os f)) = mout f" by (simp add: ram_os_def)
  have ls: "sum_list small_sizes < 65534" by (simp add: small_sizes_def)
  have n: "(1 :: nat) = min (unat (1 :: u16)) (unat (20160 :: u16))" by simp
  have b: "(2 :: u16) = (if (2 :: u16) = 0 \<or> 20160 < (2 :: u16) then 1 else 2)" by simp
  have pg: "page_ids 20160 1 2 = [1]" by (simp add: before_def)
  have r: "\<forall>i\<in>set (page_ids 20160 1 2). holds small_sizes (ram_view one_record) i
      (hk_fields SYS_LITTLE_ENDIAN (numbered 1 small_hk)) \<and> sized small_sizes (numbered 1 small_hk)"
    using one_record_holds small_sized(1) unfolding pg by (simp add: sized_def numbered_def hk_fields_def)
  have start: "mout one_record = []" by (simp add: one_record_def empty_ram_def)
  from fetch_run [of ram_env ram_view mout small_sizes small_hk "pool_with (hk_init one_record)" 1 1 2 2
      "\<lambda>_. numbered 1 small_hk", unfolded sel pw hk_init_sel,
      OF ram_reliable ram_net_ok ram_quiet ram_os_ok mute plain_cv_ok small_sized(2) ls small_sized(1) one_record_ready
        pool_with_ok n b r]
  show ?thesis
    unfolding pg start by (auto simp: list_all2_Cons1)
qed

theorem populate_after_restart_instance:
  "\<exists>s0 s hk s'. populate_and_store_hk_data ram_ops ram_os SYS_LITTLE_ENDIAN no_devices small_hk s = Inr (SUCCESS, s') \<and>
     current_file s' = 3 \<and> s0 = (sampled_index 4 1 empty_ram :: ramfs hk_state) \<and>
     holds small_sizes (ram_view (dev s')) 2 (hk_fields SYS_LITTLE_ENDIAN (numbered 2 hk))"
proof -
  let ?old = "sampled_index 4 1 empty_ram :: ramfs hk_state"
  let ?s = "hk_init (empty_ram\<lparr>mfiles := [hk_config \<mapsto> config_image SYS_LITTLE_ENDIAN ?old]\<rparr>)"
  let ?xs = "map (\<lambda>i. of_nat (1000 + 30 * i)) [0..<4 + 1] :: u32 list"
  have 1: "f_count_lock ?s \<noteq> LockHeld" "fs_ok (ram_view (dev ?s))" "config_loaded ?s = 0" "timestamps ?s = TsNull"
      "hk_timestamp_array_size ?s = 0"
    by (simp_all add: hk_init_def fs_ok_def ram_view_def empty_ram_def)
  have "files (ram_view (dev ?s)) hk_config = Some (config_image SYS_LITTLE_ENDIAN ?old @ [])"
    by (simp add: ram_view_def)
  then have 2: "synced SYS_LITTLE_ENDIAN (ram_view (dev ?s)) ?old"
    unfolding synced_def by (rule exI)
  have 4: "cursor_ok ?old" "timestamps ?old = TsBlock ?xs" "length ?xs = unat (MAX_FILES ?old) + 1"
    by (simp_all add: sampled_index_def hk_init_def cursor_ok_def)
  have 3: "MAX_FILES ?old = 4" "current_file ?old = 1" "advance 4 1 = 2" "advance 4 2 = 3"
    by (simp_all add: sampled_index_def advance_def)
  from populate_after_restart [OF ram_reliable ram_os_ok no_devices_ok small_sized 1 2 4] obtain hk s1 s' where
    "populate_and_store_hk_data ram_ops ram_os SYS_LITTLE_ENDIAN no_devices small_hk ?s = Inr (SUCCESS, s')"
    "sampled small_sizes SYS_LITTLE_ENDIAN ram_view s1 hk s'" "MAX_FILES s1 = 4" "current_file s1 = 2"
    unfolding 3 by blast
  then show ?thesis
    by (intro exI [of _ ?old] exI [of _ ?s] exI [of _ hk] exI [of _ s']) (simp add: sampled_def 3(4))
qed

lemma one_record_file: "files (ram_view one_record) fileName =
    Some (concat (hk_fields SYS_LITTLE_ENDIAN (numbered 1 small_hk)))"
  by (simp add: ram_view_def one_record_def)

lemma fresh_fs_ok [simp]: "fs_ok (ram_view empty_ram)" "fs_ok (ram_view one_record)"
  by (simp_all add: fs_ok_def ram_view_def one_record_def empty_ram_def)

theorem record_store_history_instance:
  "\<exists>r t. hk_store.put_all \<lparr>env_ops = ram_ops, env_view = ram_view, env_endian = SYS_LITTLE_ENDIAN, env_sizes = small_sizes\<rparr>
      [(1, small_hk), (2, numbered 9 small_hk), (1, numbered 7 small_hk)] (hk_init empty_ram) = Inr (r, t) \<and>
    (r = SUCCESS \<longrightarrow> (\<exists>r' y u. read_hk_from_file ram_ops SYS_LITTLE_ENDIAN 1 small_hk t = Inr ((r', y), u) \<and>
      (r' = SUCCESS \<longrightarrow> y = numbered 7 small_hk)))"
proof -
  have 1: "fs_ok (ram_view (dev (hk_init empty_ram)))" by simp
  have 2: "\<forall>w\<in>set [(1 :: u16, small_hk), (2, numbered 9 small_hk), (1, numbered 7 small_hk)]. fst w \<noteq> 0 \<and> sized small_sizes (snd w)"
    using small_sized(1) by (simp add: sized_def numbered_def hk_fields_def)
  have 3: "map_of (rev [(1 :: u16, small_hk), (2, numbered 9 small_hk), (1, numbered 7 small_hk)]) 1 = Some (numbered 7 small_hk)"
    by simp
  have 4: "keep_startup (numbered 7 small_hk) small_hk = numbered 7 small_hk"
    by (simp add: keep_startup_def numbered_def)
  show ?thesis
    using record_store_history [OF ram_posix small_sized(2) 1 2 small_sized(1) one_neq_zero refl 3, of SYS_LITTLE_ENDIAN]
    unfolding 4 .
qed

theorem stale_record_reported_instance:
  "\<exists>d. read_hk_from_file ram_ops SYS_LITTLE_ENDIAN 2 (numbered 9 small_hk) (hk_init one_record) =
     Inr ((SUCCESS, numbered 9 small_hk), (hk_init one_record)\<lparr>dev := d\<rparr>)"
proof -
  have 1: "fs_ok (ram_view (dev (hk_init one_record)))" by simp
  have 2: "sized small_sizes (numbered 9 small_hk)"
    using small_sized(1) by (simp add: sized_def numbered_def hk_fields_def)
  have 3: "files (ram_view (dev (hk_init one_record))) fileName = Some (concat (hk_fields SYS_LITTLE_ENDIAN (numbered 1 small_hk)))"
    by (simp add: one_record_file)
  have 4: "length (concat (hk_fields SYS_LITTLE_ENDIAN (numbered 1 small_hk))) \<le> offset_of small_sizes 2"
    by (simp add: hk_fields_def numbered_def small_hk_def offset_of_def small_sizes_def)
  show ?thesis by (rule stale_record_reported [OF ram_reliable 1 2 small_sized(2) _ 3 4]) simp
qed

theorem config_round_trip_instance:
  "\<exists>d d'. store_config ram_ops SYS_LITTLE_ENDIAN 1 (sampled_index 4 4 empty_ram) =
      Inr (SUCCESS, (sampled_index 4 4 empty_ram)\<lparr>dev := d\<rparr>) \<and>
    load_config ram_ops ram_os SYS_LITTLE_ENDIAN ((hk_init empty_ram)\<lparr>dev := d\<rparr>) = Inr (SUCCESS, (hk_init empty_ram)\<lparr>dev := d',
      MAX_FILES := 4, current_file := 1, tempTime := 1000,
      timestamps := TsBlock (map (\<lambda>i. of_nat (1000 + 30 * i)) [0..<5]), hk_timestamp_array_size := 4\<rparr>)"
proof -
  let ?i = "sampled_index 4 4 empty_ram"
  have sel: "MAX_FILES ?i = 4" "current_file ?i = 4" "tempTime ?i = 1000" "hk_timestamp_array_size ?i = 4"
    "timestamps ?i = TsBlock (map (\<lambda>i. of_nat (1000 + 30 * i)) [0..<5])" "dev ?i = empty_ram"
    by (simp_all add: sampled_index_def hk_init_def)
  have adv: "advance 4 4 = 1" by (simp add: advance_def)
  have M: "malloc_ok ram_os ram_view" using ram_os_ok by (simp add: os_ok_def)
  show ?thesis
    using config_round_trip [OF ram_reliable M, of ?i "map (\<lambda>i. of_nat (1000 + 30 * i)) [0..<5]" "hk_init empty_ram" SYS_LITTLE_ENDIAN]
    unfolding sel adv by (simp add: hk_init_def)
qed

theorem max_files_echo_rejected_instance:
  "\<exists>d. hk_service_app ram_env small_hk 0 ((pool_with (hk_init empty_ram))\<lparr>bufs := [0 \<mapsto> \<lparr>pkt_length = 3,
       pkt_data = [SET_MAX_FILES, 0x4E, 0xC0]\<rparr>]\<rparr>) =
     Inr (SATR_OK, (pool_with (hk_init empty_ram))\<lparr>bufs := Map.empty, pworld := (hk_init empty_ram)\<lparr>dev := d\<rparr>\<rparr>)"
proof -
  let ?p = "\<lparr>pkt_length = 3, pkt_data = [SET_MAX_FILES, 0x4E, 0xC0]\<rparr>"
  let ?s = "(pool_with (hk_init empty_ram))\<lparr>bufs := [0 \<mapsto> ?p]\<rparr>"
  have ce: "csp_endian_ok (hk_ce ram_env)" using le_host_ok by (simp add: ram_env_def)
  have p: "pkt_data ?p = SET_MAX_FILES # to_bytes (host (hk_ce ram_env)) 2 (csp_hton16 (hk_ce ram_env) 20160) @ []"
    unfolding get_max_files_encodes [OF ce] by (simp add: to_bytes_2)
  have h: "bufs ?s 0 = Some ?p" by simp
  obtain ok d where "op_send (hk_net ram_env) (status_packet (- 1) ?p) (dev (pworld ?s)) = (ok, d)" by force
  from max_files_echo_rejected [OF ce h p this, of small_hk] show ?thesis
    by (auto simp: pool_with_def)
qed

subsection \<open>Searches\<close>

definition partial_index :: "unit hk_state" where
  "partial_index = (hk_init ())\<lparr>MAX_FILES := 4, current_file := 3, hk_timestamp_array_size := 4,
     timestamps := TsBlock [0, 1030, 1060, 0, 0]\<rparr>"

definition rotated_index :: "unit hk_state" where
  "rotated_index = (hk_init ())\<lparr>MAX_FILES := 4, current_file := 3, hk_timestamp_array_size := 4,
     timestamps := TsBlock [0, 1130, 1160, 1070, 1100]\<rparr>"

lemma rotated_sel: "search_ok rotated_index" "timestamps rotated_index = TsBlock [0, 1130, 1160, 1070, 1100]"
  "unat (current_file rotated_index) = 3" "unat (hk_timestamp_array_size rotated_index) = 4"
  by (simp_all add: search_ok_def ts_inv_def rotated_index_def hk_init_def)

lemma between_3_4: "{3..4 :: nat} = {3, 4}" "{1..<3 :: nat} = {1, 2}" "{3<..4 :: nat} = {4}" "{4<..4 :: nat} = {}"
  "{1<..<3 :: nat} = {2}" "{2<..<3 :: nat} = {}"
  by auto

lemma rotated_index_rotated: "rotated [0, 1130, 1160, 1070, 1100] 3 4"
  unfolding rotated_def between_3_4 by simp

theorem search_misses_rotated_instance:
  "get_file_id_from_timestamp 1100 rotated_index = Inr (0, rotated_index)"
  using search_misses_rotated [OF rotated_sel(1,2) refl refl, of 4] rotated_index_rotated
  by (simp add: rotated_sel(3,4))

lemma partial_sel: "search_ok partial_index" "timestamps partial_index = TsBlock [0, 1030, 1060, 0, 0]"
  "unat (current_file partial_index) = 3" "unat (hk_timestamp_array_size partial_index) = 4"
  "searchable [0, 1030, 1060, 0, 0] 3 4 = 2"
  by (simp_all add: search_ok_def ts_inv_def partial_index_def hk_init_def searchable_def)

lemma upto_2: "{1..2 :: nat} = {1, 2}" "{i<..2 :: nat} = (if i = 0 then {1, 2} else if i = 1 then {2} else {})"
  by auto

lemma partial_spaced: "spaced [0, 1030, 1060, 0, 0] 2"
  by (simp add: spaced_def upto_2)

theorem get_file_id_sound_instance:
  "\<exists>r. get_file_id_from_timestamp 1070 partial_index = Inr (r, partial_index) \<and> (r \<noteq> 0 \<longrightarrow>
    (\<exists>xs. timestamps partial_index = TsBlock xs \<and> r \<le> hk_timestamp_array_size partial_index \<and> near 1070 (xs ! unat r)))"
  by (rule get_file_id_sound [OF partial_sel(1)])

theorem get_file_id_exact_instance: "get_file_id_from_timestamp 1030 partial_index = Inr (1, partial_index)"
proof -
  have m: "2 = searchable [0, 1030, 1060, 0, 0] (unat (current_file partial_index)) (unat (hk_timestamp_array_size partial_index))"
    unfolding partial_sel ..
  show ?thesis
    using get_file_id_exact [OF partial_sel(1,2) m partial_spaced, of 1] by simp
qed

theorem get_file_id_complete_instance:
  "\<exists>r. get_file_id_from_timestamp 1050 partial_index = Inr (r, partial_index) \<and> r \<noteq> 0"
proof -
  have m: "2 = searchable [0, 1030, 1060, 0, 0] (unat (current_file partial_index)) (unat (hk_timestamp_array_size partial_index))"
    unfolding partial_sel ..
  show ?thesis
    by (rule get_file_id_complete [OF partial_sel(1,2) m spaced_ordered [OF partial_spaced], of 2])
      (simp_all add: partial_sel)
qed

theorem get_file_id_misses_newest_instance: "get_file_id_from_timestamp 1070 partial_index = Inr (0, partial_index)"
proof -
  have m: "2 = searchable [0, 1030, 1060, 0, 0] (unat (current_file partial_index)) (unat (hk_timestamp_array_size partial_index))"
    unfolding partial_sel ..
  show ?thesis
    by (rule get_file_id_misses_newest [OF partial_sel(1,2) m _ partial_spaced]) (simp_all add: partial_sel)
qed

subsection \<open>The number of files\<close>

definition stored_index :: "ramfs hk_state" where
  "stored_index = sampled_index 4 1 (empty_ram\<lparr>mfiles := [hk_config \<mapsto>
     config_image SYS_LITTLE_ENDIAN (sampled_index 4 1 empty_ram)]\<rparr>)"

lemma stored_sel: "timestamps stored_index = TsBlock (map (\<lambda>i. of_nat (1000 + 30 * i)) [0..<5])"
  "MAX_FILES stored_index = 4"
  by (simp_all add: stored_index_def sampled_index_def)

lemma stored_ready: "hk_ready SYS_LITTLE_ENDIAN ram_view stored_index"
proof -
  have "files (ram_view (dev stored_index)) hk_config = Some (config_header SYS_LITTLE_ENDIAN (sampled_index 4 1 empty_ram) @
      concat (map (to_bytes SYS_LITTLE_ENDIAN 4) (map (\<lambda>i. of_nat (1000 + 30 * i) :: u32) [0..<5])) @ [])"
    by (simp add: stored_index_def ram_view_def config_image_def items_def sampled_index_def)
  moreover have "hk_timestamp_array_size stored_index = MAX_FILES stored_index" "length [0..<5] = unat (4 :: u16) + 1"
    by (simp_all add: stored_index_def sampled_index_def)
  ultimately have "indexed SYS_LITTLE_ENDIAN (ram_view (dev stored_index)) stored_index"
    unfolding indexed_def stored_sel ts_ptr.case length_map using length_config_header by blast
  then show ?thesis
    by (simp add: hk_ready_def stored_index_def sampled_index_def cursor_ok_def hk_init_def fs_ok_def ram_view_def empty_ram_def)
qed


theorem set_max_files_grows_instance:
  "\<exists>g d. set_max_files ram_ops ram_os SYS_LITTLE_ENDIAN 6 stored_index = Inr (SUCCESS, stored_index\<lparr>MAX_FILES := 6,
     timestamps := TsBlock (resized (map (\<lambda>i. of_nat (1000 + 30 * i)) [0..<5]) 4 6 g),
     hk_timestamp_array_size := 6, f_count_lock := LockFree, dev := d\<rparr>) \<and> ram_view d = ram_view (dev stored_index)"
  using set_max_files_grows [OF ram_os_ok stored_ready stored_sel(1), of 6 ram_ops] by (simp add: stored_sel)

subsection \<open>Requests\<close>

theorem hk_app_get_max_files_instance:
  "\<exists>d. hk_service_app ram_env small_hk 0 ((pool_with (hk_init empty_ram))\<lparr>bufs := [0 \<mapsto> \<lparr>pkt_length = 1,
       pkt_data = [GET_MAX_FILES, 0, 0, 0]\<rparr>]\<rparr>) =
     Inr (SATR_OK, (pool_with (hk_init empty_ram))\<lparr>bufs := Map.empty, pworld := (hk_init empty_ram)\<lparr>dev := d\<rparr>\<rparr>) \<and>
     mout d = [\<lparr>pkt_length = 4, pkt_data = [GET_MAX_FILES, 0, 0x4E, 0xC0]\<rparr>]"
proof -
  let ?p = "\<lparr>pkt_length = 1, pkt_data = [GET_MAX_FILES, 0, 0, 0]\<rparr>"
  let ?s = "(pool_with (hk_init empty_ram))\<lparr>bufs := [0 \<mapsto> ?p]\<rparr>"
  let ?q = "data_packet 0 (to_bytes (host (hk_ce ram_env)) 2 (csp_hton16 (hk_ce ram_env) (MAX_FILES (pworld ?s)))) ?p"
  have ce: "csp_endian_ok (hk_ce ram_env)" using le_host_ok by (simp add: ram_env_def)
  have q: "?q = \<lparr>pkt_length = 4, pkt_data = [GET_MAX_FILES, 0, 0x4E, 0xC0]\<rparr>"
    unfolding get_max_files_encodes [OF ce] by (simp add: to_bytes_2 pool_with_def data_packet_def overlay_def)
  have h: "bufs ?s 0 = Some ?p" by simp
  obtain ok d where d: "op_send (hk_net ram_env) ?q (dev (pworld ?s)) = (ok, d)" by force
  then have "mout d = [?q]" by (auto simp: ram_env_def ram_net_def pool_with_def empty_ram_def)
  with hk_app_get_max_files [OF h _ _ d, of small_hk] q show ?thesis
    by (auto simp: pool_with_def)
qed

theorem hk_app_illegal_instance:
  "hk_service_app ram_env small_hk 0 ((pool_with (hk_init empty_ram))\<lparr>bufs := [0 \<mapsto> \<lparr>pkt_length = 1, pkt_data = [9]\<rparr>]\<rparr>) =
     Inr (SATR_PKT_ILLEGAL_SUBSERVICE, (pool_with (hk_init empty_ram))\<lparr>bufs := [0 \<mapsto> \<lparr>pkt_length = 1, pkt_data = [9]\<rparr>]\<rparr>)"
  by (rule hk_app_illegal) (auto simp: const_simps)

end
