(* ===== verification/Hk_Lookup.thy ===== *)
theory Hk_Lookup
  imports Hk_Properties
begin

text \<open>
  Sampling, searching and transmitting together: the index that a run of samples leaves, the
  search for the time of a sample in it, and requests for the records before a sample.
\<close>

subsection \<open>The index after a run of samples\<close>

definition index_of :: "'f hk_state \<Rightarrow> u32 list" where
  "index_of s = (case timestamps s of TsBlock xs \<Rightarrow> xs | _ \<Rightarrow> replicate (unat (MAX_FILES s) + 1) 0)"

definition time_of :: "All_systems_housekeeping \<Rightarrow> u32" where
  "time_of hk = UNIXtimestamp (hk_timeorder hk)"

lemma stamped_index: "stamped s t = (index_of s)[unat (current_file s) := t]"
  by (simp add: stamped_def index_of_def split: ts_ptr.splits)

lemma length_index_of: "hk_ready e view s \<Longrightarrow> length (index_of s) = unat (MAX_FILES s) + 1"
  by (auto simp: hk_ready_def indexed_def index_of_def split: ts_ptr.splits)

lemma sampled_block:
  assumes "hk_ready e view s" and sm: "sampled ls e view s hk s'"
  obtains xs where "timestamps s' = TsBlock xs" and "tl xs = tl (stamped s (time_of hk))"
proof -
  have "tl (items (timestamps s')) = tl (stamped s (time_of hk))" using sm by (simp add: sampled_def time_of_def)
  moreover have "0 < unat (MAX_FILES s)" using assms(1) by (auto simp: hk_ready_def cursor_ok_def word_le_nat_alt)
  then have "tl (stamped s (time_of hk)) \<noteq> []"
    using length_index_of [OF assms(1)] by (simp add: stamped_index flip: length_greater_0_conv)
  ultimately show thesis using that by (cases "timestamps s'") (auto simp: items_def)
qed

lemma sampled_nth:
  assumes "hk_ready e view s" "hk_ready e view s'" "sampled ls e view s hk s'" and m: "1 \<le> m" "m \<le> unat (MAX_FILES s)"
  shows "index_of s' ! m = (if m = unat (current_file s) then time_of hk else index_of s ! m)"
proof -
  obtain xs where xs: "timestamps s' = TsBlock xs" "tl xs = tl (stamped s (time_of hk))"
    by (rule sampled_block [OF assms(1,3)])
  obtain k where k: "m = Suc k" using m(1) by (cases m) auto
  have "MAX_FILES s' = MAX_FILES s" using assms(3) by (simp add: sampled_def)
  then have "length xs = unat (MAX_FILES s) + 1" using length_index_of [OF assms(2)] xs(1) by (simp add: index_of_def)
  then have "xs ! m = tl xs ! k" using m k by (simp add: nth_tl)
  also have "\<dots> = stamped s (time_of hk) ! m"
    using xs(2) m k length_index_of [OF assms(1)] by (simp add: nth_tl stamped_index)
  finally show ?thesis
    using m length_index_of [OF assms(1)] by (simp add: index_of_def xs(1) stamped_index)
qed

lemma take_samples_index:
  assumes R: "red_reliable ops view" and os: "os_ok os view" and D: "devices_ok view D"
    and sz: "sizes_ok ls" and rd: "hk_ready e view s"
    and js: "\<forall>j\<in>set js. sized ls j" and len: "length js \<le> unat (MAX_FILES s)"
    and run: "take_samples ops os e D js s = Inr (rs, s')"
  shows "(\<forall>i<length js. index_of s' ! unat (ring (MAX_FILES s) (current_file s) i) = time_of (js ! i)) \<and>
    (\<forall>m. 1 \<le> m \<longrightarrow> m \<le> unat (MAX_FILES s) \<longrightarrow> (\<forall>i<length js. m \<noteq> unat (ring (MAX_FILES s) (current_file s) i)) \<longrightarrow>
      index_of s' ! m = index_of s ! m) \<and>
    (js \<noteq> [] \<longrightarrow> (\<exists>xs. timestamps s' = TsBlock xs))"
  using rd js len run
proof (induction js arbitrary: s rs)
  case Nil
  then show ?case by (simp add: ret_run)
next
  case (Cons j js)
  let ?mx = "MAX_FILES s" and ?cur = "current_file s"
  have "sized ls j" using Cons.prems(2) by simp
  from populate_step [OF R os D this sz Cons.prems(1)] obtain hk s1 where
    p: "populate_and_store_hk_data ops os e D j s = Inr (SUCCESS, s1)" "hk_timeorder hk = hk_timeorder j"
      "hk_ready e view s1" "sampled ls e view s hk s1" by blast
  have mx1: "MAX_FILES s1 = ?mx" "current_file s1 = advance ?mx ?cur" using p(4) by (simp_all add: sampled_def)
  have c: "1 \<le> ?cur" "?cur \<le> ?mx" "?mx \<le> 20160" using Cons.prems(1) by (auto simp: hk_ready_def cursor_ok_def)
  have t: "time_of hk = time_of j" using p(2) by (simp add: time_of_def)
  obtain xs1 where b1: "timestamps s1 = TsBlock xs1" by (rule sampled_block [OF Cons.prems(1) p(4)])
  have "\<exists>rs1. take_samples ops os e D js s1 = Inr (rs1, s')"
    using Cons.prems(4) p(1) by (auto simp: bnd_run ret_run split: sum.splits)
  then obtain rs1 where q: "take_samples ops os e D js s1 = Inr (rs1, s')" ..
  have "\<forall>j\<in>set js. sized ls j" "length js \<le> unat (MAX_FILES s1)" using Cons.prems(2,3) mx1 by simp_all
  note ih = Cons.IH [OF p(3) this q, unfolded mx1 ring_Suc [symmetric]]
  have rg: "1 \<le> unat (ring ?mx ?cur i)" "unat (ring ?mx ?cur i) \<le> unat ?mx" for i
    using c by (auto simp: unat_ring word_le_nat_alt Suc_le_eq)
  have first: "index_of s' ! unat ?cur = time_of j"
  proof -
    have "unat ?cur \<noteq> unat (ring ?mx ?cur (Suc i))" if "i < length js" for i
      using ring_inj [OF c, of 0 "Suc i"] that Cons.prems(3) by (auto simp: word_unat_eq_iff)
    then have "index_of s' ! unat ?cur = index_of s1 ! unat ?cur" using ih rg [of 0] by simp
    then show ?thesis using sampled_nth [OF Cons.prems(1) p(3,4)] rg [of 0] t by simp
  qed
  have "index_of s' ! unat (ring ?mx ?cur i) = time_of ((j # js) ! i)" if "i < length (j # js)" for i
    using that first ih by (cases i) auto
  moreover have "index_of s' ! m = index_of s ! m"
    if "1 \<le> m" "m \<le> unat ?mx" "\<forall>i<length (j # js). m \<noteq> unat (ring ?mx ?cur i)" for m
  proof -
    have "m \<noteq> unat ?cur" "\<forall>i<length js. m \<noteq> unat (ring ?mx ?cur (Suc i))" using that(3) by force+
    then show ?thesis using ih sampled_nth [OF Cons.prems(1) p(3,4) that(1,2)] that(1,2) by auto
  qed
  moreover have "\<exists>xs. timestamps s' = TsBlock xs" using ih b1 q by (cases js) (auto simp: ret_run)
  ultimately show ?case by blast
qed

subsection \<open>Finding a sample by its time\<close>

text \<open>
  The samples that a service takes from its first start on, at times more than the threshold
  apart, are found again by their times, as long as the ring has not wrapped around.
\<close>

definition apart :: "All_systems_housekeeping list \<Rightarrow> bool" where
  "apart js \<longleftrightarrow> (\<forall>j\<in>set js. time_of j \<noteq> 0) \<and>
     (\<forall>i<length js. \<forall>k<i. unat (time_of (js ! k)) + 15 < unat (time_of (js ! i)))"

lemma sampled_search:
  assumes rd: "hk_ready e view w" and mx: "MAX_FILES w = mx" and cur: "current_file w = ring mx 1 (length js)"
    and xs: "timestamps w = TsBlock xs" and n: "length js \<le> unat mx" and k: "k < length js" and ap: "apart js"
    and here: "\<forall>i<length js. xs ! Suc i = time_of (js ! i)"
    and empty: "\<forall>m. length js < m \<longrightarrow> m \<le> unat mx \<longrightarrow> xs ! m = 0"
    and u: "u = w\<lparr>f_count_lock := l, dev := d\<rparr>"
  shows "get_file_id_from_timestamp (time_of (js ! k)) u = Inr (of_nat (Suc k), u)"
proof -
  let ?n = "length js"
  have a: "hk_timestamp_array_size w = mx" "length xs = unat mx + 1" "1 \<le> mx" "mx \<le> 20160"
    using rd xs mx by (auto simp: hk_ready_def indexed_def cursor_ok_def)
  have c: "unat (current_file u) = ?n mod unat mx + 1" "hk_timestamp_array_size u = mx" "timestamps u = TsBlock xs"
    using unat_ring [of 1 mx ?n] a(3,4) by (simp_all add: cur u a(1) xs)
  have so: "search_ok u"
    using rd xs a by (auto simp: search_ok_def ts_inv_def hk_ready_def cursor_ok_def mx u)
  have m: "?n = searchable xs (unat (current_file u)) (unat (hk_timestamp_array_size u))"
  proof (cases "?n = unat mx")
    case True
    have "js \<noteq> []" using k by (cases js) simp_all
    then have "js ! 0 \<in> set js" "xs ! Suc 0 = time_of (js ! 0)" using here by simp_all
    then have "xs ! Suc 0 \<noteq> 0" using ap by (simp add: apart_def)
    then show ?thesis using True by (simp add: searchable_def c)
  next
    case False
    then have "xs ! (?n + 1) = 0" using empty n by auto
    then show ?thesis using False n by (simp add: searchable_def c)
  qed
  have val: "xs ! i = time_of (js ! (i - 1))" if "1 \<le> i" "i \<le> ?n" for i
    using here [rule_format, of "i - 1"] that by auto
  have "spaced xs ?n"
    unfolding spaced_def
  proof (intro ballI)
    fix i j assume ij: "i \<in> {1..?n}" "j \<in> {i<..?n}"
    then have "j - 1 < ?n" "i - 1 < j - 1" by auto
    then show "unat (xs ! i) + 15 < unat (xs ! j)"
      using ap val [of i] val [of j] ij unfolding apart_def by auto
  qed
  from get_file_id_exact [OF so c(3) m this, of "Suc k"] k here show ?thesis by simp
qed

text \<open>A request by time is the request by the number that the search returns.\<close>

lemma fetch_by_time:
  assumes os: "os_ok (hk_os E) view" and lk: "f_count_lock (pworld s) \<noteq> LockHeld" and t: "t \<noteq> 0"
    and found: "\<And>d. get_file_id_from_timestamp t ((pworld s)\<lparr>f_count_lock := LockHeld, dev := d\<rparr>) =
      Inr (i, (pworld s)\<lparr>f_count_lock := LockHeld, dev := d\<rparr>)"
  shows "fetch_historic_hk_and_transmit E shape limit bid t s = fetch_historic_hk_and_transmit E shape limit i 0 s"
proof -
  from prv_get_lock_run [OF os lk] obtain d where
    "prv_get_lock (hk_os E) (pworld s) = Inr ((), (pworld s)\<lparr>f_count_lock := LockHeld, dev := d\<rparr>)" by blast
  then show ?thesis
    using t found by (simp add: fetch_historic_hk_and_transmit_def bnd_run andthen_run on_world_def ret_run gets_run
        prv_give_lock_run Let_def)
qed

subsection \<open>Pages of a run of samples\<close>

lemma ring_add: "ring mx (ring mx b i) j = ring mx b (i + j)"
  by (simp add: ring_def add.commute [of i] funpow_add)

lemma page_ids_span:
  assumes "1 \<le> b" "b \<le> mx" "mx \<le> 20160" and m: "m \<le> k"
  shows "page_ids mx m (ring mx b k) = rev (map (ring mx b) [k - m..<k])"
proof -
  have "page_ids mx m (ring mx (ring mx b (k - m)) m) = rev (map (ring mx (ring mx b (k - m))) [0..<m])"
    using ring_range [OF assms(1-3), of "k - m"] by (intro page_ids_ring assms(3)) simp_all
  also have "map (ring mx (ring mx b (k - m))) [0..<m] = map (ring mx b) [k - m..<k]"
    using m by (intro nth_equalityI) (simp_all add: ring_add)
  finally show ?thesis using m by (simp add: ring_add)
qed

lemma page_of_samples:
  assumes R: "red_reliable (hk_fs E) view" and N: "net_ok (hk_net E) view sent" and Q: "quiet (hk_fs E) sent"
    and os: "os_ok (hk_os E) view" and mute: "\<forall>f. sent (snd (xSemaphoreCreateMutex (hk_os E) f)) = sent f"
    and D: "devices_ok view D" and cv: "cv_ok (hk_cv E)"
    and ls: "sizes_ok ls" "sum_list ls < 65534" "sized ls shape"
    and w: "hk_ready (host (hk_ce E)) view w"
    and js: "\<forall>j\<in>set js. sized ls j" "length js \<le> unat (MAX_FILES w)"
  obtains hks w' where "take_samples (hk_fs E) (hk_os E) (host (hk_ce E)) D js w = Inr (replicate (length js) SUCCESS, w')"
    and "hk_ready (host (hk_ce E)) view w'" and "MAX_FILES w' = MAX_FILES w"
    and "current_file w' = ring (MAX_FILES w) (current_file w) (length js)" and "length hks = length js"
    and "\<forall>i<length js. hk_timeorder (hks ! i) = hk_timeorder (js ! i)"
    and "\<And>m k bid s. m \<le> k \<Longrightarrow> k \<le> length js \<Longrightarrow>
      ring (MAX_FILES w) (current_file w) k = (if bid = 0 \<or> MAX_FILES w < bid then current_file w' else bid) \<Longrightarrow>
      pool_ok s \<Longrightarrow> pworld s = w' \<Longrightarrow>
      \<exists>t d ps. fetch_historic_hk_and_transmit E shape (of_nat m) bid 0 s = Inr (SUCCESS, t) \<and>
        dev (pworld t) = d \<and> sent d = sent (dev w') @ ps \<and>
        list_all2 (carries (host (hk_ce E))) (replies (hk_ce E) (hk_cv E)
          (rev (map (\<lambda>i. numbered (ring (MAX_FILES w) (current_file w) i) (hks ! i)) [k - m..<k]))) ps"
proof -
  let ?e = "host (hk_ce E)" and ?mx = "MAX_FILES w" and ?cur = "current_file w" and ?n = "length js"
  let ?ring = "ring ?mx ?cur"
  have c: "1 \<le> ?cur" "?cur \<le> ?mx" "?mx \<le> 20160" using w by (auto simp: hk_ready_def cursor_ok_def)
  from take_samples_kept [OF R os D ls(1) w js] obtain hks w' where
    s: "take_samples (hk_fs E) (hk_os E) ?e D js w = Inr (replicate ?n SUCCESS, w')" "hk_ready ?e view w'"
      "MAX_FILES w' = ?mx" "current_file w' = ?ring ?n" "length hks = ?n"
      "\<forall>i<?n. sized ls (hks ! i) \<and> hk_timeorder (hks ! i) = hk_timeorder (js ! i) \<and>
         holds ls (view (dev w')) (?ring i) (hk_fields ?e (numbered (?ring i) (hks ! i)))" by blast
  then have kept: "\<forall>i<?n. sized ls (hks ! i) \<and> holds ls (view (dev w')) (?ring i) (hk_fields ?e (numbered (?ring i) (hks ! i)))"
    by blast
  define rec where "rec = (\<lambda>m. numbered m (hks ! the_inv_into {..<?n} ?ring m))"
  have "inj_on ?ring {..<?n}" using ring_inj [OF c] js(2) by (intro inj_onI) auto
  then have rec: "rec (?ring i) = numbered (?ring i) (hks ! i)" if "i < ?n" for i
    using that by (simp add: rec_def the_inv_into_f_f)
  have page: "\<exists>t d ps. fetch_historic_hk_and_transmit E shape (of_nat m) bid 0 p = Inr (SUCCESS, t) \<and>
      dev (pworld t) = d \<and> sent d = sent (dev w') @ ps \<and> list_all2 (carries ?e) (replies (hk_ce E) (hk_cv E)
        (rev (map (\<lambda>i. numbered (?ring i) (hks ! i)) [k - m..<k]))) ps"
    if m: "m \<le> k" and k: "k \<le> ?n" and b: "?ring k = (if bid = 0 \<or> ?mx < bid then current_file w' else bid)"
      and p: "pool_ok p" "pworld p = w'" for m k bid p
  proof -
    have mm: "unat (of_nat m :: u16) = m" using m k js(2) unat_u16_less [of ?mx] by (simp add: unat_of_nat)
    have ids: "page_ids ?mx m (?ring k) = rev (map ?ring [k - m..<k])" by (rule page_ids_span [OF c m])
    have recs: "map rec (page_ids ?mx m (?ring k)) = rev (map (\<lambda>i. numbered (?ring i) (hks ! i)) [k - m..<k])"
      unfolding ids using k by (simp add: rev_map [symmetric] rec)
    have rd: "f_count_lock (pworld p) \<noteq> LockHeld" "cursor_ok (pworld p)" "fs_ok (view (dev (pworld p)))"
      using s(2) p(2) by (simp_all add: hk_ready_def)
    have mn: "m = min (unat (of_nat m :: u16)) (unat (MAX_FILES (pworld p)))" using mm m k js(2) s(3) p(2) by simp
    have b': "?ring k = (if bid = 0 \<or> MAX_FILES (pworld p) < bid then current_file (pworld p) else bid)"
      using b s(3) p(2) by simp
    have r: "\<forall>i\<in>set (page_ids (MAX_FILES (pworld p)) m (?ring k)).
        holds ls (view (dev (pworld p))) i (hk_fields ?e (rec i)) \<and> sized ls (rec i)"
      using s(3) kept p(2) k by (auto simp: ids rec sized_def hk_fields_def numbered_def)
    from fetch_page [OF R N Q os mute cv ls rd p(1) mn b' r] show ?thesis
      using s(3) p(2) recs by auto
  qed
  show thesis using that [OF s(1-5) _ page] s(6) by blast
qed

text \<open>A page before the time of a sample of a first run of samples.\<close>

lemma time_of_record: "hk_timeorder a = hk_timeorder b \<Longrightarrow> time_of a = time_of b"
  by (simp add: time_of_def)

text \<open>C4: A service starts with no index and takes samples at times more than the threshold apart, at most
  one for every file. A request for the m records before the time of sample k then transmits
  exactly the samples k - m to k - 1, the newest first.\<close>

theorem samples_before_time:
  assumes R: "red_reliable (hk_fs E) view" and N: "net_ok (hk_net E) view sent" and Q: "quiet (hk_fs E) sent"
    and os: "os_ok (hk_os E) view" and mute: "\<forall>f. sent (snd (xSemaphoreCreateMutex (hk_os E) f)) = sent f"
    and D: "devices_ok view D" and cv: "cv_ok (hk_cv E)"
    and ls: "sizes_ok ls" "sum_list ls < 65534" "sized ls shape"
    and w: "hk_ready (host (hk_ce E)) view w" "current_file w = 1" "timestamps w = TsNull"
    and js: "\<forall>j\<in>set js. sized ls j" "length js \<le> unat (MAX_FILES w)" "apart js"
    and mk: "m \<le> k" "k < length js"
  shows "\<exists>hks w'. take_samples (hk_fs E) (hk_os E) (host (hk_ce E)) D js w =
      Inr (replicate (length js) SUCCESS, w') \<and>
    length hks = length js \<and> (\<forall>i<length js. hk_timeorder (hks ! i) = hk_timeorder (js ! i)) \<and>
    (\<forall>bid s. pool_ok s \<and> pworld s = w' \<longrightarrow>
      (\<exists>t d ps. fetch_historic_hk_and_transmit E shape (of_nat m) bid (time_of (js ! k)) s = Inr (SUCCESS, t) \<and>
        dev (pworld t) = d \<and> sent d = sent (dev w') @ ps \<and>
        list_all2 (carries (host (hk_ce E))) (replies (hk_ce E) (hk_cv E)
          (rev (map (\<lambda>i. numbered (ring (MAX_FILES w) 1 i) (hks ! i)) [k - m..<k]))) ps))"
proof -
  let ?mx = "MAX_FILES w" and ?n = "length js"
  have c: "(1 :: u16) \<le> 1" "1 \<le> ?mx" "?mx \<le> 20160" using w(1) by (auto simp: hk_ready_def cursor_ok_def)
  have r: "unat (ring ?mx 1 i) = Suc i" if "i < ?n" for i
    using unat_ring [OF c, of i] that js(2) by simp
  obtain hks w' where s: "take_samples (hk_fs E) (hk_os E) (host (hk_ce E)) D js w = Inr (replicate ?n SUCCESS, w')"
      "hk_ready (host (hk_ce E)) view w'" "MAX_FILES w' = ?mx" "current_file w' = ring ?mx 1 ?n" "length hks = ?n"
      "\<forall>i<?n. hk_timeorder (hks ! i) = hk_timeorder (js ! i)"
    and page: "\<And>m k bid s. m \<le> k \<Longrightarrow> k \<le> ?n \<Longrightarrow>
      ring ?mx 1 k = (if bid = 0 \<or> ?mx < bid then current_file w' else bid) \<Longrightarrow> pool_ok s \<Longrightarrow> pworld s = w' \<Longrightarrow>
      \<exists>t d ps. fetch_historic_hk_and_transmit E shape (of_nat m) bid 0 s = Inr (SUCCESS, t) \<and>
        dev (pworld t) = d \<and> sent d = sent (dev w') @ ps \<and>
        list_all2 (carries (host (hk_ce E))) (replies (hk_ce E) (hk_cv E)
          (rev (map (\<lambda>i. numbered (ring ?mx 1 i) (hks ! i)) [k - m..<k]))) ps"
    by (rule page_of_samples [OF R N Q os mute D cv ls w(1) js(1,2), unfolded w(2)]; rule that; assumption)
  from take_samples_index [OF R os D ls(1) w(1) js(1,2) s(1), unfolded w(2)] mk(2) obtain xs where
    xs: "timestamps w' = TsBlock xs" and ix: "\<forall>i<?n. index_of w' ! unat (ring ?mx 1 i) = time_of (js ! i)"
      "\<forall>m. 1 \<le> m \<longrightarrow> m \<le> unat ?mx \<longrightarrow> (\<forall>i<?n. m \<noteq> unat (ring ?mx 1 i)) \<longrightarrow> index_of w' ! m = index_of w ! m"
    by (cases js) auto
  have here: "\<forall>i<?n. xs ! Suc i = time_of (js ! i)" using ix(1) xs r by (simp add: index_of_def)
  have empty: "\<forall>m. ?n < m \<longrightarrow> m \<le> unat ?mx \<longrightarrow> xs ! m = 0"
    using ix(2) xs r by (simp add: index_of_def w(3) nth_Cons split: nat.splits)
  have t0: "time_of (js ! k) \<noteq> 0" using js(3) mk(2) by (simp add: apart_def)
  have b: "ring ?mx 1 k = of_nat (Suc k)"
    unfolding r [OF mk(2), symmetric] by simp
  have bid: "ring ?mx 1 k = (if of_nat (Suc k) = (0 :: u16) \<or> ?mx < of_nat (Suc k) then current_file w' else of_nat (Suc k))"
    using ring_range [OF c, of k] unfolding b by (auto simp: not_less)
  have "\<exists>t d ps. fetch_historic_hk_and_transmit E shape (of_nat m) i (time_of (js ! k)) p = Inr (SUCCESS, t) \<and>
        dev (pworld t) = d \<and> sent d = sent (dev w') @ ps \<and>
        list_all2 (carries (host (hk_ce E))) (replies (hk_ce E) (hk_cv E)
          (rev (map (\<lambda>i. numbered (ring ?mx 1 i) (hks ! i)) [k - m..<k]))) ps"
    if p: "pool_ok p" "pworld p = w'" for i p
  proof -
    have lk: "f_count_lock (pworld p) \<noteq> LockHeld" using s(2) p(2) by (simp add: hk_ready_def)
    have f: "get_file_id_from_timestamp (time_of (js ! k)) ((pworld p)\<lparr>f_count_lock := LockHeld, dev := d\<rparr>) =
        Inr (of_nat (Suc k), (pworld p)\<lparr>f_count_lock := LockHeld, dev := d\<rparr>)" for d
      unfolding p(2) by (rule sampled_search [OF s(2-4) xs js(2) mk(2) js(3) here empty refl])
    show ?thesis
      unfolding fetch_by_time [OF os lk t0 f] by (rule page [OF mk(1) less_imp_le [OF mk(2)] bid p])
  qed
  with s(1,5,6) show ?thesis by (intro exI [of _ hks] exI [of _ w']) blast
qed

definition later_hk :: All_systems_housekeeping where
  "later_hk = small_hk\<lparr>hk_timeorder := (hk_timeorder small_hk)\<lparr>UNIXtimestamp := 1030\<rparr>\<rparr>"

theorem samples_before_time_instance:
  "\<exists>hks w' t ps. take_samples ram_ops ram_os SYS_LITTLE_ENDIAN no_devices [small_hk, later_hk] (hk_init empty_ram) =
      Inr ([SUCCESS, SUCCESS], w') \<and> hk_timeorder (hks ! 0) = hk_timeorder small_hk \<and>
    fetch_historic_hk_and_transmit ram_env small_hk 1 0 1030 (pool_with w') = Inr (SUCCESS, t) \<and>
    mout (dev (pworld t)) = mout (dev w') @ ps \<and>
    list_all2 (carries SYS_LITTLE_ENDIAN) (replies le_host plain_cv [numbered 1 (hks ! 0)]) ps"
proof -
  have sel: "hk_fs ram_env = ram_ops" "hk_os ram_env = ram_os" "hk_net ram_env = ram_net" "hk_cv ram_env = plain_cv"
    "hk_ce ram_env = le_host" "host le_host = SYS_LITTLE_ENDIAN"
    by (simp_all add: ram_env_def le_host_def)
  let ?js = "[small_hk, later_hk]"
  have mute: "\<forall>f. mout (snd (xSemaphoreCreateMutex ram_os f)) = mout f" by (simp add: ram_os_def)
  have ls: "sum_list small_sizes < 65534" by (simp add: small_sizes_def)
  have later: "sized small_sizes later_hk" using small_sized(1) by (simp add: later_hk_def sized_def hk_fields_def)
  have js: "\<forall>j\<in>set ?js. sized small_sizes j" "length ?js \<le> unat (20160 :: u16)" "apart ?js"
    by (simp_all add: small_sized later, simp add: apart_def time_of_def later_hk_def small_hk_def less_Suc_eq)
  have two: "length ?js = 2" "replicate 2 SUCCESS = [SUCCESS, SUCCESS]" "time_of (?js ! 1) = 1030"
    by (simp_all add: numeral_2_eq_2, simp add: later_hk_def time_of_def)
  have ts: "timestamps (hk_init empty_ram) = TsNull" by (simp add: hk_init_def)
  have one: "(1 :: nat) \<le> 1" "1 < length ?js" "[1 - 1..<(1 :: nat)] = [0]" "(0 :: nat) < 2" by simp_all
  have pw: "pool_ok (pool_with w) \<and> pworld (pool_with w) = w" for w :: "ramfs hk_state" by (simp add: pool_with_def pool_ok_def)
  from samples_before_time [of ram_env ram_view mout no_devices small_sizes small_hk "hk_init empty_ram" ?js 1 1,
      unfolded sel hk_init_sel two one(3),
      OF ram_reliable ram_net_ok ram_quiet ram_os_ok mute no_devices_ok plain_cv_ok small_sized(2) ls small_sized(1)
        fresh_ready refl ts js(1) js(2) [unfolded two] js(3) one(1) one(2) [unfolded two]]
  obtain hks w' where h: "take_samples ram_ops ram_os SYS_LITTLE_ENDIAN no_devices ?js (hk_init empty_ram) =
      Inr ([SUCCESS, SUCCESS], w')" "\<forall>i<2. hk_timeorder (hks ! i) = hk_timeorder (?js ! i)"
    "\<forall>bid s. pool_ok s \<and> pworld s = w' \<longrightarrow> (\<exists>t d ps. fetch_historic_hk_and_transmit ram_env small_hk (of_nat 1) bid 1030 s = Inr (SUCCESS, t) \<and>
        dev (pworld t) = d \<and> mout d = mout (dev w') @ ps \<and> list_all2 (carries SYS_LITTLE_ENDIAN) (replies le_host plain_cv
          (rev (map (\<lambda>i. numbered (ring 20160 1 i) (hks ! i)) [0]))) ps)"
    by blast
  have "hk_timeorder (hks ! 0) = hk_timeorder small_hk" using h(2) by simp
  with h(3) [rule_format, OF pw, of 0] h(1) show ?thesis by (simp only: of_nat_1 list.map rev.simps append.simps ring_0) blast
qed

end
