(* ===== verification/Hk_History.thy ===== *)
theory Hk_History
  imports Hk_Environment
begin

text \<open>
  The housekeeping service as a state machine. Its events are samples, requests for a number of
  files, and restarts; \<^verbatim>\<open>ring_step\<close> says what each of them does to an abstract ring of
  records and to the two numbers on file that survive a restart, and \<^verbatim>\<open>ring_stops\<close> which of
  them is a fault. The code, over a reliable file system, runs through every sequence of events as
  the state machine does, and each record that the ring keeps can be read back.
\<close>

subsection \<open>Runs of a system and of its specification\<close>

text \<open>The code works off a list of events and stops at the first fault.\<close>

primrec run_events :: "('v \<Rightarrow> ('s, 'r) prog) \<Rightarrow> 'v list \<Rightarrow> ('s, 'r list) prog" where
  "run_events f [] = ret []"
| "run_events f (v # vs) = bnd (f v) (\<lambda>r. bnd (run_events f vs) (\<lambda>rs. ret (r # rs)))"

text \<open>A run of the specification ends in a state, or with \<open>None\<close> in a fault.\<close>

inductive spec_run :: "('a \<Rightarrow> 'v \<Rightarrow> 'r \<Rightarrow> 'a \<Rightarrow> bool) \<Rightarrow> ('a \<Rightarrow> 'v \<Rightarrow> bool) \<Rightarrow> 'a \<Rightarrow> 'v list \<Rightarrow> 'r list \<Rightarrow> 'a option \<Rightarrow> bool"
  for step stops where
  run_end: "spec_run step stops a [] [] (Some a)"
| run_step: "step a v r a' \<Longrightarrow> spec_run step stops a' vs rs z \<Longrightarrow> spec_run step stops a (v # vs) (r # rs) z"
| run_stop: "stops a v \<Longrightarrow> spec_run step stops a (v # vs) [] None"

text \<open>
  What a simulation has to show for one event, and what follows for a list of them. \<open>wf\<close> is what
  the operations need of their environment, \<open>ok\<close> the events they accept, and \<open>fault\<close> the fault
  with which the system answers an event at which the specification stops.
\<close>

locale simulation =
  fixes wf :: "'e \<Rightarrow> bool"
    and ok :: "'e \<Rightarrow> 'v \<Rightarrow> bool"
    and rel :: "'e \<Rightarrow> 'a \<Rightarrow> 's \<Rightarrow> bool"
    and run :: "'e \<Rightarrow> 'v \<Rightarrow> ('s, 'r) prog"
    and step :: "'a \<Rightarrow> 'v \<Rightarrow> 'r \<Rightarrow> 'a \<Rightarrow> bool"
    and stops :: "'a \<Rightarrow> 'v \<Rightarrow> bool"
    and fault :: fault
  assumes steps: "wf e \<Longrightarrow> ok e v \<Longrightarrow> rel e a s \<Longrightarrow> \<not> stops a v \<Longrightarrow>
      \<exists>r a' s'. run e v s = Inr (r, s') \<and> step a v r a' \<and> rel e a' s'"
    and faults: "wf e \<Longrightarrow> ok e v \<Longrightarrow> rel e a s \<Longrightarrow> stops a v \<Longrightarrow> run e v s = Inl fault"
begin

lemma runs:
  assumes "wf e" and "\<forall>v\<in>set vs. ok e v" and "rel e a s"
  shows "\<exists>rs z. spec_run step stops a vs rs z \<and> (case z of
      None \<Rightarrow> run_events (run e) vs s = Inl fault
    | Some a' \<Rightarrow> \<exists>s'. run_events (run e) vs s = Inr (rs, s') \<and> rel e a' s')"
  using assms(2,3)
proof (induction vs arbitrary: a s)
  case Nil
  then show ?case
    by (intro exI [of _ "[]"] exI [of _ "Some a"]) (simp add: run_end ret_run)
next
  case (Cons v vs)
  show ?case
  proof (cases "stops a v")
    case True
    with faults [OF assms(1) _ Cons.prems(2) this] Cons.prems(1) show ?thesis
      by (intro exI [of _ "[]"] exI [of _ None]) (simp add: run_stop bnd_run)
  next
    case False
    from steps [OF assms(1) _ Cons.prems(2) this] Cons.prems(1) obtain r a' s' where
      one: "run e v s = Inr (r, s')" "step a v r a'" "rel e a' s'" by auto
    from Cons.IH [OF _ one(3)] Cons.prems(1) obtain rs z where
      "spec_run step stops a' vs rs z" "case z of
        None \<Rightarrow> run_events (run e) vs s' = Inl fault
      | Some a' \<Rightarrow> \<exists>s''. run_events (run e) vs s' = Inr (rs, s'') \<and> rel e a' s''" by auto
    with one show ?thesis
      by (intro exI [of _ "r # rs"] exI [of _ z])
        (auto simp: bnd_run ret_run run_step split: option.splits)
  qed
qed

end

subsection \<open>The ring of records\<close>

text \<open>
  \<open>r_file\<close> is the number of files and of the last record on file, if there is a configuration
  file; \<open>r_loaded\<close> that the configuration was loaded since the start, and \<open>r_array\<close> that there is
  an index in memory.
\<close>

record sample_ring =
  r_limit :: u16
  r_next :: u16
  r_file :: "(u16 \<times> u16) option"
  r_loaded :: bool
  r_array :: bool
  r_kept :: "u16 \<Rightarrow> All_systems_housekeeping option"

datatype hk_event = Sample All_systems_housekeeping | Resize u16 | Restart

definition ring_start :: sample_ring where
  "ring_start = \<lparr>r_limit = 20160, r_next = 1, r_file = None, r_loaded = False, r_array = False, r_kept = Map.empty\<rparr>"

text \<open>Where the next sample goes: behind the number on file, if that is still to be loaded.\<close>

definition ring_place :: "sample_ring \<Rightarrow> u16 \<times> u16" where
  "ring_place a = (if r_loaded a then (r_limit a, r_next a) else (case r_file a of
     None \<Rightarrow> (r_limit a, r_next a)
   | Some (l, n) \<Rightarrow> (l, advance l n)))"

inductive ring_step :: "sample_ring \<Rightarrow> hk_event \<Rightarrow> Result \<Rightarrow> sample_ring \<Rightarrow> bool" where
  sample: "ring_place a = (l, n) \<Longrightarrow> hk_timeorder hk = hk_timeorder j \<Longrightarrow>
    ring_step a (Sample j) SUCCESS \<lparr>r_limit = l, r_next = advance l n, r_file = Some (l, n), r_loaded = True,
      r_array = True, r_kept = (r_kept a)(n \<mapsto> numbered n hk)\<rparr>"
| reject: "n = 0 \<or> 20160 < n \<Longrightarrow> ring_step a (Resize n) FAILURE a"
| grow: "r_limit a < n \<Longrightarrow> n \<le> 20160 \<Longrightarrow>
    ring_step a (Resize n) SUCCESS (a\<lparr>r_limit := n, r_array := True\<rparr>)"
| shrink: "\<not> r_array a \<Longrightarrow> 1 \<le> n \<Longrightarrow> n \<le> 20160 \<Longrightarrow> n \<le> r_limit a \<Longrightarrow>
    ring_step a (Resize n) SUCCESS (a\<lparr>r_limit := n, r_next := 1, r_file := Some (n, 1), r_kept := Map.empty\<rparr>)"
| restart: "ring_step a Restart SUCCESS (a\<lparr>r_limit := 20160, r_next := 1, r_loaded := False, r_array := False\<rparr>)"

fun ring_stops :: "sample_ring \<Rightarrow> hk_event \<Rightarrow> bool" where
  "ring_stops a (Resize n) = (r_array a \<and> 1 \<le> n \<and> n \<le> 20160 \<and> n \<le> r_limit a)"
| "ring_stops a _ = False"

inductive_cases sample_cases: "ring_step a (Sample j) r a'"
inductive_cases resize_cases: "ring_step a (Resize n) r a'"
inductive_cases restart_cases: "ring_step a Restart r a'"

lemmas ring_cases = sample_cases resize_cases restart_cases

inductive_cases run_nil: "spec_run step stops a [] rs z"
inductive_cases run_cons: "spec_run step stops a (v # vs) rs z"

subsection \<open>The service\<close>

definition hk_event_step ::
  "'f red_ops \<Rightarrow> 'f os_ops \<Rightarrow> endianness \<Rightarrow> 'f hk_devices \<Rightarrow> hk_event \<Rightarrow> ('f hk_state, Result) prog" where
  "hk_event_step ops os e D v = (case v of
     Sample j \<Rightarrow> populate_and_store_hk_data ops os e D j
   | Resize n \<Rightarrow> set_max_files ops os e n
   | Restart \<Rightarrow> (\<lambda>s. Inr (SUCCESS, hk_init (dev s))))"

record 'f history_env =
  h_ops :: "'f red_ops"
  h_os :: "'f os_ops"
  h_devices :: "'f hk_devices"
  h_view :: "'f \<Rightarrow> fs_view"
  h_endian :: endianness
  h_sizes :: "nat list"

definition history_wf :: "'f history_env \<Rightarrow> bool" where
  "history_wf H \<longleftrightarrow> red_reliable (h_ops H) (h_view H) \<and> os_ok (h_os H) (h_view H) \<and>
     devices_ok (h_view H) (h_devices H) \<and> sizes_ok (h_sizes H)"

definition event_ok :: "'f history_env \<Rightarrow> hk_event \<Rightarrow> bool" where
  "event_ok H v \<longleftrightarrow> (case v of Sample j \<Rightarrow> sized (h_sizes H) j | _ \<Rightarrow> True)"

text \<open>What the files hold of the ring, and what the variables do.\<close>

definition on_file :: "endianness \<Rightarrow> fs_view \<Rightarrow> u16 \<Rightarrow> u16 \<Rightarrow> bool" where
  "on_file e v l n \<longleftrightarrow> 1 \<le> n \<and> n \<le> l \<and> l \<le> 20160 \<and>
     (\<exists>(t :: u32) rest. files v hk_config = Some (to_bytes e 2 l @ to_bytes e 2 n @ to_bytes e 4 t @ rest))"

definition ring_files :: "'f history_env \<Rightarrow> sample_ring \<Rightarrow> fs_view \<Rightarrow> bool" where
  "ring_files H a v \<longleftrightarrow> fs_ok v \<and>
     (case r_file a of None \<Rightarrow> files v hk_config = None | Some (l, n) \<Rightarrow> on_file (h_endian H) v l n) \<and>
     (\<forall>n x. r_kept a n = Some x \<longrightarrow> n \<noteq> 0 \<and> sized (h_sizes H) x \<and> holds (h_sizes H) v n (hk_fields (h_endian H) x))"

definition ring_state :: "sample_ring \<Rightarrow> 'f hk_state \<Rightarrow> bool" where
  "ring_state a s \<longleftrightarrow> f_count_lock s \<noteq> LockHeld \<and> cursor_ok s \<and> slotted s \<and>
     MAX_FILES s = r_limit a \<and> current_file s = r_next a \<and>
     (config_loaded s \<noteq> 0 \<longleftrightarrow> r_loaded a) \<and> (timestamps s \<noteq> TsNull \<longleftrightarrow> r_array a)"

definition ring_rel :: "'f history_env \<Rightarrow> sample_ring \<Rightarrow> 'f hk_state \<Rightarrow> bool" where
  "ring_rel H a s \<longleftrightarrow> ring_state a s \<and> ring_files H a (h_view H (dev s))"

lemma headed_on_file: "headed e v s \<Longrightarrow> cursor_ok s \<Longrightarrow> on_file e v (MAX_FILES s) (current_file s)"
  by (auto simp: headed_def cursor_ok_def on_file_def config_header_def)

lemma ring_files_cong:
  "files v' = files v \<Longrightarrow> handles v' = handles v \<Longrightarrow> ring_files H a v' = ring_files H a v"
  by (auto simp: ring_files_def fs_ok_def on_file_def holds_def split: option.splits)

lemma slotted_inv: "slotted s \<Longrightarrow> cursor_ok s \<Longrightarrow> ts_inv s \<and> unat (hk_timestamp_array_size s) < 65535"
  by (auto simp: slotted_def cursor_ok_def ts_inv_def word_le_nat_alt split: ts_ptr.splits)

subsection \<open>One event\<close>

text \<open>The place of a sample, found with the lock held.\<close>

lemma place_run:
  assumes H: "history_wf H" and rel: "ring_state a s" "ring_files H a (h_view H (dev s))"
  shows "\<exists>s1. (if config_loaded s = 0 then bnd (load_config (h_ops H) (h_os H) (h_endian H)) (\<lambda>_. ret ()) else ret ())
      (s\<lparr>f_count_lock := LockHeld\<rparr>) = Inr ((), s1) \<and> f_count_lock s1 = LockHeld \<and> cursor_ok s1 \<and> slotted s1 \<and>
    ring_place a = (MAX_FILES s1, current_file s1) \<and> ring_files H a (h_view H (dev s1))"
proof -
  have R: "red_reliable (h_ops H) (h_view H)" and M: "malloc_ok (h_os H) (h_view H)"
    using H by (simp_all add: history_wf_def os_ok_def)
  let ?s = "s\<lparr>f_count_lock := LockHeld\<rparr>"
  have st: "cursor_ok ?s" "slotted ?s" "fs_ok (h_view H (dev ?s))"
    using rel by (simp_all add: ring_state_def ring_files_def)
  show ?thesis
  proof (cases "config_loaded s = 0")
    case False
    then show ?thesis using rel st by (intro exI [of _ ?s]) (simp add: ret_run ring_state_def ring_place_def)
  next
    case new: True
    then have l: "\<not> r_loaded a" using rel(1) by (simp add: ring_state_def)
    show ?thesis
    proof (cases "r_file a")
      case None
      then have "files (h_view H (dev ?s)) hk_config = None" using rel(2) by (simp add: ring_files_def)
      from load_config_none [OF R st(3) this, of "h_os H" "h_endian H"] obtain d where
        g: "load_config (h_ops H) (h_os H) (h_endian H) ?s = Inr (FAILURE, ?s\<lparr>dev := d\<rparr>)"
          "files (h_view H d) = files (h_view H (dev s))" "handles (h_view H d) = handles (h_view H (dev s))" by auto
      then show ?thesis
        using new l None rel ring_files_cong [OF g(2,3), of H a]
        by (intro exI [of _ "?s\<lparr>dev := d\<rparr>"]) (simp add: bnd_run ret_run ring_state_def ring_place_def)
    next
      case (Some p)
      then obtain mx n where p: "r_file a = Some (mx, n)" by (cases p) auto
      with rel(2) obtain t :: u32 and rest where on: "1 \<le> n" "n \<le> mx" "mx \<le> 20160"
        and f: "files (h_view H (dev s)) hk_config =
          Some (to_bytes (h_endian H) 2 mx @ to_bytes (h_endian H) 2 n @ to_bytes (h_endian H) 4 t @ rest)"
        by (auto simp: ring_files_def on_file_def)
      have pre: "ts_inv ?s" "unat (hk_timestamp_array_size ?s) < 65535" "files (h_view H (dev ?s)) hk_config =
          Some (to_bytes (h_endian H) 2 mx @ to_bytes (h_endian H) 2 n @ to_bytes (h_endian H) 4 t @ rest)"
        using slotted_inv [OF st(2,1)] f by simp_all
      have "mx \<noteq> 0" "unat mx < 65535" using on by (auto simp: word_le_nat_alt)
      from load_config_headed [OF R st(3) M pre this] obtain d xs where
        g: "load_config (h_ops H) (h_os H) (h_endian H) ?s = Inr (SUCCESS, ?s\<lparr>MAX_FILES := mx,
            current_file := advance mx n, tempTime := t, timestamps := TsBlock xs,
            hk_timestamp_array_size := mx, dev := d\<rparr>)"
          "files (h_view H d) = files (h_view H (dev ?s))" "handles (h_view H d) = handles (h_view H (dev ?s))"
          "length xs = unat mx + 1"
        unfolding advance_def by blast
      then show ?thesis
        using new l p rel(2) ring_files_cong [OF g(2,3), of H a] advance_range [OF on] on
        by (intro exI [of _ "?s\<lparr>MAX_FILES := mx, current_file := advance mx n, tempTime := t,
            timestamps := TsBlock xs, hk_timestamp_array_size := mx, dev := d\<rparr>"])
          (simp add: bnd_run ret_run ring_place_def cursor_ok_def slotted_def)
    qed
  qed
qed

lemma sample_runs:
  assumes H: "history_wf H" and j: "sized (h_sizes H) j" and rel: "ring_rel H a s"
  shows "\<exists>a' s'. hk_event_step (h_ops H) (h_os H) (h_endian H) (h_devices H) (Sample j) s = Inr (SUCCESS, s') \<and>
    ring_step a (Sample j) SUCCESS a' \<and> ring_rel H a' s'"
proof -
  let ?e = "h_endian H" and ?ls = "h_sizes H" and ?v = "h_view H"
  have R: "red_reliable (h_ops H) ?v" and os: "os_ok (h_os H) ?v" and M: "malloc_ok (h_os H) ?v"
    and D: "devices_ok ?v (h_devices H)" and so: "sizes_ok ?ls"
    using H by (simp_all add: history_wf_def os_ok_def)
  have "f_count_lock s \<noteq> LockHeld" using rel by (simp add: ring_rel_def ring_state_def)
  from populate_run [OF os D j this, of "h_ops H" ?e] obtain hk d where
    p: "populate_and_store_hk_data (h_ops H) (h_os H) ?e (h_devices H) j s =
        andthen (if config_loaded s = 0 then bnd (load_config (h_ops H) (h_os H) ?e) (\<lambda>_. ret ()) else ret ())
          (store_sample (h_ops H) (h_os H) ?e hk) (s\<lparr>f_count_lock := LockHeld, dev := d\<rparr>)"
      "sized ?ls hk" "hk_timeorder hk = hk_timeorder j" "?v d = ?v (dev s)" by blast
  have "ring_state a (s\<lparr>dev := d\<rparr>)" "ring_files H a (?v (dev (s\<lparr>dev := d\<rparr>)))"
    using rel p(4) by (simp_all add: ring_rel_def ring_state_def)
  moreover have lk: "s\<lparr>dev := d, f_count_lock := LockHeld\<rparr> = s\<lparr>f_count_lock := LockHeld, dev := d\<rparr>" by simp
  ultimately obtain s1 where
    g: "(if config_loaded s = 0 then bnd (load_config (h_ops H) (h_os H) ?e) (\<lambda>_. ret ()) else ret ())
        (s\<lparr>f_count_lock := LockHeld, dev := d\<rparr>) = Inr ((), s1)"
    and s1: "f_count_lock s1 = LockHeld" "cursor_ok s1" "slotted s1" "ring_place a = (MAX_FILES s1, current_file s1)"
      "ring_files H a (?v (dev s1))"
    using place_run [OF H, of a "s\<lparr>dev := d\<rparr>"] unfolding lk by auto
  let ?l = "MAX_FILES s1" and ?n = "current_file s1"
  have ok: "fs_ok (?v (dev s1))" and n: "1 \<le> ?n" "?n \<le> ?l" "?l \<le> 20160" "?n \<noteq> 0"
    using s1(2,5) by (auto simp: ring_files_def cursor_ok_def)
  from store_sample_run [OF R M ok p(2) so s1(2,3,1), of ?e] obtain ys d' where
    st: "store_sample (h_ops H) (h_os H) ?e hk s1 = Inr (SUCCESS, s1\<lparr>config_loaded := 1, timestamps := TsBlock ys,
        hk_timestamp_array_size := ?l, current_file := advance ?l ?n, f_count_lock := LockFree, dev := d'\<rparr>)"
        (is "_ = Inr (_, ?t)")
      "length ys = unat ?l + 1" "headed ?e (?v d') (s1\<lparr>timestamps := TsBlock ys\<rparr>)" "fs_ok (?v d')"
      "files (?v d') fileName = Some (put (offset_of ?ls ?n) (concat (hk_fields ?e (numbered ?n hk)))
        (contents (?v (dev s1)) fileName))"
    unfolding numbered_def by blast
  let ?a = "\<lparr>r_limit = ?l, r_next = advance ?l ?n, r_file = Some (?l, ?n), r_loaded = True, r_array = True,
    r_kept = (r_kept a)(?n \<mapsto> numbered ?n hk)\<rparr>"
  have fit: "sized ?ls (numbered ?n hk)" using p(2) by (simp add: sized_def hk_fields_def numbered_def)
  have len: "map length (hk_fields ?e (numbered ?n hk)) = ?ls" by (rule sizedD [OF fit])
  have "cursor_ok (s1\<lparr>timestamps := TsBlock ys\<rparr>)" using s1(2) by (simp add: cursor_ok_def)
  from headed_on_file [OF st(3) this] have "on_file ?e (?v d') ?l ?n" by simp
  then have "ring_files H ?a (?v d')"
    using st(4) s1(5) n(4) fit put_holds [OF st(5) len so] put_holds_other [OF _ st(5) len n(4)]
    by (auto simp: ring_files_def)
  moreover have "ring_state ?a ?t"
    using st(2) advance_range [OF n(1-3)] n by (simp add: ring_state_def cursor_ok_def slotted_def)
  ultimately have "ring_rel H ?a ?t" by (simp add: ring_rel_def)
  moreover have "hk_event_step (h_ops H) (h_os H) ?e (h_devices H) (Sample j) s = Inr (SUCCESS, ?t)"
    using p(1) g st(1) by (simp add: hk_event_step_def andthen_run)
  ultimately show ?thesis
    using ring_step.sample [OF s1(4) p(3)] by blast
qed

lemma resize_runs:
  assumes H: "history_wf H" and rel: "ring_rel H a s" and go: "\<not> ring_stops a (Resize n)"
  shows "\<exists>r a' s'. hk_event_step (h_ops H) (h_os H) (h_endian H) (h_devices H) (Resize n) s = Inr (r, s') \<and>
    ring_step a (Resize n) r a' \<and> ring_rel H a' s'"
proof -
  let ?e = "h_endian H" and ?v = "h_view H"
  have R: "red_reliable (h_ops H) ?v" and os: "os_ok (h_os H) ?v" using H by (simp_all add: history_wf_def)
  have s: "f_count_lock s \<noteq> LockHeld" "slotted s" "cursor_ok s" "MAX_FILES s = r_limit a" "MAX_FILES s \<le> 20160"
    and f: "ring_files H a (?v (dev s))" and ok: "fs_ok (?v (dev s))"
    using rel by (auto simp: ring_rel_def ring_state_def cursor_ok_def ring_files_def)
  have "1 \<le> n" if "n \<noteq> 0" using that by (simp add: word_le_nat_alt unat_gt_0 Suc_leI)
  then consider (bad) "n = 0 \<or> 20160 < n" | (more) "r_limit a < n" "n \<le> 20160" | (less) "1 \<le> n" "n \<le> 20160" "n \<le> r_limit a"
    by (metis not_le)
  then show ?thesis
  proof cases
    case bad
    with set_max_files_rejects [OF bad, of "h_ops H" "h_os H" ?e s] rel reject [OF bad, of a] show ?thesis
      by (auto simp: hk_event_step_def)
  next
    case more
    with set_max_files_grow_run [OF os s(1-3), of n "h_ops H" ?e] s(4) obtain g d where
      run: "set_max_files (h_ops H) (h_os H) ?e n s = Inr (SUCCESS, s\<lparr>MAX_FILES := n,
        timestamps := TsBlock (resized (items (timestamps s)) (unat (hk_timestamp_array_size s)) (unat n) g),
        hk_timestamp_array_size := n, f_count_lock := LockFree, dev := d\<rparr>)" "?v d = ?v (dev s)" by auto
    have "ring_rel H (a\<lparr>r_limit := n, r_array := True\<rparr>) (s\<lparr>MAX_FILES := n,
        timestamps := TsBlock (resized (items (timestamps s)) (unat (hk_timestamp_array_size s)) (unat n) g),
        hk_timestamp_array_size := n, f_count_lock := LockFree, dev := d\<rparr>)"
      using rel more run(2) by (auto simp: ring_rel_def ring_state_def ring_files_def cursor_ok_def slotted_def)
    with grow [OF more] run(1) show ?thesis by (auto simp: hk_event_step_def)
  next
    case less
    with go have arr: "\<not> r_array a" by simp
    then have ts: "timestamps s = TsNull" using rel by (simp add: ring_rel_def ring_state_def)
    from set_max_files_fresh [OF R os s(1) ok ts less(1) _ s(5), of ?e] less(3) s(4) obtain d where
      run: "set_max_files (h_ops H) (h_os H) ?e n s = Inr (SUCCESS, s\<lparr>MAX_FILES := n, current_file := 1,
        hk_timestamp_array_size := 0, f_count_lock := LockFree, dev := d\<rparr>)"
      "headed ?e (?v d) (s\<lparr>MAX_FILES := n, current_file := 1\<rparr>)" "fs_ok (?v d)" by auto
    have "cursor_ok (s\<lparr>MAX_FILES := n, current_file := 1\<rparr>)" using less s(4,5) by (auto simp: cursor_ok_def)
    from headed_on_file [OF run(2) this]
    have "ring_rel H (a\<lparr>r_limit := n, r_next := 1, r_file := Some (n, 1), r_kept := Map.empty\<rparr>)
        (s\<lparr>MAX_FILES := n, current_file := 1, hk_timestamp_array_size := 0, f_count_lock := LockFree, dev := d\<rparr>)"
      using rel less s(4,5) ts run(3) by (auto simp: ring_rel_def ring_state_def ring_files_def cursor_ok_def slotted_def)
    with shrink [OF arr less] run(1) show ?thesis by (auto simp: hk_event_step_def)
  qed
qed

lemma restart_runs:
  assumes "ring_rel H a s"
  shows "\<exists>a' s'. hk_event_step ops os e D Restart s = Inr (SUCCESS, s') \<and> ring_step a Restart SUCCESS a' \<and> ring_rel H a' s'"
proof -
  have "ring_rel H (a\<lparr>r_limit := 20160, r_next := 1, r_loaded := False, r_array := False\<rparr>) (hk_init (dev s))"
    using assms by (simp add: ring_rel_def ring_state_def ring_files_def hk_init_def cursor_ok_def slotted_def)
  then show ?thesis using restart [of a] by (auto simp: hk_event_step_def)
qed

interpretation hk_ring: simulation history_wf event_ok ring_rel
  "\<lambda>H. hk_event_step (h_ops H) (h_os H) (h_endian H) (h_devices H)" ring_step ring_stops UseAfterFree
proof
  fix H :: "'f history_env" and v a and s :: "'f hk_state"
  assume H: "history_wf H" and ok: "event_ok H v" and rel: "ring_rel H a s" and go: "\<not> ring_stops a v"
  show "\<exists>r a' s'. hk_event_step (h_ops H) (h_os H) (h_endian H) (h_devices H) v s = Inr (r, s') \<and>
      ring_step a v r a' \<and> ring_rel H a' s'"
  proof (cases v)
    case (Sample j)
    with sample_runs [OF H _ rel, of j] ok show ?thesis by (auto simp: event_ok_def)
  next
    case (Resize n)
    with resize_runs [OF H rel, of n] go show ?thesis by simp
  next
    case Restart
    with restart_runs [OF rel] show ?thesis by blast
  qed
next
  fix H :: "'f history_env" and v a and s :: "'f hk_state"
  assume H: "history_wf H" and rel: "ring_rel H a s" and stop: "ring_stops a v"
  then obtain n where n: "v = Resize n" "r_array a" "1 \<le> n" "n \<le> r_limit a" by (cases v) auto
  from H have R: "red_reliable (h_ops H) (h_view H)" and os: "os_ok (h_os H) (h_view H)"
    by (simp_all add: history_wf_def)
  from rel n have s: "f_count_lock s \<noteq> LockHeld" "fs_ok (h_view H (dev s))" "n \<le> MAX_FILES s" "MAX_FILES s \<le> 20160"
    "slotted s" "timestamps s \<noteq> TsNull"
    by (auto simp: ring_rel_def ring_state_def ring_files_def cursor_ok_def)
  then obtain xs where "timestamps s = TsBlock xs" by (auto simp: slotted_def split: ts_ptr.splits)
  from set_max_files_frees [OF R os s(1,2) this n(3) s(3,4)]
  show "hk_event_step (h_ops H) (h_os H) (h_endian H) (h_devices H) v s = Inl UseAfterFree"
    by (simp add: hk_event_step_def n(1))
qed

subsection \<open>Histories\<close>

text \<open>
  The ring stays a ring: the number of the next record is in range, and a record that is kept
  carries its own number.
\<close>

definition ring_ok :: "sample_ring \<Rightarrow> bool" where
  "ring_ok a \<longleftrightarrow> 1 \<le> r_next a \<and> r_next a \<le> r_limit a \<and> r_limit a \<le> 20160 \<and>
     (case r_file a of None \<Rightarrow> True | Some (l, n) \<Rightarrow> 1 \<le> n \<and> n \<le> l \<and> l \<le> 20160) \<and>
     (\<forall>n x. r_kept a n = Some x \<longrightarrow> 1 \<le> n \<and> n \<le> 20160 \<and> dataPosition (hk_timeorder x) = n)"

lemma ring_start_ok: "ring_ok ring_start"
  by (simp add: ring_ok_def ring_start_def)

lemma ring_place_range: "ring_ok a \<Longrightarrow> ring_place a = (l, n) \<Longrightarrow> 1 \<le> n \<and> n \<le> l \<and> l \<le> 20160"
  using advance_range by (auto simp: ring_ok_def ring_place_def split: if_splits option.splits)

lemma ring_step_ok: "ring_step a v r a' \<Longrightarrow> ring_ok a \<Longrightarrow> ring_ok a'"
proof (induction rule: ring_step.induct)
  case (sample a l n hk j)
  note p = ring_place_range [OF sample(3,1)]
  with advance_range [of n l] sample(3) show ?case by (auto simp: ring_ok_def numbered_def)
qed (auto simp: ring_ok_def)

lemma ring_run_ok: "spec_run ring_step stops a vs rs z \<Longrightarrow> ring_ok a \<Longrightarrow> z = Some a' \<Longrightarrow> ring_ok a'"
  by (induction rule: spec_run.induct) (auto dest: ring_step_ok)

lemma start_rel:
  "fs_ok (h_view H f) \<Longrightarrow> files (h_view H f) hk_config = None \<Longrightarrow> ring_rel H ring_start (hk_init f)"
  by (simp add: ring_rel_def ring_state_def ring_files_def ring_start_def hk_init_def cursor_ok_def slotted_def)

text \<open>What the ring keeps can be loaded.\<close>

lemma kept_loads:
  assumes "history_wf H" and "ring_rel H a s" and "r_kept a n = Some x" and "sized (h_sizes H) b"
  shows "\<exists>t. load_historic_hk_data (h_ops H) (h_endian H) n b s = Inr ((SUCCESS, keep_startup x b), t)"
proof -
  from assms(1) have R: "red_reliable (h_ops H) (h_view H)" and so: "sizes_ok (h_sizes H)"
    by (simp_all add: history_wf_def)
  from assms(2,3) have "fs_ok (h_view H (dev s))" "n \<noteq> 0"
    "holds (h_sizes H) (h_view H (dev s)) n (hk_fields (h_endian H) x)"
    by (auto simp: ring_rel_def ring_files_def)
  from load_run [OF R this(1) assms(4) so this(2,3)] show ?thesis by blast
qed

lemma history_runs:
  assumes R: "red_reliable ops view" and os: "os_ok os view" and D: "devices_ok view D" and sz: "sizes_ok ls"
    and vs: "\<forall>j. Sample j \<in> set vs \<longrightarrow> sized ls j"
    and start: "fs_ok (view f)" "files (view f) hk_config = None"
  shows "\<exists>rs z. spec_run ring_step ring_stops ring_start vs rs z \<and> (case z of
      None \<Rightarrow> run_events (hk_event_step ops os e D) vs (hk_init f) = Inl UseAfterFree
    | Some a \<Rightarrow> \<exists>s. run_events (hk_event_step ops os e D) vs (hk_init f) = Inr (rs, s) \<and>
        f_count_lock s \<noteq> LockHeld \<and> MAX_FILES s = r_limit a \<and> current_file s = r_next a \<and> ring_ok a \<and>
        (\<forall>n x b. r_kept a n = Some x \<longrightarrow> sized ls b \<longrightarrow>
           (\<exists>t. load_historic_hk_data ops e n b s = Inr ((SUCCESS, keep_startup x b), t))))"
proof -
  let ?H = "\<lparr>h_ops = ops, h_os = os, h_devices = D, h_view = view, h_endian = e, h_sizes = ls\<rparr>"
  have H: "history_wf ?H" using R os D sz by (simp add: history_wf_def)
  have ok: "\<forall>v\<in>set vs. event_ok ?H v" using vs by (auto simp: event_ok_def split: hk_event.splits)
  have rel: "ring_rel ?H ring_start (hk_init f)" using start by (intro start_rel) simp_all
  from hk_ring.runs [OF H ok rel] obtain rs z where
    run: "spec_run ring_step ring_stops ring_start vs rs z" "case z of
      None \<Rightarrow> run_events (hk_event_step ops os e D) vs (hk_init f) = Inl UseAfterFree
    | Some a \<Rightarrow> \<exists>s. run_events (hk_event_step ops os e D) vs (hk_init f) = Inr (rs, s) \<and> ring_rel ?H a s"
    by (simp only: history_env.simps) blast
  show ?thesis
  proof (intro exI conjI)
    show "case z of
      None \<Rightarrow> run_events (hk_event_step ops os e D) vs (hk_init f) = Inl UseAfterFree
    | Some a \<Rightarrow> \<exists>s. run_events (hk_event_step ops os e D) vs (hk_init f) = Inr (rs, s) \<and>
        f_count_lock s \<noteq> LockHeld \<and> MAX_FILES s = r_limit a \<and> current_file s = r_next a \<and> ring_ok a \<and>
        (\<forall>n x b. r_kept a n = Some x \<longrightarrow> sized ls b \<longrightarrow>
           (\<exists>t. load_historic_hk_data ops e n b s = Inr ((SUCCESS, keep_startup x b), t)))"
    proof (cases z)
      case (Some a)
      with run(2) obtain s where s: "run_events (hk_event_step ops os e D) vs (hk_init f) = Inr (rs, s)" "ring_rel ?H a s"
        by auto
      then show ?thesis
        using Some kept_loads [OF H s(2)] ring_run_ok [OF run(1) ring_start_ok Some]
        by (auto simp: ring_rel_def ring_state_def)
    qed (use run(2) in simp)
  qed (rule run(1))
qed

text \<open>C1: From the first start on, whatever samples, requests for a number of files and restarts follow
  each other, the housekeeping service behaves as the ring of records of the state machine: it
  answers each event as the ring does, has its number of files and its next number, and each
  record that the ring keeps is loaded from the data file, under the number that it carries. The
  only fault is a use after free, and it occurs where the ring stops.\<close>

theorem hk_history:
  assumes R: "red_reliable ops view" and os: "os_ok os view" and D: "devices_ok view D" and sz: "sizes_ok ls"
    and vs: "\<forall>j. Sample j \<in> set vs \<longrightarrow> sized ls j"
    and start: "fs_ok (view f)" "files (view f) hk_config = None"
  shows "\<exists>rs z. spec_run ring_step ring_stops ring_start vs rs z \<and> (case z of
      None \<Rightarrow> run_events (hk_event_step ops os e D) vs (hk_init f) = Inl UseAfterFree
    | Some a \<Rightarrow> \<exists>s. run_events (hk_event_step ops os e D) vs (hk_init f) = Inr (rs, s) \<and>
        f_count_lock s \<noteq> LockHeld \<and> MAX_FILES s = r_limit a \<and> current_file s = r_next a \<and> ring_ok a \<and>
        (\<forall>n x b. r_kept a n = Some x \<longrightarrow> sized ls b \<longrightarrow>
           (\<exists>t. load_historic_hk_data ops e n b s = Inr ((SUCCESS, keep_startup x b), t))))"
  using assms by (rule history_runs)

text \<open>
  The events alone decide the answers and where a run stops; only the contents of the records are
  left open.
\<close>

definition alike :: "sample_ring \<Rightarrow> sample_ring \<Rightarrow> bool" where
  "alike a b \<longleftrightarrow> r_limit b = r_limit a \<and> r_next b = r_next a \<and> r_file b = r_file a \<and>
     r_loaded b = r_loaded a \<and> r_array b = r_array a \<and> (\<forall>n. r_kept b n = None \<longleftrightarrow> r_kept a n = None)"

lemma alike_place: "alike a b \<Longrightarrow> ring_place b = ring_place a"
  by (simp add: alike_def ring_place_def split: option.splits)

lemma alike_stops: "alike a b \<Longrightarrow> ring_stops b v = ring_stops a v"
  by (cases v) (auto simp: alike_def)

lemma step_not_stopped: "ring_step a v r a' \<Longrightarrow> \<not> ring_stops a v"
  by (induction rule: ring_step.induct) (auto simp: word_less_nat_alt word_le_nat_alt)

lemma alike_step:
  "ring_step a v r a' \<Longrightarrow> ring_step b v r' b' \<Longrightarrow> alike a b \<Longrightarrow> r' = r \<and> alike a' b'"
proof (induction rule: ring_step.induct)
  case (sample a l n hk j)
  with alike_place [OF sample(4)] show ?case by (auto simp: alike_def elim!: sample_cases)
next
  case (reject n a)
  then show ?case by (auto simp: word_less_nat_alt word_le_nat_alt elim!: resize_cases)
next
  case (grow a n)
  then show ?case
    by (auto simp: alike_def word_less_nat_alt word_le_nat_alt elim!: resize_cases)
next
  case (shrink a n)
  then show ?case
    by (auto simp: alike_def word_less_nat_alt word_le_nat_alt elim!: resize_cases)
next
  case (restart a)
  then show ?case by (auto simp: alike_def elim!: restart_cases)
qed

lemma alike_runs:
  "spec_run ring_step ring_stops a vs rs z \<Longrightarrow> spec_run ring_step ring_stops b vs rs' z' \<Longrightarrow> alike a b \<Longrightarrow>
   rs' = rs \<and> rel_option alike z z'"
proof (induction arbitrary: b rs' rule: spec_run.induct)
  case (run_end a)
  then show ?case by (auto elim: run_nil)
next
  case (run_step a v r a' vs rs z)
  have "\<not> ring_stops b v"
    using alike_stops [OF run_step.prems(2)] step_not_stopped [OF run_step.hyps(1)] by simp
  with run_step.prems(1) obtain b' r' rs2 where
    s: "ring_step b v r' b'" "spec_run ring_step ring_stops b' vs rs2 z'" "rs' = r' # rs2"
    by (auto elim: run_cons)
  from alike_step [OF run_step.hyps(1) s(1) run_step.prems(2)] run_step.IH [OF s(2)] s(3) show ?case by simp
next
  case (run_stop a v vs)
  have "ring_stops b v" using alike_stops [OF run_stop.prems(2)] run_stop.hyps by simp
  with run_stop.prems(1) show ?case by (auto elim: run_cons dest: step_not_stopped)
qed

text \<open>So one run of the ring shows what every run of the code over these events does.\<close>

lemma history_ends:
  assumes R: "red_reliable ops view" and os: "os_ok os view" and D: "devices_ok view D" and sz: "sizes_ok ls"
    and vs: "\<forall>j. Sample j \<in> set vs \<longrightarrow> sized ls j"
    and start: "fs_ok (view f)" "files (view f) hk_config = None"
    and run: "spec_run ring_step ring_stops ring_start vs rs (Some a)"
  shows "\<exists>s. run_events (hk_event_step ops os e D) vs (hk_init f) = Inr (rs, s) \<and>
    MAX_FILES s = r_limit a \<and> current_file s = r_next a \<and>
    (\<forall>n b. r_kept a n \<noteq> None \<longrightarrow> sized ls b \<longrightarrow> (\<exists>x t. dataPosition (hk_timeorder x) = n \<and>
       load_historic_hk_data ops e n b s = Inr ((SUCCESS, keep_startup x b), t)))"
proof -
  from history_runs [OF R os D sz vs start, of e] obtain rs' z where
    h: "spec_run ring_step ring_stops ring_start vs rs' z" "case z of
      None \<Rightarrow> run_events (hk_event_step ops os e D) vs (hk_init f) = Inl UseAfterFree
    | Some a \<Rightarrow> \<exists>s. run_events (hk_event_step ops os e D) vs (hk_init f) = Inr (rs', s) \<and>
        f_count_lock s \<noteq> LockHeld \<and> MAX_FILES s = r_limit a \<and> current_file s = r_next a \<and> ring_ok a \<and>
        (\<forall>n x b. r_kept a n = Some x \<longrightarrow> sized ls b \<longrightarrow>
           (\<exists>t. load_historic_hk_data ops e n b s = Inr ((SUCCESS, keep_startup x b), t)))" by blast
  have "alike ring_start ring_start" by (simp add: alike_def)
  from alike_runs [OF run h(1) this] obtain a' where a': "rs' = rs" "z = Some a'" "alike a a'"
    by (auto simp: option_rel_Some1)
  with h(2) obtain s where s: "run_events (hk_event_step ops os e D) vs (hk_init f) = Inr (rs, s)"
    "MAX_FILES s = r_limit a" "current_file s = r_next a" "ring_ok a'"
    "\<forall>n x b. r_kept a' n = Some x \<longrightarrow> sized ls b \<longrightarrow>
       (\<exists>t. load_historic_hk_data ops e n b s = Inr ((SUCCESS, keep_startup x b), t))"
    by (auto simp: alike_def)
  have "\<exists>x t. dataPosition (hk_timeorder x) = n \<and> load_historic_hk_data ops e n b s = Inr ((SUCCESS, keep_startup x b), t)"
    if kept: "r_kept a n \<noteq> None" and fit: "sized ls b" for n b
  proof -
    from kept a'(3) have "r_kept a' n \<noteq> None" by (simp add: alike_def)
    then obtain x where x: "r_kept a' n = Some x" by blast
    then have "dataPosition (hk_timeorder x) = n" using s(4) by (simp add: ring_ok_def)
    moreover obtain t where "load_historic_hk_data ops e n b s = Inr ((SUCCESS, keep_startup x b), t)"
      using s(5) x fit by blast
    ultimately show ?thesis by blast
  qed
  with s(1-3) show ?thesis by blast
qed

subsection \<open>Two histories\<close>

lemma advance_2: "2 \<le> l \<Longrightarrow> advance l 1 = 2"
  by (simp add: advance_def not_less)

definition resized_once :: "u16 \<Rightarrow> sample_ring" where
  "resized_once n = ring_start\<lparr>r_limit := n, r_next := 1, r_file := Some (n, 1), r_kept := Map.empty\<rparr>"

definition sampled_once :: "u16 \<Rightarrow> All_systems_housekeeping \<Rightarrow> sample_ring" where
  "sampled_once n j = \<lparr>r_limit = n, r_next = advance n (advance n 1), r_file = Some (n, advance n 1),
     r_loaded = True, r_array = True, r_kept = [advance n 1 \<mapsto> numbered (advance n 1) j]\<rparr>"

lemma first_steps:
  assumes "1 \<le> n" "n \<le> 20160"
  shows "ring_step ring_start (Resize n) SUCCESS (resized_once n)"
    and "ring_step (resized_once n) (Sample j) SUCCESS (sampled_once n j)"
proof -
  show "ring_step ring_start (Resize n) SUCCESS (resized_once n)"
    using assms unfolding resized_once_def by (intro shrink) (simp_all add: ring_start_def)
  show "ring_step (resized_once n) (Sample j) SUCCESS (sampled_once n j)"
    using sample [of "resized_once n" n "advance n 1" j j]
    by (simp add: ring_place_def resized_once_def sampled_once_def ring_start_def)
qed



subsection \<open>Instances\<close>

lemma empty_start: "fs_ok (ram_view empty_ram)" "files (ram_view empty_ram) hk_config = None"
  by (simp_all add: fs_ok_def ram_view_def empty_ram_def)

theorem hk_history_instance:
  "\<exists>rs z. spec_run ring_step ring_stops ring_start [Sample small_hk, Resize 20160] rs z \<and> (case z of
      None \<Rightarrow> run_events (hk_event_step ram_ops ram_os SYS_LITTLE_ENDIAN no_devices) [Sample small_hk, Resize 20160]
        (hk_init empty_ram) = Inl UseAfterFree
    | Some a \<Rightarrow> \<exists>s. run_events (hk_event_step ram_ops ram_os SYS_LITTLE_ENDIAN no_devices) [Sample small_hk, Resize 20160]
        (hk_init empty_ram) = Inr (rs, s) \<and>
        f_count_lock s \<noteq> LockHeld \<and> MAX_FILES s = r_limit a \<and> current_file s = r_next a \<and> ring_ok a \<and>
        (\<forall>n x b. r_kept a n = Some x \<longrightarrow> sized small_sizes b \<longrightarrow>
           (\<exists>t. load_historic_hk_data ram_ops SYS_LITTLE_ENDIAN n b s = Inr ((SUCCESS, keep_startup x b), t))))"
  by (rule hk_history [OF ram_reliable ram_os_ok no_devices_ok small_sized(2) _ empty_start]) (use small_sized in simp)



end
