(* ===== verification/Hk_Pages.thy ===== *)
theory Hk_Pages
  imports Hk_History
begin

text \<open>
  From the bytes of requests to the records in the replies: after any history of samples, numbers of files
  and restarts, the housekeeping task answers every request for a page with what the ring keeps, and every
  request for the number of files with the limit of the ring.
\<close>

subsection \<open>Requests on the wire\<close>

text \<open>A request for \<open>limit\<close> records before the number \<open>bid\<close>, in the byte order of the board.\<close>

definition asks_page :: "endianness \<Rightarrow> u16 \<Rightarrow> u16 \<Rightarrow> csp_packet \<Rightarrow> bool" where
  "asks_page e limit bid p \<longleftrightarrow> (\<exists>rest.
     pkt_data p = GET_HK # to_bytes e 2 limit @ to_bytes e 2 bid @ to_bytes e 4 (0 :: u32) @ rest)"

lemma page_request_run:
  assumes h: "bufs s h = Some p" and p: "asks_page (host (hk_ce E)) limit bid p"
    and f: "fetch_historic_hk_and_transmit E shape limit bid 0 (s\<lparr>bufs := (bufs s)(h := None)\<rparr>) = Inr (SUCCESS, t)"
  shows "hk_service_app E shape h s = Inr (SATR_OK, t)"
proof -
  obtain rest where d: "pkt_data p =
      GET_HK # to_bytes (host (hk_ce E)) 2 limit @ to_bytes (host (hk_ce E)) 2 bid @ to_bytes (host (hk_ce E)) 4 (0 :: u32) @ rest"
    using p by (auto simp: asks_page_def)
  have "(bufs s)(h \<mapsto> p) = bufs s" using h by (rule fun_upd_idem)
  with h f show ?thesis
    by (simp add: hk_service_app_def prog_simps const_simps pool_op_defs Let_def d)
qed

lemma pool_ok_release: "pool_ok s \<Longrightarrow> pool_ok (s\<lparr>bufs := (bufs s)(h := None)\<rparr>)"
  by (simp add: pool_ok_def)

subsection \<open>Pages of the ring\<close>

text \<open>The numbers of a page: as many as asked for, going down from the one before \<open>bid\<close>.\<close>

definition page_of :: "sample_ring \<Rightarrow> u16 \<Rightarrow> u16 \<Rightarrow> u16 list" where
  "page_of a limit bid = page_ids (r_limit a) (min (unat limit) (unat (r_limit a)))
     (if bid = 0 \<or> r_limit a < bid then r_next a else bid)"

definition kept_page :: "sample_ring \<Rightarrow> u16 \<Rightarrow> u16 \<Rightarrow> All_systems_housekeeping list" where
  "kept_page a limit bid = map (the \<circ> r_kept a) (page_of a limit bid)"

lemma ring_rel_dev:
  assumes rel: "ring_rel H a w" and d: "files (h_view H d) = files (h_view H (dev w))" "handles (h_view H d) = handles (h_view H (dev w))"
    and l: "l \<noteq> LockHeld"
  shows "ring_rel H a (w\<lparr>f_count_lock := l, dev := d\<rparr>)"
  using rel l ring_files_cong [OF d, of H a]
  by (auto simp: ring_rel_def ring_state_def cursor_ok_def slotted_def split: ts_ptr.splits)

lemma kept_page_sent:
  assumes H: "history_wf H" and ops: "h_ops H = hk_fs E" "h_os H = hk_os E" "h_endian H = host (hk_ce E)"
    and N: "net_ok (hk_net E) (h_view H) sent" and Q: "quiet (hk_fs E) sent"
    and mute: "\<forall>f. sent (snd (xSemaphoreCreateMutex (hk_os E) f)) = sent f"
    and cv: "cv_ok (hk_cv E)" and ls: "sum_list (h_sizes H) < 65534" "sized (h_sizes H) shape"
    and rel: "ring_rel H a (pworld s)" and P: "pool_ok s" and all: "\<forall>i\<in>set (page_of a limit bid). r_kept a i \<noteq> None"
  shows "\<exists>d ps. fetch_historic_hk_and_transmit E shape limit bid 0 s = Inr (SUCCESS, s\<lparr>nxt := nxt s + length (page_of a limit bid),
      pworld := (pworld s)\<lparr>f_count_lock := LockFree, dev := d\<rparr>\<rparr>) \<and>
    ring_rel H a ((pworld s)\<lparr>f_count_lock := LockFree, dev := d\<rparr>) \<and> sent d = sent (dev (pworld s)) @ ps \<and>
    list_all2 (carries (host (hk_ce E))) (replies (hk_ce E) (hk_cv E) (kept_page a limit bid)) ps"
proof -
  let ?w = "pworld s" and ?v = "h_view H"
  have R: "red_reliable (hk_fs E) ?v" and os: "os_ok (hk_os E) ?v" and so: "sizes_ok (h_sizes H)"
    using H ops by (simp_all add: history_wf_def)
  have w: "f_count_lock ?w \<noteq> LockHeld" "cursor_ok ?w" "MAX_FILES ?w = r_limit a" "current_file ?w = r_next a"
    and fs: "fs_ok (?v (dev ?w))" "\<And>n x. r_kept a n = Some x \<Longrightarrow>
      sized (h_sizes H) x \<and> holds (h_sizes H) (?v (dev ?w)) n (hk_fields (host (hk_ce E)) x)"
    using rel ops(3) by (auto simp: ring_rel_def ring_state_def ring_files_def)
  let ?b = "if bid = 0 \<or> MAX_FILES ?w < bid then current_file ?w else bid"
  let ?n = "min (unat limit) (unat (MAX_FILES ?w))"
  have ids: "page_ids (MAX_FILES ?w) ?n ?b = page_of a limit bid" by (simp add: page_of_def w)
  have len: "?n = length (page_of a limit bid)" by (simp add: page_of_def w)
  have "\<forall>i\<in>set (page_ids (MAX_FILES ?w) ?n ?b).
      holds (h_sizes H) (?v (dev ?w)) i (hk_fields (host (hk_ce E)) ((the \<circ> r_kept a) i)) \<and> sized (h_sizes H) ((the \<circ> r_kept a) i)"
    unfolding ids using all fs(2) by fastforce
  from fetch_page_view [OF R N Q os mute cv so ls w(1,2) fs(1) P refl refl this] obtain d ps where
    f: "fetch_historic_hk_and_transmit E shape limit bid 0 s = Inr (SUCCESS, s\<lparr>nxt := nxt s + length (page_of a limit bid),
        pworld := ?w\<lparr>f_count_lock := LockFree, dev := d\<rparr>\<rparr>)"
      "files (?v d) = files (?v (dev ?w))" "handles (?v d) = handles (?v (dev ?w))" "sent d = sent (dev ?w) @ ps"
      "list_all2 (carries (host (hk_ce E))) (replies (hk_ce E) (hk_cv E) (kept_page a limit bid)) ps"
    unfolding ids unfolding len kept_page_def by blast
  from ring_rel_dev [OF rel f(2,3), of LockFree]
  have "ring_rel H a (?w\<lparr>f_count_lock := LockFree, dev := d\<rparr>)" by simp
  with f show ?thesis by blast
qed

subsection \<open>The housekeeping task\<close>

record 'f page_env =
  p_hk :: "'f hk_env"
  p_shape :: All_systems_housekeeping
  p_history :: "'f history_env"
  p_sent :: "'f \<Rightarrow> csp_packet list"
  p_ring :: sample_ring

definition page_wf :: "'f page_env \<Rightarrow> bool" where
  "page_wf X \<longleftrightarrow> (let E = p_hk X; H = p_history X; sent = p_sent X in
     history_wf H \<and> h_ops H = hk_fs E \<and> h_os H = hk_os E \<and> h_endian H = host (hk_ce E) \<and>
     net_ok (hk_net E) (h_view H) sent \<and> quiet (hk_fs E) sent \<and>
     (\<forall>f. sent (snd (xSemaphoreCreateMutex (hk_os E) f)) = sent f) \<and>
     cv_ok (hk_cv E) \<and> sum_list (h_sizes H) < 65534 \<and> sized (h_sizes H) (p_shape X))"

text \<open>Requests that can be served, for pages that the ring keeps or for the number of files.\<close>

definition asks_limit :: "csp_packet \<Rightarrow> bool" where
  "asks_limit p \<longleftrightarrow> 4 \<le> length (pkt_data p) \<and> pkt_data p ! 0 = GET_MAX_FILES"

definition servable :: "endianness \<Rightarrow> sample_ring \<Rightarrow> csp_packet \<Rightarrow> bool" where
  "servable e a p \<longleftrightarrow> asks_limit p \<or>
     (\<exists>limit bid. asks_page e limit bid p \<and> (\<forall>i\<in>set (page_of a limit bid). r_kept a i \<noteq> None))"

definition answered :: "'f hk_env \<Rightarrow> sample_ring \<Rightarrow> csp_packet \<Rightarrow> csp_packet list \<Rightarrow> bool" where
  "answered E a p ps \<longleftrightarrow>
     asks_limit p \<and> ps = [data_packet 0 (to_bytes (host (hk_ce E)) 2 (csp_hton16 (hk_ce E) (r_limit a))) p] \<or>
     (\<exists>limit bid. asks_page (host (hk_ce E)) limit bid p \<and>
        list_all2 (carries (host (hk_ce E))) (replies (hk_ce E) (hk_cv E) (kept_page a limit bid)) ps)"

lemma page_step:
  assumes X: "page_wf X" and rel: "ring_rel (p_history X) a (pworld s)" and P: "pool_ok s" and h: "bufs s h = Some p"
    and q: "asks_page (host (hk_ce (p_hk X))) limit bid p" and all: "\<forall>i\<in>set (page_of a limit bid). r_kept a i \<noteq> None"
  shows "\<exists>t ps. log_step (hk_service_app (p_hk X) (p_shape X)) h s = Inr ((), t) \<and> bufs t = (bufs s)(h := None) \<and>
    nxt s \<le> nxt t \<and> svc_wdt_counter t = svc_wdt_counter s \<and> ring_rel (p_history X) a (pworld t) \<and>
    p_sent X (dev (pworld t)) = p_sent X (dev (pworld s)) @ ps \<and> answered (p_hk X) a p ps"
proof -
  let ?s = "s\<lparr>bufs := (bufs s)(h := None)\<rparr>"
  have "ring_rel (p_history X) a (pworld ?s)" using rel by simp
  from kept_page_sent [OF _ _ _ _ _ _ _ _ _ _ this pool_ok_release [OF P] all, of "p_hk X" "p_sent X" "p_shape X"] X
  obtain d ps where
    f: "fetch_historic_hk_and_transmit (p_hk X) (p_shape X) limit bid 0 ?s = Inr (SUCCESS, ?s\<lparr>nxt := nxt s + length (page_of a limit bid),
        pworld := (pworld s)\<lparr>f_count_lock := LockFree, dev := d\<rparr>\<rparr>)"
      "ring_rel (p_history X) a ((pworld s)\<lparr>f_count_lock := LockFree, dev := d\<rparr>)"
      "p_sent X d = p_sent X (dev (pworld s)) @ ps"
      "list_all2 (carries (host (hk_ce (p_hk X)))) (replies (hk_ce (p_hk X)) (hk_cv (p_hk X)) (kept_page a limit bid)) ps"
    by (auto simp: page_wf_def Let_def)
  have "answered (p_hk X) a p ps" using q f(4) by (auto simp: answered_def)
  then show ?thesis
    unfolding log_step_def bnd_run page_request_run [OF h q f(1)]
    using f(2,3) by (intro exI) (auto simp: ret_run)
qed

lemma limit_step:
  assumes X: "page_wf X" and rel: "ring_rel (p_history X) a (pworld s)" and h: "bufs s h = Some p" and q: "asks_limit p"
  shows "\<exists>t ps. log_step (hk_service_app (p_hk X) (p_shape X)) h s = Inr ((), t) \<and> bufs t = (bufs s)(h := None) \<and>
    nxt s \<le> nxt t \<and> svc_wdt_counter t = svc_wdt_counter s \<and> ring_rel (p_history X) a (pworld t) \<and>
    p_sent X (dev (pworld t)) = p_sent X (dev (pworld s)) @ ps \<and> answered (p_hk X) a p ps"
proof -
  let ?p = "data_packet 0 (to_bytes (host (hk_ce (p_hk X))) 2 (csp_hton16 (hk_ce (p_hk X)) (MAX_FILES (pworld s)))) p"
  obtain ok d where snd: "op_send (hk_net (p_hk X)) ?p (dev (pworld s)) = (ok, d)" by force
  have lim: "MAX_FILES (pworld s) = r_limit a" using rel by (simp add: ring_rel_def ring_state_def)
  have d: "h_view (p_history X) d = h_view (p_history X) (dev (pworld s))"
    "p_sent X d = p_sent X (dev (pworld s)) @ [?p]"
    using X snd unfolding page_wf_def Let_def net_ok_def by (metis snd_conv)+
  have "ring_rel (p_history X) a ((pworld s)\<lparr>dev := d\<rparr>)"
    using ring_rel_dev [OF rel, of d "f_count_lock (pworld s)"] d(1) rel by (simp add: ring_rel_def ring_state_def)
  moreover have "answered (p_hk X) a p [?p]" using q by (simp add: answered_def lim)
  moreover have "hk_service_app (p_hk X) (p_shape X) h s =
      Inr (SATR_OK, s\<lparr>bufs := (bufs s)(h := None), pworld := (pworld s)\<lparr>dev := d\<rparr>\<rparr>)"
    by (rule hk_app_get_max_files [OF h _ _ snd]) (use q in \<open>simp_all add: asks_limit_def\<close>)
  ultimately show ?thesis
    using d(2) by (intro exI [of _ "s\<lparr>bufs := (bufs s)(h := None), pworld := (pworld s)\<lparr>dev := d\<rparr>\<rparr>"] exI [of _ "[?p]"])
      (simp add: log_step_def bnd_run ret_run)
qed

interpretation hk_requests: serving page_wf "\<lambda>X. ring_rel (p_history X) (p_ring X)"
  "\<lambda>X. log_step (hk_service_app (p_hk X) (p_shape X))" "\<lambda>X. servable (host (hk_ce (p_hk X))) (p_ring X)"
  "\<lambda>X. answered (p_hk X) (p_ring X)" "\<lambda>X w. p_sent X (dev w)"
proof
  fix X :: "'f page_env" and s :: "'f hk_state pool" and h p
  assume X: "page_wf X" and rel: "ring_rel (p_history X) (p_ring X) (pworld s)" and P: "pool_ok s" and h: "bufs s h = Some p"
    and q: "servable (host (hk_ce (p_hk X))) (p_ring X) p"
  show "\<exists>t ps. log_step (hk_service_app (p_hk X) (p_shape X)) h s = Inr ((), t) \<and> bufs t = (bufs s)(h := None) \<and>
      nxt s \<le> nxt t \<and> svc_wdt_counter t = svc_wdt_counter s \<and> ring_rel (p_history X) (p_ring X) (pworld t) \<and>
      p_sent X (dev (pworld t)) = p_sent X (dev (pworld s)) @ ps \<and> answered (p_hk X) (p_ring X) p ps"
    using q unfolding servable_def
    by (elim disjE exE conjE) (rule limit_step [OF X rel h], assumption, rule page_step [OF X rel P h], assumption+)
qed

subsection \<open>After any history\<close>

lemma history_related:
  assumes H: "history_wf H" and vs: "\<forall>j. Sample j \<in> set vs \<longrightarrow> sized (h_sizes H) j"
    and start: "fs_ok (h_view H f)" "files (h_view H f) hk_config = None"
  shows "\<exists>rs z. spec_run ring_step ring_stops ring_start vs rs z \<and> (case z of
      None \<Rightarrow> run_events (hk_event_step (h_ops H) (h_os H) (h_endian H) (h_devices H)) vs (hk_init f) = Inl UseAfterFree
    | Some a \<Rightarrow> \<exists>w. run_events (hk_event_step (h_ops H) (h_os H) (h_endian H) (h_devices H)) vs (hk_init f) = Inr (rs, w) \<and>
        ring_rel H a w)"
proof -
  have "\<forall>v\<in>set vs. event_ok H v" using vs by (auto simp: event_ok_def split: hk_event.splits)
  from hk_ring.runs [OF H this start_rel [OF start]] show ?thesis .
qed

lemma hk_kicks_of: "sum_list (map (kicks_of hk_kicks) as) = length (filter (\<lambda>a. a \<noteq> Timeout) as)"
  by (induction as) (auto simp: kicks_of_def hk_kicks_def split: accept.splits)

text \<open>C2: After any history of samples, numbers of files and restarts that does not stop in the use after
  free, the housekeeping task serves any connections with requests for pages that the ring keeps
  and for the number of files: it answers each of them in order, a page with the kept records, one
  packet each, going down around the ring, and the number of files with that of the ring; it
  leaves no packet behind and counts every connection.\<close>

theorem history_then_service:
  assumes R: "red_reliable (hk_fs E) view" and os: "os_ok (hk_os E) view" and D: "devices_ok view D"
    and N: "net_ok (hk_net E) view sent" and Q: "quiet (hk_fs E) sent"
    and mute: "\<forall>f. sent (snd (xSemaphoreCreateMutex (hk_os E) f)) = sent f"
    and cv: "cv_ok (hk_cv E)" and ls: "sizes_ok ls" "sum_list ls < 65534" "sized ls shape"
    and vs: "\<forall>j. Sample j \<in> set vs \<longrightarrow> sized ls j"
    and start: "fs_ok (view f)" "files (view f) hk_config = None"
  shows "\<exists>rs z. spec_run ring_step ring_stops ring_start vs rs z \<and> (case z of
      None \<Rightarrow> run_events (hk_event_step (hk_fs E) (hk_os E) (host (hk_ce E)) D) vs (hk_init f) = Inl UseAfterFree
    | Some a \<Rightarrow> \<exists>w. run_events (hk_event_step (hk_fs E) (hk_os E) (host (hk_ce E)) D) vs (hk_init f) = Inr (rs, w) \<and>
        (\<forall>s as. pool_ok s \<longrightarrow> pworld s = w \<longrightarrow> (\<forall>q\<in>set as. \<forall>p\<in>set (packets_of q). servable (host (hk_ce E)) a p) \<longrightarrow>
           (\<exists>t pss. housekeeping_service E shape as s = Inr ((), t) \<and> bufs t = bufs s \<and>
              svc_wdt_counter t = svc_wdt_counter s + of_nat (1 + length (filter (\<lambda>q. q \<noteq> Timeout) as)) \<and>
              sent (dev (pworld t)) = sent (dev w) @ concat pss \<and>
              list_all2 (answered E a) (concat (map packets_of as)) pss)))"
proof -
  let ?H = "\<lparr>h_ops = hk_fs E, h_os = hk_os E, h_devices = D, h_view = view, h_endian = host (hk_ce E), h_sizes = ls\<rparr>"
  have H: "history_wf ?H" using R os D ls(1) by (simp add: history_wf_def)
  have env: "h_ops ?H = hk_fs E" "h_os ?H = hk_os E" "h_endian ?H = host (hk_ce E)" "h_view ?H = view" "h_sizes ?H = ls"
    "h_devices ?H = D" by simp_all
  from history_related [OF H, unfolded env, OF vs start] obtain rs z where
    run: "spec_run ring_step ring_stops ring_start vs rs z" "case z of
      None \<Rightarrow> run_events (hk_event_step (hk_fs E) (hk_os E) (host (hk_ce E)) D) vs (hk_init f) = Inl UseAfterFree
    | Some a \<Rightarrow> \<exists>w. run_events (hk_event_step (hk_fs E) (hk_os E) (host (hk_ce E)) D) vs (hk_init f) = Inr (rs, w) \<and>
        ring_rel ?H a w" by blast
  show ?thesis
  proof (cases z)
    case (Some a)
    with run(2) obtain w where w: "run_events (hk_event_step (hk_fs E) (hk_os E) (host (hk_ce E)) D) vs (hk_init f) = Inr (rs, w)"
      "ring_rel ?H a w" by auto
    let ?X = "\<lparr>p_hk = E, p_shape = shape, p_history = ?H, p_sent = sent, p_ring = a\<rparr>"
    have X: "page_wf ?X" using H N Q mute cv ls by (simp add: page_wf_def)
    have sel: "p_hk ?X = E" "p_shape ?X = shape" "p_history ?X = ?H" "p_sent ?X = sent" "p_ring ?X = a" by simp_all
    have served: "\<exists>t pss. housekeeping_service E shape as s = Inr ((), t) \<and> bufs t = bufs s \<and>
        svc_wdt_counter t = svc_wdt_counter s + of_nat (1 + length (filter (\<lambda>q. q \<noteq> Timeout) as)) \<and>
        sent (dev (pworld t)) = sent (dev w) @ concat pss \<and> list_all2 (answered E a) (concat (map packets_of as)) pss"
      if s: "pool_ok s" "pworld s = w" and as: "\<forall>q\<in>set as. \<forall>p\<in>set (packets_of q). servable (host (hk_ce E)) a p" for s as
    proof -
      have rel: "ring_rel ?H a (pworld s)" using w(2) s(2) by simp
      have k: "k_init hk_kicks + sum_list (map (kicks_of hk_kicks) as) = 1 + length (filter (\<lambda>q. q \<noteq> Timeout) as)"
        unfolding hk_kicks_of by (simp add: hk_kicks_def)
      from hk_requests.task [OF X, unfolded sel, OF rel s(1) as, of hk_kicks] show ?thesis
        unfolding housekeeping_service_def k s(2) by blast
    qed
    show ?thesis
      by (rule exI [of _ rs], rule exI [of _ z]) (use run(1) w(1) served Some in auto)
  next
    case None
    with run show ?thesis by (intro exI [of _ rs] exI [of _ z]) simp
  qed
qed

subsection \<open>Instance\<close>

text \<open>A sample, a restart, a sample, and requests for the last two records and for the number of files.\<close>

definition two_samples :: "hk_event list" where
  "two_samples = [Sample small_hk, Restart, Sample small_hk]"

definition last_two :: csp_packet where
  "last_two = \<lparr>pkt_length = 9, pkt_data = GET_HK # to_bytes SYS_LITTLE_ENDIAN 2 (2 :: u16) @
     to_bytes SYS_LITTLE_ENDIAN 2 (0 :: u16) @ to_bytes SYS_LITTLE_ENDIAN 4 (0 :: u32) @ []\<rparr>"

definition ask_limit :: csp_packet where
  "ask_limit = \<lparr>pkt_length = 1, pkt_data = [GET_MAX_FILES, 0, 0, 0]\<rparr>"

lemma last_two_asks: "asks_page SYS_LITTLE_ENDIAN 2 0 last_two"
  unfolding asks_page_def last_two_def by (rule exI [of _ "[]"]) simp

lemma two_samples_run:
  "\<exists>rs a. spec_run ring_step ring_stops ring_start two_samples rs (Some a) \<and> r_limit a = 20160 \<and> r_next a = 3 \<and>
    r_kept a 1 \<noteq> None \<and> r_kept a 2 \<noteq> None"
proof -
  have adv: "advance 20160 1 = 2" "advance 20160 2 = 3" by (simp_all add: advance_def)
  let ?a = "\<lparr>r_limit = 20160, r_next = 2, r_file = Some (20160, 1), r_loaded = True, r_array = True,
    r_kept = [1 \<mapsto> numbered 1 small_hk]\<rparr>"
  let ?b = "?a\<lparr>r_limit := 20160, r_next := 1, r_loaded := False, r_array := False\<rparr>"
  let ?c = "\<lparr>r_limit = 20160, r_next = 3, r_file = Some (20160, 2), r_loaded = True, r_array = True,
    r_kept = (r_kept ?b)(2 \<mapsto> numbered 2 small_hk)\<rparr>"
  have st: "ring_step ring_start (Sample small_hk) SUCCESS ?a"
    using sample [of ring_start 20160 1 small_hk small_hk] by (simp add: ring_place_def ring_start_def adv)
  have off: "ring_step ?a Restart SUCCESS ?b" by (rule restart)
  have again: "ring_step ?b (Sample small_hk) SUCCESS ?c"
    using sample [of ?b 20160 2 small_hk small_hk] by (simp add: ring_place_def adv)
  have "spec_run ring_step ring_stops ring_start two_samples [SUCCESS, SUCCESS, SUCCESS] (Some ?c)"
    unfolding two_samples_def by (rule run_step, rule st, rule run_step, rule off, rule run_step, rule again, rule run_end)
  then show ?thesis by (intro exI conjI, assumption) simp_all
qed

lemma page_of_two: "r_limit a = 20160 \<Longrightarrow> r_next a = 3 \<Longrightarrow> page_of a 2 0 = [2, 1]"
proof -
  have "min (unat (2 :: u16)) (unat (20160 :: u16)) = Suc (Suc 0)" by simp
  then show "r_limit a = 20160 \<Longrightarrow> r_next a = 3 \<Longrightarrow> page_of a 2 0 = [2, 1]"
    unfolding page_of_def by (simp only: page_ids.simps) (simp add: before_def)
qed

theorem history_then_service_instance:
  "\<exists>rs w a t pss. run_events (hk_event_step ram_ops ram_os SYS_LITTLE_ENDIAN no_devices) two_samples (hk_init empty_ram) = Inr (rs, w) \<and>
    r_limit a = 20160 \<and> page_of a 2 0 = [2, 1] \<and>
    housekeeping_service ram_env small_hk [Timeout, Connection [last_two, ask_limit]] (pool_with w) = Inr ((), t) \<and>
    bufs t = bufs (pool_with w) \<and> mout (dev (pworld t)) = mout (dev w) @ concat pss \<and>
    list_all2 (answered ram_env a) [last_two, ask_limit] pss"
proof -
  have sel: "hk_fs ram_env = ram_ops" "hk_os ram_env = ram_os" "hk_net ram_env = ram_net" "hk_cv ram_env = plain_cv"
    "hk_ce ram_env = le_host" "host le_host = SYS_LITTLE_ENDIAN"
    by (simp_all add: ram_env_def le_host_def)
  have mute: "\<forall>f. mout (snd (xSemaphoreCreateMutex ram_os f)) = mout f" by (simp add: ram_os_def)
  have ls: "sum_list small_sizes < 65534" by (simp add: small_sizes_def)
  have vs: "\<forall>j. Sample j \<in> set two_samples \<longrightarrow> sized small_sizes j" by (simp add: two_samples_def small_sized)
  let ?go = "run_events (hk_event_step ram_ops ram_os SYS_LITTLE_ENDIAN no_devices) two_samples (hk_init empty_ram)"
  from history_then_service [of ram_env ram_view no_devices mout small_sizes small_hk two_samples empty_ram, unfolded sel,
      OF ram_reliable ram_os_ok no_devices_ok ram_net_ok ram_quiet mute plain_cv_ok small_sized(2) ls small_sized(1) vs empty_start]
  obtain rs z where z: "spec_run ring_step ring_stops ring_start two_samples rs z" "case z of
      None \<Rightarrow> ?go = Inl UseAfterFree
    | Some a \<Rightarrow> \<exists>w. ?go = Inr (rs, w) \<and>
        (\<forall>s as. pool_ok s \<longrightarrow> pworld s = w \<longrightarrow> (\<forall>q\<in>set as. \<forall>p\<in>set (packets_of q). servable SYS_LITTLE_ENDIAN a p) \<longrightarrow>
           (\<exists>t pss. housekeeping_service ram_env small_hk as s = Inr ((), t) \<and> bufs t = bufs s \<and>
              svc_wdt_counter t = svc_wdt_counter s + of_nat (1 + length (filter (\<lambda>q. q \<noteq> Timeout) as)) \<and>
              mout (dev (pworld t)) = mout (dev w) @ concat pss \<and>
              list_all2 (answered ram_env a) (concat (map packets_of as)) pss))" by blast
  obtain rs' b where b: "spec_run ring_step ring_stops ring_start two_samples rs' (Some b)" "r_limit b = 20160" "r_next b = 3"
    "r_kept b 1 \<noteq> None" "r_kept b 2 \<noteq> None" using two_samples_run by blast
  have "alike ring_start ring_start" by (simp add: alike_def)
  from alike_runs [OF b(1) z(1) this] obtain a where a: "z = Some a" "alike b a" by (auto simp: option_rel_Some1)
  then have ra: "r_limit a = 20160" "page_of a 2 0 = [2, 1]" "\<forall>i\<in>set (page_of a 2 0). r_kept a i \<noteq> None"
    using b(2-) page_of_two [of a] by (simp_all add: alike_def)
  let ?as = "[Timeout, Connection [last_two, ask_limit]]"
  have "servable SYS_LITTLE_ENDIAN a last_two" unfolding servable_def using last_two_asks ra(3) by blast
  moreover have "servable SYS_LITTLE_ENDIAN a ask_limit" by (simp add: servable_def asks_limit_def ask_limit_def)
  ultimately have as: "\<forall>q\<in>set ?as. \<forall>p\<in>set (packets_of q). servable SYS_LITTLE_ENDIAN a p" by (simp add: packets_of_def)
  have ps: "concat (map packets_of ?as) = [last_two, ask_limit]" by (simp add: packets_of_def)
  from z(2) a(1) obtain w where w: "?go = Inr (rs, w)"
    and task: "\<And>s as. pool_ok s \<Longrightarrow> pworld s = w \<Longrightarrow> \<forall>q\<in>set as. \<forall>p\<in>set (packets_of q). servable SYS_LITTLE_ENDIAN a p \<Longrightarrow>
      \<exists>t pss. housekeeping_service ram_env small_hk as s = Inr ((), t) \<and> bufs t = bufs s \<and>
        svc_wdt_counter t = svc_wdt_counter s + of_nat (1 + length (filter (\<lambda>q. q \<noteq> Timeout) as)) \<and>
        mout (dev (pworld t)) = mout (dev w) @ concat pss \<and> list_all2 (answered ram_env a) (concat (map packets_of as)) pss"
    by auto
  have s: "pool_ok (pool_with w)" "pworld (pool_with w) = w" by (simp_all add: pool_ok_def pool_with_def)
  from task [OF s as] w ra(1,2) show ?thesis unfolding ps by blast
qed

end
