(* ===== verification/Hk_Lock.thy ===== *)
theory Hk_Lock
  imports Hk_Service
begin

text \<open>
  The lock of the housekeeping service when several tasks use it. \<^verbatim>\<open>prv_get_lock\<close> makes
  the mutex at its first use: it looks at \<^verbatim>\<open>f_count_lock\<close>, creates a mutex if there is none, reads
  the variable again and waits. Each of these is a step of its own, and steps of different tasks
  alternate in any order.
\<close>

subsection \<open>Steps\<close>

text \<open>
  Where a task is: outside, about to create, about to read the variable, waiting for a mutex,
  between \<^verbatim>\<open>prv_get_lock\<close> and \<^verbatim>\<open>prv_give_lock\<close>, or stopped by an operation on a null
  handle or on a mutex of another task.
\<close>

datatype lock_pc = Outside | Creating | Created | Waiting nat | Inside | Faulted

text \<open>
  \<open>handle\<close> is \<^verbatim>\<open>f_count_lock\<close>; mutexes are numbered in the order of their creation, and \<open>holder\<close>
  is the task that has taken a mutex.
\<close>

record lock_state =
  handle :: "nat option"
  made :: nat
  holder :: "nat \<Rightarrow> nat option"
  pc :: "nat \<Rightarrow> lock_pc"

abbreviation goes :: "nat \<Rightarrow> lock_pc \<Rightarrow> lock_state \<Rightarrow> lock_state" where
  "goes t p L \<equiv> L\<lparr>pc := (pc L)(t := p)\<rparr>"

text \<open>FreeRTOS releases a mutex for the task that holds it.\<close>

definition give_mutex :: "nat \<Rightarrow> lock_state \<Rightarrow> lock_state" where
  "give_mutex t L = (case handle L of
     None \<Rightarrow> goes t Faulted L
   | Some h \<Rightarrow> if holder L h = Some t then goes t Outside (L\<lparr>holder := (holder L)(h := None)\<rparr>)
       else goes t Faulted L)"

inductive lock_step :: "lock_state \<Rightarrow> lock_state \<Rightarrow> bool" where
  see_null: "pc L t = Outside \<Longrightarrow> handle L = None \<Longrightarrow> lock_step L (goes t Creating L)"
| see_lock: "pc L t = Outside \<Longrightarrow> handle L = Some h \<Longrightarrow> lock_step L (goes t Created L)"
| make: "pc L t = Creating \<Longrightarrow>
    lock_step L (goes t Created (L\<lparr>handle := Some (made L), made := made L + 1\<rparr>))"
| make_fails: "pc L t = Creating \<Longrightarrow> lock_step L (goes t Created (L\<lparr>handle := None\<rparr>))"
| read_lock: "pc L t = Created \<Longrightarrow> handle L = Some h \<Longrightarrow> lock_step L (goes t (Waiting h) L)"
| read_null: "pc L t = Created \<Longrightarrow> handle L = None \<Longrightarrow> lock_step L (goes t Faulted L)"
| take_lock: "pc L t = Waiting h \<Longrightarrow> holder L h = None \<Longrightarrow>
    lock_step L (goes t Inside (L\<lparr>holder := (holder L)(h := Some t)\<rparr>))"
| give_lock: "pc L t = Inside \<Longrightarrow> lock_step L (give_mutex t L)"

inductive_cases lock_stepE: "lock_step L L'"

abbreviation lock_steps :: "lock_state \<Rightarrow> lock_state \<Rightarrow> bool" where
  "lock_steps \<equiv> lock_step\<^sup>*\<^sup>*"

definition lock_start :: "nat option \<Rightarrow> lock_state" where
  "lock_start h = \<lparr>handle = h, made = (case h of None \<Rightarrow> 0 | Some n \<Rightarrow> n + 1), holder = (\<lambda>_. None), pc = (\<lambda>_. Outside)\<rparr>"

subsection \<open>A lock that exists\<close>

definition lock_ok :: "nat \<Rightarrow> lock_state \<Rightarrow> bool" where
  "lock_ok h L \<longleftrightarrow> handle L = Some h \<and>
     (\<forall>t. pc L t \<in> {Outside, Created, Waiting h, Inside}) \<and> (\<forall>t. pc L t = Inside \<longleftrightarrow> holder L h = Some t)"

lemma lock_okD:
  assumes "lock_ok h L"
  shows "pc L t \<in> {Outside, Created, Waiting h, Inside}" and "pc L t = Inside \<longleftrightarrow> holder L h = Some t"
  using assms unfolding lock_ok_def by blast+

lemma lock_ok_step: "lock_step L L' \<Longrightarrow> lock_ok h L \<Longrightarrow> lock_ok h L'"
proof (induction rule: lock_step.induct)
  case (take_lock L t h')
  from lock_okD(1) [OF take_lock(3), of t] take_lock(1) have "h' = h" by simp
  with take_lock show ?case by (auto simp: lock_ok_def)
next
  case (make L t)
  with lock_okD(1) [OF make(2), of t] show ?case by simp
next
  case (make_fails L t)
  with lock_okD(1) [OF make_fails(2), of t] show ?case by simp
next
  case (see_lock L t h')
  with lock_okD(2) [OF see_lock(3), of t] show ?case by (auto simp: lock_ok_def)
next
  case (read_lock L t h')
  with lock_okD(2) [OF read_lock(3), of t] show ?case by (auto simp: lock_ok_def)
qed (auto simp: lock_ok_def give_mutex_def)

lemma lock_ok_steps: "lock_steps L L' \<Longrightarrow> lock_ok h L \<Longrightarrow> lock_ok h L'"
  by (induction rule: rtranclp_induct) (auto intro: lock_ok_step)

lemma lock_ok_start: "lock_ok h (lock_start (Some h))"
  by (simp add: lock_ok_def lock_start_def)

text \<open>C9: Once the mutex of the housekeeping service exists, at most one task is between prv_get_lock and
  prv_give_lock, and no task is stopped, whatever the order in which the tasks run.\<close>

theorem lock_excludes:
  assumes "lock_steps (lock_start (Some h)) L"
  shows "(\<exists>o'. \<forall>t. pc L t = Inside \<longleftrightarrow> o' = Some t) \<and> (\<forall>t. pc L t \<noteq> Faulted)"
proof -
  note ok = lock_okD [OF lock_ok_steps [OF assms lock_ok_start]]
  have "pc L t \<noteq> Faulted" for t using ok(1) [of t] by auto
  with ok(2) show ?thesis by blast
qed

subsection \<open>The first use\<close>

text \<open>Both tasks see that there is no mutex; each makes one, and takes the one it made.\<close>

definition raced :: "nat \<Rightarrow> nat \<Rightarrow> lock_state" where
  "raced t u = \<lparr>handle = Some 1, made = 2, holder = [0 \<mapsto> t, 1 \<mapsto> u], pc = (\<lambda>_. Outside)(t := Inside, u := Inside)\<rparr>"

lemma race:
  assumes "t \<noteq> u"
  shows "lock_steps (lock_start None) (raced t u)"
proof -
  let ?La = "lock_start None"
  let ?Lb = "goes t Creating ?La"
  let ?Lc = "goes u Creating ?Lb"
  let ?Ld = "goes t Created (?Lc\<lparr>handle := Some 0, made := 1\<rparr>)"
  let ?Le = "goes t (Waiting 0) ?Ld"
  let ?Lf = "goes t Inside (?Le\<lparr>holder := [0 \<mapsto> t]\<rparr>)"
  let ?Lg = "goes u Created (?Lf\<lparr>handle := Some 1, made := Suc 1\<rparr>)"
  let ?Lh = "goes u (Waiting 1) ?Lg"
  let ?Li = "goes u Inside (?Lh\<lparr>holder := [0 \<mapsto> t, 1 \<mapsto> u]\<rparr>)"
  have "lock_step ?La ?Lb" by (rule see_null) (simp_all add: lock_start_def)
  moreover have "lock_step ?Lb ?Lc" by (rule see_null) (simp_all add: lock_start_def assms [symmetric])
  moreover have "lock_step ?Lc ?Ld" using make [of ?Lc t] assms by (simp add: lock_start_def)
  moreover have "lock_step ?Ld ?Le" by (rule read_lock) simp_all
  moreover have "lock_step ?Le ?Lf" using take_lock [of ?Le t 0] by (simp add: lock_start_def)
  moreover have "lock_step ?Lf ?Lg" using make [of ?Lf u] assms by (simp add: lock_start_def)
  moreover have "lock_step ?Lg ?Lh" by (rule read_lock) simp_all
  moreover have "lock_step ?Lh ?Li" using take_lock [of ?Lh u 1] by (simp add: lock_start_def)
  ultimately have "lock_steps ?La ?Li" by (meson converse_rtranclp_into_rtranclp rtranclp.rtrancl_refl)
  moreover have "?Li = raced t u" using assms by (simp add: raced_def lock_start_def fun_eq_iff eval_nat_numeral)
  ultimately show ?thesis by simp
qed

text \<open>C10: The mutex of the housekeeping service is made at its first use, without protection: two tasks
  that get there together are both let in, each with a mutex of its own, and the first one to
  leave gives the mutex of the other.\<close>

theorem lock_first_use_races:
  assumes "t \<noteq> u"
  shows "\<exists>L L'. lock_steps (lock_start None) L \<and> pc L t = Inside \<and> pc L u = Inside \<and>
    lock_step L L' \<and> pc L' t = Faulted"
proof (intro exI conjI)
  show "lock_steps (lock_start None) (raced t u)" by (rule race [OF assms])
  show "lock_step (raced t u) (give_mutex t (raced t u))" by (rule give_lock) (simp add: raced_def)
qed (use assms in \<open>simp_all add: raced_def give_mutex_def\<close>)

subsection \<open>One task alone\<close>

text \<open>
  The steps of one task with no other in between are what the sequential model has: the lock is
  null, free or held.
\<close>

definition lock_of :: "lock_state \<Rightarrow> lock" where
  "lock_of L = (case handle L of None \<Rightarrow> LockNull | Some h \<Rightarrow> if holder L h = None then LockFree else LockHeld)"

lemma give_alone:
  assumes "lock_ok h L" and "pc L t = Inside"
  shows "lock_step L (give_mutex t L) \<and> pc (give_mutex t L) t = Outside \<and> lock_ok h (give_mutex t L) \<and>
    lock_of (give_mutex t L) = LockFree"
proof -
  have s: "lock_step L (give_mutex t L)" by (rule give_lock [OF assms(2)])
  moreover have "handle L = Some h" "holder L h = Some t"
    using assms lock_okD(2) [OF assms(1), of t] by (simp_all add: lock_ok_def)
  ultimately show ?thesis
    using lock_ok_step [OF s assms(1)] by (simp add: give_mutex_def lock_of_def)
qed

text \<open>The other tasks are outside, and no mutex beyond those made is in use.\<close>

definition alone :: "nat \<Rightarrow> lock_state \<Rightarrow> bool" where
  "alone t L \<longleftrightarrow> (\<forall>u. u \<noteq> t \<longrightarrow> pc L u = Outside) \<and> (\<forall>n\<ge>made L. holder L n = None) \<and>
     (\<forall>h. handle L = Some h \<longrightarrow> h < made L \<and> lock_ok h L)"

lemma get_alone:
  assumes a: "alone t L" and out: "pc L t = Outside" and os: "\<forall>f. fst (xSemaphoreCreateMutex os f)"
    and s: "f_count_lock s = lock_of L"
  shows "\<exists>d L'. prv_get_lock os s = Inr ((), s\<lparr>f_count_lock := LockHeld, dev := d\<rparr>) \<and>
    lock_steps L L' \<and> pc L' t = Inside \<and> lock_of L' = LockHeld \<and> alone t L'"
proof (cases "handle L")
  case None
  let ?Lb = "goes t Creating L"
  let ?Lc = "goes t Created (?Lb\<lparr>handle := Some (made L), made := made L + 1\<rparr>)"
  let ?Ld = "goes t (Waiting (made L)) ?Lc"
  let ?Le = "goes t Inside (?Ld\<lparr>holder := (holder L)(made L \<mapsto> t)\<rparr>)"
  have free: "holder L (made L) = None" using a by (simp add: alone_def)
  have "lock_step L ?Lb" by (rule see_null [OF out None])
  moreover have "lock_step ?Lb ?Lc" using make [of ?Lb t] by simp
  moreover have "lock_step ?Lc ?Ld" by (rule read_lock) simp_all
  moreover have "lock_step ?Ld ?Le" using take_lock [of ?Ld t "made L"] free by simp
  ultimately have "lock_steps L ?Le" by (meson converse_rtranclp_into_rtranclp rtranclp.rtrancl_refl)
  moreover have "alone t ?Le" using a by (auto simp: alone_def lock_ok_def)
  moreover have "f_count_lock s = LockNull" using s None by (simp add: lock_of_def)
  then have "prv_get_lock os s = Inr ((), s\<lparr>f_count_lock := LockHeld, dev := snd (xSemaphoreCreateMutex os (dev s))\<rparr>)"
    using os by (simp add: prv_get_lock_def prog_simps xSemaphoreTake_def)
  ultimately show ?thesis by (intro exI) (auto simp: lock_of_def)
next
  case (Some h)
  then have ok: "lock_ok h L" using a by (simp add: alone_def)
  have free: "holder L h = None"
  proof (cases "holder L h")
    case (Some u)
    then have "pc L u = Inside" using lock_okD(2) [OF ok, of u] by simp
    with a out have False by (cases "u = t") (simp_all add: alone_def)
    then show ?thesis ..
  qed
  let ?Lb = "goes t Created L"
  let ?Lc = "goes t (Waiting h) ?Lb"
  let ?Ld = "goes t Inside (?Lc\<lparr>holder := (holder L)(h \<mapsto> t)\<rparr>)"
  have st: "lock_step L ?Lb" "lock_step ?Lb ?Lc" "lock_step ?Lc ?Ld"
    using see_lock [OF out Some] read_lock [of ?Lb t h] take_lock [of ?Lc t h] Some free by simp_all
  then have "lock_steps L ?Ld" by (meson converse_rtranclp_into_rtranclp rtranclp.rtrancl_refl)
  moreover from lock_ok_steps [OF this ok] have "alone t ?Ld" using a Some free by (auto simp: alone_def lock_ok_def)
  moreover have "prv_get_lock os s = Inr ((), s\<lparr>f_count_lock := LockHeld, dev := dev s\<rparr>)"
    using s Some free by (simp add: lock_of_def prv_get_lock_def prog_simps xSemaphoreTake_def)
  ultimately show ?thesis using Some by (intro exI [of _ "dev s"] exI) (auto simp: lock_of_def)
qed

subsection \<open>Instances\<close>

theorem lock_excludes_instance:
  "\<exists>L. lock_steps (lock_start (Some 0)) L \<and> pc L 1 = Inside \<and> (\<exists>o'. \<forall>t. pc L t = Inside \<longleftrightarrow> o' = Some t) \<and>
    (\<forall>t. pc L t \<noteq> Faulted)"
proof -
  have "alone 1 (lock_start (Some 0))" "pc (lock_start (Some 0)) 1 = Outside"
    using lock_ok_start [of 0] by (simp_all add: alone_def lock_start_def)
  from get_alone [OF this, of "\<lparr>pvPortMalloc = undefined, xSemaphoreCreateMutex = (\<lambda>f. (True, f))\<rparr>"
      "(hk_init ())\<lparr>f_count_lock := lock_of (lock_start (Some 0))\<rparr>"]
  obtain L where "lock_steps (lock_start (Some 0)) L" "pc L 1 = Inside" by auto
  with lock_excludes [OF this(1)] show ?thesis by blast
qed

theorem lock_first_use_races_instance:
  "\<exists>L L'. lock_steps (lock_start None) L \<and> pc L 1 = Inside \<and> pc L 2 = Inside \<and> lock_step L L' \<and> pc L' 1 = Faulted"
  by (rule lock_first_use_races) simp

end
