(* ===== verification/Hk_Mock.thy ===== *)
theory Hk_Mock
  imports Hk_Lookup
begin

text \<open>
  \<^verbatim>\<open>mock_everyone\<close> of \<^verbatim>\<open>housekeeping_service.c\<close>: a record for tests, in which almost every member is the
  same counter. The structures of the devices are declared outside the repository, so the store
  into a member, with its conversion to the type of the member, is a parameter, and the function is
  the list of its assignments: the member, the index in it, the variable that is stored.
\<close>

datatype mock_type = Tlong | Tu8 | T8 | Tdouble | Tu16 | Tu32 | Tfloat

datatype mock_value = Long int | U8 byte | I8 i8 | Double int | U16 u16 | U32 u32 | Float int

type_synonym assignment = "string \<times> nat \<times> mock_type"

record mock_env =
  store_member :: "string \<Rightarrow> nat \<Rightarrow> mock_value \<Rightarrow> All_systems_housekeeping \<Rightarrow> All_systems_housekeeping"
  ATHENA_TEMP_ARRAY_SIZE :: nat
  SCW_LEN :: nat

text \<open>The variables of the function; \<^verbatim>\<open>temp * 1.0\<close> is exact as a \<^verbatim>\<open>double\<close>.\<close>

definition temp_as :: "i32 \<Rightarrow> mock_type \<Rightarrow> mock_value" where
  "temp_as temp t = (case t of
     Tlong \<Rightarrow> Long (sint temp)
   | Tu8 \<Rightarrow> U8 (ucast temp)
   | T8 \<Rightarrow> I8 (ucast temp)
   | Tdouble \<Rightarrow> Double (sint temp)
   | Tu16 \<Rightarrow> U16 (ucast temp)
   | Tu32 \<Rightarrow> U32 temp
   | Tfloat \<Rightarrow> Float (sint temp))"

text \<open>An assignment to a member, and a loop over the items of array members.\<close>

definition one :: "mock_type \<Rightarrow> string \<Rightarrow> assignment" where
  "one t m = (m, 0, t)"

definition each :: "nat \<Rightarrow> (nat \<Rightarrow> assignment list) \<Rightarrow> assignment list" where
  "each n f = concat (map f [0..<n])"

definition mock_adcs_hk :: "assignment list" where
  "mock_adcs_hk =
   map (one Tfloat)
    [''adcs_hk.Estimated_Angular_Rate_X'', ''adcs_hk.Estimated_Angular_Rate_Y'',
     ''adcs_hk.Estimated_Angular_Rate_Z'', ''adcs_hk.Estimated_Angular_Angle_X'',
     ''adcs_hk.Estimated_Angular_Angle_Y'', ''adcs_hk.Estimated_Angular_Angle_Z'',
     ''adcs_hk.Sat_Position_ECI_X'', ''adcs_hk.Sat_Position_ECI_Y'', ''adcs_hk.Sat_Position_ECI_Z'',
     ''adcs_hk.Sat_Velocity_ECI_X'', ''adcs_hk.Sat_Velocity_ECI_Y'', ''adcs_hk.Sat_Velocity_ECI_Z'',
     ''adcs_hk.Sat_Position_LLH_X'', ''adcs_hk.Sat_Position_LLH_Y'', ''adcs_hk.Sat_Position_LLH_Z'',
     ''adcs_hk.ECEF_Position_X'', ''adcs_hk.ECEF_Position_Y'', ''adcs_hk.ECEF_Position_Z'',
     ''adcs_hk.Coarse_Sun_Vector_X'', ''adcs_hk.Coarse_Sun_Vector_Y'', ''adcs_hk.Coarse_Sun_Vector_Z'',
     ''adcs_hk.Fine_Sun_Vector_X'', ''adcs_hk.Fine_Sun_Vector_Y'', ''adcs_hk.Fine_Sun_Vector_Z'',
     ''adcs_hk.Nadir_Vector_X'', ''adcs_hk.Nadir_Vector_Y'', ''adcs_hk.Nadir_Vector_Z'',
     ''adcs_hk.Wheel_Speed_X'', ''adcs_hk.Wheel_Speed_Y'', ''adcs_hk.Wheel_Speed_Z'',
     ''adcs_hk.Mag_Field_Vector_X'', ''adcs_hk.Mag_Field_Vector_Y'', ''adcs_hk.Mag_Field_Vector_Z'',
     ''adcs_hk.Comm_Status'', ''adcs_hk.Wheel1_Current'', ''adcs_hk.Wheel2_Current'',
     ''adcs_hk.Wheel3_Current'', ''adcs_hk.CubeSense1_Current'', ''adcs_hk.CubeSense2_Current'',
     ''adcs_hk.CubeControl_Current3v3'', ''adcs_hk.CubeControl_Current5v0'', ''adcs_hk.CubeStar_Current'',
     ''adcs_hk.CubeStar_Temp'', ''adcs_hk.Magnetorquer_Current'', ''adcs_hk.MCU_Temp'',
     ''adcs_hk.Rate_Sensor_Temp_X'', ''adcs_hk.Rate_Sensor_Temp_Y'', ''adcs_hk.Rate_Sensor_Temp_Z'']"

definition mock_Athena_hk :: "nat \<Rightarrow> assignment list" where
  "mock_Athena_hk temps =
   each temps (\<lambda>i. [(''Athena_hk.temparray'', i, Tlong)]) @
   map (one Tu16)
    [''Athena_hk.boot_cnt''] @
   map (one Tu8)
    [''Athena_hk.OBC_mode''] @
   map (one Tu16)
    [''Athena_hk.OBC_uptime''] @
   map (one Tu8)
    [''Athena_hk.solar_panel_supply_curr'', ''Athena_hk.OBC_software_ver''] @
   map (one Tu16)
    [''Athena_hk.cmds_received'', ''Athena_hk.pckts_uncovered_by_FEC'']"

definition mock_EPS_hk :: "assignment list" where
  "mock_EPS_hk =
   map (one Tu8)
    [''EPS_hk.cmd''] @
   map (one T8)
    [''EPS_hk.status''] @
   map (one Tdouble)
    [''EPS_hk.timestampInS''] @
   map (one Tu32)
    [''EPS_hk.uptimeInS'', ''EPS_hk.bootCnt'', ''EPS_hk.wdt_gs_time_left'', ''EPS_hk.wdt_gs_counter''] @
   map (one Tu16)
    [''EPS_hk.vBatt'', ''EPS_hk.curSolar'', ''EPS_hk.curBattIn'', ''EPS_hk.curBattOut''] @
   map (one Tu8)
    [''EPS_hk.outputConverterState''] @
   map (one Tu32)
    [''EPS_hk.outputStatus'', ''EPS_hk.outputFaultStatus''] @
   map (one Tu16)
    [''EPS_hk.protectedOutputAccessCnt''] @
   map (one Tu8)
    [''EPS_hk.battMode'', ''EPS_hk.mpptMode'', ''EPS_hk.batHeaterMode'', ''EPS_hk.batHeaterState''] @
   map (one Tu16)
    [''EPS_hk.PingWdt_toggles''] @
   map (one Tu8)
    [''EPS_hk.PingWdt_turnOffs''] @
   each 2 (\<lambda>i. [(''EPS_hk.AOcurOutput'', i, Tu16)]) @
   each 4 (\<lambda>i. [(''EPS_hk.mpptConverterVoltage'', i, Tu16)]) @
   each 8 (\<lambda>i. [(''EPS_hk.curSolarPanels'', i, Tu16), (''EPS_hk.OutputConverterVoltage'', i, Tu16)]) @
   each 18 (\<lambda>i. [(''EPS_hk.curOutput'', i, Tu16), (''EPS_hk.outputOnDelta'', i, Tu16),
     (''EPS_hk.outputOffDelta'', i, Tu16), (''EPS_hk.outputFaultCnt'', i, Tu8)]) @
   each 14 (\<lambda>i. [(''EPS_hk.temp'', i, T8)])"

definition mock_UHF_hk :: "nat \<Rightarrow> assignment list" where
  "mock_UHF_hk scw =
   map (one Tu32)
    [''UHF_hk.freq'', ''UHF_hk.pipe_t'', ''UHF_hk.beacon_t'', ''UHF_hk.audio_t'', ''UHF_hk.uptime'',
     ''UHF_hk.pckts_out'', ''UHF_hk.pckts_in'', ''UHF_hk.pckts_in_crc16''] @
   map (one Tfloat)
    [''UHF_hk.temperature''] @
   each scw (\<lambda>i. [(''UHF_hk.scw'', i, Tu8)])"

definition mock_S_band_hk :: "assignment list" where
  "mock_S_band_hk =
   map (one Tfloat)
    [''S_band_hk.Output_Power'', ''S_band_hk.PA_Temp'', ''S_band_hk.Top_Temp'', ''S_band_hk.Bottom_Temp'',
     ''S_band_hk.Bat_Current'', ''S_band_hk.Bat_Voltage'', ''S_band_hk.PA_Current'', ''S_band_hk.PA_Voltage'']"

definition mock_hyperion_hk :: "assignment list" where
  "mock_hyperion_hk =
   map (one Tfloat)
    [''hyperion_hk.Nadir_Temp1'', ''hyperion_hk.Port_Temp1'', ''hyperion_hk.Port_Temp2'',
     ''hyperion_hk.Port_Temp3'', ''hyperion_hk.Port_Temp_Adc'', ''hyperion_hk.Port_Dep_Temp1'',
     ''hyperion_hk.Port_Dep_Temp2'', ''hyperion_hk.Port_Dep_Temp3'', ''hyperion_hk.Port_Dep_Temp_Adc'',
     ''hyperion_hk.Star_Temp1'', ''hyperion_hk.Star_Temp2'', ''hyperion_hk.Star_Temp3'',
     ''hyperion_hk.Star_Temp_Adc'', ''hyperion_hk.Star_Dep_Temp1'', ''hyperion_hk.Star_Dep_Temp2'',
     ''hyperion_hk.Star_Dep_Temp3'', ''hyperion_hk.Star_Dep_Temp_Adc'', ''hyperion_hk.Zenith_Temp1'',
     ''hyperion_hk.Zenith_Temp2'', ''hyperion_hk.Zenith_Temp3'', ''hyperion_hk.Zenith_Temp_Adc'',
     ''hyperion_hk.Nadir_Pd1'', ''hyperion_hk.Port_Pd1'', ''hyperion_hk.Port_Pd2'', ''hyperion_hk.Port_Pd3'',
     ''hyperion_hk.Port_Dep_Pd1'', ''hyperion_hk.Port_Dep_Pd2'', ''hyperion_hk.Port_Dep_Pd3'',
     ''hyperion_hk.Star_Pd1'', ''hyperion_hk.Star_Pd2'', ''hyperion_hk.Star_Pd3'',
     ''hyperion_hk.Star_Dep_Pd1'', ''hyperion_hk.Star_Dep_Pd2'', ''hyperion_hk.Star_Dep_Pd3'',
     ''hyperion_hk.Zenith_Pd1'', ''hyperion_hk.Zenith_Pd2'', ''hyperion_hk.Zenith_Pd3'',
     ''hyperion_hk.Port_Voltage'', ''hyperion_hk.Port_Dep_Voltage'', ''hyperion_hk.Star_Voltage'',
     ''hyperion_hk.Star_Dep_Voltage'', ''hyperion_hk.Zenith_Voltage'', ''hyperion_hk.Port_Current'',
     ''hyperion_hk.Port_Dep_Current'', ''hyperion_hk.Star_Current'', ''hyperion_hk.Star_Dep_Current'',
     ''hyperion_hk.Zenith_Current'']"

definition mock_DFGM_hk :: "assignment list" where
  "mock_DFGM_hk =
   map (one Tfloat)
    [''DFGM_hk.coreVoltage'', ''DFGM_hk.sensorTemp'', ''DFGM_hk.refTemp'', ''DFGM_hk.boardTemp'',
     ''DFGM_hk.posRailVoltage'', ''DFGM_hk.inputVoltage'', ''DFGM_hk.refVoltage'', ''DFGM_hk.inputCurrent'',
     ''DFGM_hk.reserved1'', ''DFGM_hk.reserved2'', ''DFGM_hk.reserved3'', ''DFGM_hk.reserved4'']"

definition mock_fields :: "mock_env \<Rightarrow> assignment list" where
  "mock_fields M = mock_adcs_hk @ mock_Athena_hk (ATHENA_TEMP_ARRAY_SIZE M) @ mock_EPS_hk @ mock_UHF_hk (SCW_LEN M) @
     mock_S_band_hk @ mock_hyperion_hk @ mock_DFGM_hk"

primrec assign_all :: "mock_env \<Rightarrow> i32 \<Rightarrow> assignment list \<Rightarrow> All_systems_housekeeping \<Rightarrow> All_systems_housekeeping" where
  "assign_all M temp [] hk = hk"
| "assign_all M temp (a # as) hk = (case a of (m, i, t) \<Rightarrow> assign_all M temp as (store_member M m i (temp_as temp t) hk))"

definition mock_everyone ::
  "mock_env \<Rightarrow> All_systems_housekeeping \<Rightarrow> (i32 \<times> 'f hk_state, Result \<times> All_systems_housekeeping) prog" where
  "mock_everyone M hk =
     bnd (gets id) (\<lambda>(temp, s).
     let hk = hk\<lparr>hk_timeorder := (hk_timeorder hk)\<lparr>UNIXtimestamp := tempTime s\<rparr>\<rparr>;
         hk = assign_all M temp (mock_fields M) hk in
     andthen (modify (\<lambda>(temp, s). (temp + 1, s\<lparr>tempTime := tempTime s + 30\<rparr>)))
             (ret (SUCCESS, hk)))"

subsection \<open>The times of mock records\<close>

primrec mock_all ::
  "mock_env \<Rightarrow> All_systems_housekeeping list \<Rightarrow> (i32 \<times> 'f hk_state, All_systems_housekeeping list) prog" where
  "mock_all M [] = ret []"
| "mock_all M (hk # hks) =
     bnd (mock_everyone M hk) (\<lambda>r. bnd (mock_all M hks) (\<lambda>ks. ret (snd r # ks)))"

text \<open>Stores into the devices' members leave the time of the record.\<close>

definition keeps_time :: "mock_env \<Rightarrow> bool" where
  "keeps_time M \<longleftrightarrow> (\<forall>m i v hk. hk_timeorder (store_member M m i v hk) = hk_timeorder hk)"

lemma assign_all_time: "keeps_time M \<Longrightarrow> hk_timeorder (assign_all M temp as hk) = hk_timeorder hk"
  by (induction as arbitrary: hk) (auto simp: keeps_time_def)

lemma mock_all_run:
  assumes "keeps_time M"
  shows "\<exists>ks. mock_all M hks (temp, s) =
      Inr (ks, (temp + of_nat (length hks), s\<lparr>tempTime := tempTime s + 30 * of_nat (length hks)\<rparr>)) \<and>
    length ks = length hks \<and> (\<forall>i<length ks. time_of (ks ! i) = tempTime s + 30 * of_nat i)"
proof (induction hks arbitrary: temp s)
  case Nil
  show ?case by (simp add: ret_run)
next
  case (Cons hk hks)
  define k where "k = assign_all M temp (mock_fields M) (hk\<lparr>hk_timeorder := (hk_timeorder hk)\<lparr>UNIXtimestamp := tempTime s\<rparr>\<rparr>)"
  have t: "time_of k = tempTime s" using assign_all_time [OF assms] by (simp add: k_def time_of_def)
  have step: "mock_everyone M hk (temp, s) = Inr ((SUCCESS, k), (temp + 1, s\<lparr>tempTime := tempTime s + 30\<rparr>))"
    by (simp add: mock_everyone_def prog_simps k_def Let_def)
  from Cons.IH [of "temp + 1" "s\<lparr>tempTime := tempTime s + 30\<rparr>"] obtain ks where
    "mock_all M hks (temp + 1, s\<lparr>tempTime := tempTime s + 30\<rparr>) =
      Inr (ks, (temp + 1 + of_nat (length hks), s\<lparr>tempTime := tempTime s + 30 + 30 * of_nat (length hks)\<rparr>))"
    "length ks = length hks" "\<forall>i<length ks. time_of (ks ! i) = tempTime s + 30 + 30 * of_nat i" by auto
  then show ?case
    by (intro exI [of _ "k # ks"]) (auto simp: bnd_run ret_run step t nth_Cons' algebra_simps gr0_conv_Suc)
qed

text \<open>The test records that follow each other from the start of the program carry times 30 seconds apart:
  as many of them as there can be files are all found again by their times.\<close>

theorem mock_apart:
  assumes "keeps_time M" and "tempTime s = 1000" and "length hks \<le> 20160"
  shows "\<exists>ks st. mock_all M hks (temp, s) = Inr (ks, st) \<and> length ks = length hks \<and> apart ks \<and>
    (\<forall>i<length ks. time_of (ks ! i) = 1000 + 30 * of_nat i)"
proof -
  obtain ks st where k: "mock_all M hks (temp, s) = Inr (ks, st)" "length ks = length hks"
    "\<forall>i<length ks. time_of (ks ! i) = 1000 + 30 * of_nat i"
    using mock_all_run [OF assms(1), of hks temp s] assms(2) by auto
  have u: "unat (time_of (ks ! i)) = 1000 + 30 * i" if "i < length ks" for i
  proof -
    have "time_of (ks ! i) = of_nat (1000 + 30 * i)" using k(3) that by simp
    moreover have "1000 + 30 * i < 4294967296" using that k(2) assms(3) by simp
    ultimately show ?thesis by (simp only: unat_of_nat_u32)
  qed
  have "time_of j \<noteq> 0" if "j \<in> set ks" for j
    using that u by (auto simp: in_set_conv_nth word_unat_eq_iff)
  then have "apart ks" using u by (auto simp: apart_def)
  with k show ?thesis by blast
qed

definition small_mock :: mock_env where
  "small_mock = \<lparr>store_member = (\<lambda>m i v hk. hk\<lparr>adcs_hk := (adcs_hk hk)[i := (case v of U8 b \<Rightarrow> b | _ \<Rightarrow> 0)]\<rparr>),
     ATHENA_TEMP_ARRAY_SIZE = 6, SCW_LEN = 12\<rparr>"

theorem mock_apart_instance:
  "\<exists>ks st. mock_all small_mock [small_hk, small_hk] (0, hk_init empty_ram) = Inr (ks, st) \<and> apart ks \<and>
    time_of (ks ! 0) = 1000 \<and> time_of (ks ! 1) = 1030"
proof -
  have "keeps_time small_mock" by (simp add: keeps_time_def small_mock_def)
  moreover have "tempTime (hk_init empty_ram) = 1000" by (simp add: hk_init_def)
  ultimately obtain ks st where k: "mock_all small_mock [small_hk, small_hk] (0, hk_init empty_ram) = Inr (ks, st)"
    "length ks = 2" "apart ks" "\<forall>i<length ks. time_of (ks ! i) = 1000 + 30 * of_nat i"
    using mock_apart [of small_mock "hk_init empty_ram" "[small_hk, small_hk]" 0] by auto
  then show ?thesis using k(4) [rule_format, of 0] k(4) [rule_format, of 1] by auto
qed

end
