(* ===== verification/Hal.thy ===== *)
theory Hal
  imports Prelude
begin

text \<open>
  The example hardware layer of the demo, \<^verbatim>\<open>ex2_demo_software/hal.c\<close>: a clock that keeps what it is set to
  and sensors with constant values. Single-precision values are their bit patterns, and
  \<^verbatim>\<open>single_value\<close> says what a pattern stands for.
\<close>

subsection \<open>The clock\<close>

record HAL_rtc_t =
  unix_time :: u32

definition HAL_RTC_SetTime :: "u32 \<Rightarrow> (HAL_rtc_t, unit) prog" where
  "HAL_RTC_SetTime unix_timestamp = modify (\<lambda>rtc. rtc\<lparr>unix_time := unix_timestamp\<rparr>)"

definition HAL_RTC_GetTime :: "(HAL_rtc_t, u32) prog" where
  "HAL_RTC_GetTime = gets unix_time"

lemma HAL_RTC_round_trip:
  "andthen (HAL_RTC_SetTime t) HAL_RTC_GetTime rtc = Inr (t, rtc\<lparr>unix_time := t\<rparr>)"
  by (simp add: HAL_RTC_SetTime_def HAL_RTC_GetTime_def prog_simps)

subsection \<open>The sensors\<close>

definition HAL_get_temperature :: "(HAL_rtc_t, u32) prog" where "HAL_get_temperature = ret 0x4190147B"
definition HAL_get_current_1 :: "(HAL_rtc_t, u32) prog" where "HAL_get_current_1 = ret 0x40AAE148"
definition HAL_get_current_2 :: "(HAL_rtc_t, u32) prog" where "HAL_get_current_2 = ret 0x40A0F5C3"
definition HAL_get_voltage_1 :: "(HAL_rtc_t, u32) prog" where "HAL_get_voltage_1 = ret 0x40066666"
definition HAL_get_voltage_2 :: "(HAL_rtc_t, u32) prog" where "HAL_get_voltage_2 = ret 0x3FB9999A"

lemmas sensor_defs = HAL_get_temperature_def HAL_get_current_1_def HAL_get_current_2_def
  HAL_get_voltage_1_def HAL_get_voltage_2_def

text \<open>
  The value of a positive normal number, with its 8 bits of exponent and 23 bits of fraction, as a
  multiple of the 150th power of one half.
\<close>

definition single_value :: "u32 \<Rightarrow> int" where
  "single_value w = (let n = unat w in int ((2 ^ 23 + n mod 2 ^ 23) * 2 ^ (n div 2 ^ 23)))"

text \<open>A sensor returns the number that is nearest to the decimal in the source, given in hundredths.\<close>

definition off_by :: "int \<Rightarrow> u32 \<Rightarrow> int" where
  "off_by q w = \<bar>100 * single_value w - q * 2 ^ 150\<bar>"

definition senses :: "(HAL_rtc_t, u32) prog \<Rightarrow> int \<Rightarrow> bool" where
  "senses m q \<longleftrightarrow> (\<exists>w. (\<forall>rtc. m rtc = Inr (w, rtc)) \<and> off_by q w < off_by q (w + 1) \<and> off_by q w < off_by q (w - 1))"

lemma sensors_constant:
  "senses HAL_get_temperature 1801" "senses HAL_get_current_1 534" "senses HAL_get_current_2 503"
  "senses HAL_get_voltage_1 210" "senses HAL_get_voltage_2 145"
  by (simp_all add: senses_def sensor_defs ret_run off_by_def single_value_def)

end
