(* ===== verification/Strings.thy ===== *)
theory Strings
  imports Prelude
begin

text \<open>
  Text: C strings as bytes, the conversions of \<^verbatim>\<open>printf\<close> that the services use, \<^verbatim>\<open>snprintf\<close>
  into a buffer, and \<^verbatim>\<open>atoi\<close>.
\<close>

text \<open>Text as bytes, and decimal numbers for \<^verbatim>\<open>%d\<close>.\<close>

definition text_bytes :: "string \<Rightarrow> bytes" where
  "text_bytes cs = map (\<lambda>c. of_nat (of_char c)) cs"

fun decimal_nat :: "nat \<Rightarrow> string" where
  "decimal_nat n = (if n < 10 then [char_of (48 + n)] else decimal_nat (n div 10) @ [char_of (48 + n mod 10)])"

declare decimal_nat.simps [simp del]

definition decimal :: "int \<Rightarrow> string" where
  "decimal i = (if i < 0 then CHR ''-'' # decimal_nat (nat (- i)) else decimal_nat (nat i))"

definition newline :: string where "newline = [char_of (10 :: nat)]"

text \<open>\<^verbatim>\<open>%X\<close>.\<close>

definition hex_digit :: "nat \<Rightarrow> char" where
  "hex_digit d = char_of (if d < 10 then 48 + d else 55 + d)"

fun hex_nat :: "nat \<Rightarrow> string" where
  "hex_nat n = (if n < 16 then [hex_digit n] else hex_nat (n div 16) @ [hex_digit (n mod 16)])"

declare hex_nat.simps [simp del]

text \<open>
  \<^verbatim>\<open>snprintf(buf, n, "%s", cs)\<close>: at most \<open>n - 1\<close> characters and a null byte. Writing past the end
  of the buffer is a fault, whatever \<open>n\<close> is.
\<close>

definition snprintf :: "nat \<Rightarrow> string \<Rightarrow> bytes \<Rightarrow> ('s, bytes) prog" where
  "snprintf n cs buf =
     (if n = 0 then ret buf
      else let out = text_bytes (take (n - 1) cs) @ [0] in
        if length out \<le> length buf then ret (overlay 0 out buf) else fault OutOfBounds)"

text \<open>\<^verbatim>\<open>atoi\<close>: white space, a sign, digits.\<close>

definition is_digit :: "char \<Rightarrow> bool" where
  "is_digit c \<longleftrightarrow> 48 \<le> (of_char c :: nat) \<and> (of_char c :: nat) \<le> 57"

definition is_space :: "char \<Rightarrow> bool" where
  "is_space c \<longleftrightarrow> (of_char c :: nat) = 32 \<or> (9 \<le> (of_char c :: nat) \<and> (of_char c :: nat) \<le> 13)"

definition number :: "string \<Rightarrow> int" where
  "number cs = foldl (\<lambda>n c. 10 * n + (int (of_char c) - 48)) 0 (takeWhile is_digit cs)"

definition atoi :: "string \<Rightarrow> int" where
  "atoi cs = (case dropWhile is_space cs of
     [] \<Rightarrow> 0
   | c # ds \<Rightarrow> if c = CHR ''-'' then - number ds else if c = CHR ''+'' then number ds else number (c # ds))"

lemma decimal_small: "n < 1000 \<Longrightarrow> length (decimal_nat n) \<le> 3"
  by (simp add: decimal_nat.simps [of n] decimal_nat.simps [of "n div 10"] decimal_nat.simps [of "n div 10 div 10"])

lemma length_text_bytes [simp]: "length (text_bytes cs) = length cs"
  by (simp add: text_bytes_def)

lemma snprintf_run [prog_simps]:
  "0 < n \<Longrightarrow> min (n - 1) (length cs) < length buf \<Longrightarrow>
   snprintf n cs buf s = Inr (overlay 0 (text_bytes (take (n - 1) cs) @ [0]) buf, s)"
  by (simp add: snprintf_def prog_simps Let_def)

lemma number_snoc: "\<forall>c\<in>set cs. is_digit c \<Longrightarrow> is_digit c \<Longrightarrow> number (cs @ [c]) = 10 * number cs + (int (of_char c) - 48)"
  by (simp add: number_def takeWhile_eq_all_conv [THEN iffD2])

lemma digit_char: "d < 10 \<Longrightarrow> is_digit (char_of (48 + d)) \<and> int (of_char (char_of (48 + d) :: char)) = 48 + int d"
  by (simp add: is_digit_def)

lemma decimal_nat_digits: "decimal_nat n \<noteq> [] \<and> (\<forall>c\<in>set (decimal_nat n). is_digit c) \<and> number (decimal_nat n) = int n"
proof (induction n rule: decimal_nat.induct)
  case (1 n)
  show ?case
  proof (cases "n < 10")
    case True
    then show ?thesis using digit_char [of n] by (simp add: decimal_nat.simps [of n] number_def)
  next
    case False
    have "10 * int (n div 10) + int (n mod 10) = int n"
      using mult_div_mod_eq [of 10 n] by (metis of_nat_add of_nat_mult of_nat_numeral)
    with False 1 digit_char [of "n mod 10"] show ?thesis
      by (subst (1 2 3) decimal_nat.simps) (auto simp: number_snoc)
  qed
qed

lemma atoi_decimal: "atoi (decimal i) = i"
proof -
  have nd: "\<not> is_digit CHR ''-''" "\<not> is_digit CHR ''+''" "is_space c \<Longrightarrow> \<not> is_digit c" for c by (auto simp: is_digit_def is_space_def)
  have s: "\<not> is_space CHR ''-''" by (simp add: is_space_def)
  show ?thesis
  proof (cases "i < 0")
    case True
    then show ?thesis using decimal_nat_digits [of "nat (- i)"] s by (simp add: atoi_def decimal_def)
  next
    case False
    obtain c ds where c: "decimal_nat (nat i) = c # ds" using decimal_nat_digits [of "nat i"] by (cases "decimal_nat (nat i)") auto
    with decimal_nat_digits [of "nat i"] nd have "\<not> is_space c" "c \<noteq> CHR ''-''" "c \<noteq> CHR ''+''" by auto
    then show ?thesis using False c decimal_nat_digits [of "nat i"] by (simp add: atoi_def decimal_def)
  qed
qed

end
