(* ===== verification/Time_Management.thy ===== *)
theory Time_Management
  imports Utilities Service_Loop
begin

text \<open>
  \<^verbatim>\<open>Services/source/time_management/time_management_service.c\<close>: the requests that set and
  get the time, the service task, and the task that disciplines the RTC by GPS. The RTC driver and the
  GPS subsystem are parameters.
\<close>

definition MIN_YEAR :: u32 where [const_simps]: "MIN_YEAR = 1577836800"
definition MAX_YEAR :: u32 where [const_simps]: "MAX_YEAR = 1893456000"
definition GET_TIME :: byte where [const_simps]: "GET_TIME = 10"
definition SET_TIME :: byte where [const_simps]: "SET_TIME = 11"

definition TIMESTAMP_ISOK :: "u32 \<Rightarrow> bool" where
  "TIMESTAMP_ISOK x \<longleftrightarrow> x > MIN_YEAR \<and> x < MAX_YEAR"

record 'w rtc_ops =
  RTCMK_SetUnix :: "u32 \<Rightarrow> 'w \<Rightarrow> i8 \<times> 'w"
  RTCMK_GetUnix :: "'w \<Rightarrow> (i8 \<times> u32) \<times> 'w"

record 'w time_env =
  tm_rtc :: "'w rtc_ops"
  tm_ce :: csp_endian

definition time_management_app :: "'w time_env \<Rightarrow> ('w hst, SAT_returnState) prog" where
  "time_management_app E =
     (let ce = tm_ce E; e = host ce in
     bnd (pkt_byte SUBSERVICE_BYTE) (\<lambda>ser_subtype.
     if ser_subtype = SET_TIME then
       bnd (pkt_read IN_DATA_BYTE 4) (\<lambda>bs.
       let temp_time = csp_ntoh32 ce (cnv8_32 e bs) in
       andthen (if \<not> TIMESTAMP_ISOK temp_time then pkt_write STATUS_BYTE [-1]
                else bnd (hal (RTCMK_SetUnix (tm_rtc E) temp_time)) (\<lambda>status. pkt_write STATUS_BYTE [status]))
      (andthen (set_packet_length (1 + 1))
               (ret SATR_OK)))
     else if ser_subtype = GET_TIME then
       bnd (hal (RTCMK_GetUnix (tm_rtc E))) (\<lambda>r.
       let (status, t) = r; temp_time = csp_hton32 ce t in
       andthen (reply_data status (to_bytes e 4 temp_time))
               (ret SATR_OK))
     else ret SATR_PKT_ILLEGAL_SUBSERVICE))"

definition time_kicks :: kicks where
  "time_kicks = \<lparr>k_init = 1, k_iter = 1, k_timeout = 1, k_accept = 1\<rparr>"

definition time_management_service ::
  "'w csp_ops \<Rightarrow> 'w time_env \<Rightarrow> accept list \<Rightarrow> ('w pool, unit) prog" where
  "time_management_service ops E = service_task time_kicks (reply_step ops (time_management_app E))"

subsection \<open>The requests\<close>

lemma time_app_set:
  assumes "data s ! 0 = SET_TIME" and "5 \<le> length (data s)"
    and t: "t = csp_ntoh32 (tm_ce E) (cnv8_32 (host (tm_ce E)) (take 4 (drop 1 (data s))))"
  shows "time_management_app E s = Inr (SATR_OK,
    if TIMESTAMP_ISOK t then s\<lparr>world := snd (RTCMK_SetUnix (tm_rtc E) t (world s)),
        packet := status_packet (fst (RTCMK_SetUnix (tm_rtc E) t (world s))) (packet s)\<rparr>
    else s\<lparr>packet := status_packet (- 1) (packet s)\<rparr>)"
proof -
  have "data s \<noteq> []" using assms(2) by auto
  with assms show ?thesis
    by (simp add: time_management_app_def prog_simps const_simps Let_def status_packet_def)
qed

lemma time_app_get:
  assumes "data s ! 0 = GET_TIME" and "6 \<le> length (data s)"
    and g: "RTCMK_GetUnix (tm_rtc E) (world s) = ((status, t), w)"
  shows "time_management_app E s = Inr (SATR_OK, s\<lparr>world := w,
    packet := data_packet status (to_bytes (host (tm_ce E)) 4 (csp_hton32 (tm_ce E) t)) (packet s)\<rparr>)"
proof -
  have "data s \<noteq> []" using assms(2) by auto
  with assms show ?thesis
    by (simp add: time_management_app_def prog_simps const_simps Let_def)
qed

lemma time_app_other:
  "data s ! 0 \<notin> {SET_TIME, GET_TIME} \<Longrightarrow> data s \<noteq> [] \<Longrightarrow>
   time_management_app E s = Inr (SATR_PKT_ILLEGAL_SUBSERVICE, s)"
  by (auto simp: time_management_app_def prog_simps const_simps Let_def)

interpretation time: packet_app time_management_app "\<lambda>_. True" "\<lambda>_. 6"
  by unfold_locales
    (auto simp: time_management_app_def const_simps Let_def intro!: safe_intros)

subsection \<open>Disciplining the RTC\<close>

text \<open>
  \<^verbatim>\<open>DELAY_WAIT_INTERVAL\<close> comes from the system header. The state of the task is its watchdog
  counter, the milliseconds that it asked to sleep, and the world; an endless run is a run of
  any number of iterations.
\<close>

record 'w rtc_state =
  rtc_wdt_counter :: u32
  slept :: nat
  rworld :: 'w

record 'w gps_ops =
  gps_get_utc_time :: "'w \<Rightarrow> u32 option \<times> 'w"
  gps_set_rtc :: "u32 \<Rightarrow> 'w \<Rightarrow> i8 \<times> 'w"

definition DISCIPLINE_DELAY :: u16 where [const_simps]: "DISCIPLINE_DELAY = 10000"

definition rtc_kick :: "('w rtc_state, unit) prog" where
  "rtc_kick = modify (\<lambda>s. s\<lparr>rtc_wdt_counter := rtc_wdt_counter s + 1\<rparr>)"

primrec delay_loop :: "nat \<Rightarrow> u16 \<Rightarrow> u16 \<Rightarrow> ('w rtc_state, unit) prog" where
  "delay_loop 0 d total_delay = fault OutOfFuel"
| "delay_loop (Suc n) d total_delay =
     (if total_delay < DISCIPLINE_DELAY then
        andthen (modify (\<lambda>s. s\<lparr>slept := slept s + unat d\<rparr>))
       (andthen rtc_kick
                (delay_loop n d (total_delay + d)))
      else ret ())"

definition rtc_iteration :: "'w gps_ops \<Rightarrow> u16 \<Rightarrow> ('w rtc_state, unit) prog" where
  "rtc_iteration G d =
     andthen (delay_loop 10001 d 0)
    (andthen rtc_kick
    (bnd (\<lambda>s. Inr (fst (gps_get_utc_time G (rworld s)), s\<lparr>rworld := snd (gps_get_utc_time G (rworld s))\<rparr>)) (\<lambda>r.
     case r of
       None \<Rightarrow> ret ()
     | Some utc_time \<Rightarrow>
         andthen (modify (\<lambda>s. s\<lparr>rworld := snd (gps_set_rtc G utc_time (rworld s))\<rparr>))
                 rtc_kick)))"

primrec RTC_discipline_loop :: "'w gps_ops \<Rightarrow> u16 \<Rightarrow> nat \<Rightarrow> ('w rtc_state, unit) prog" where
  "RTC_discipline_loop G d 0 = ret ()"
| "RTC_discipline_loop G d (Suc n) = andthen (rtc_iteration G d) (RTC_discipline_loop G d n)"

definition RTC_discipline_service :: "'w gps_ops \<Rightarrow> u16 \<Rightarrow> nat \<Rightarrow> ('w rtc_state, unit) prog" where
  "RTC_discipline_service G d n = andthen rtc_kick (RTC_discipline_loop G d n)"

lemma rtc_kick_run [prog_simps]: "rtc_kick s = Inr ((), s\<lparr>rtc_wdt_counter := rtc_wdt_counter s + 1\<rparr>)"
  by (simp add: rtc_kick_def modify_run)

text \<open>The number of sleeps that reach ten seconds.\<close>

definition naps :: "u16 \<Rightarrow> u16 \<Rightarrow> nat" where
  "naps d t = (10000 - unat t + unat d - 1) div unat d"

lemma div_plus_Suc: "0 < (k :: nat) \<Longrightarrow> (m + k) div k = Suc (m div k)"
  using div_add_self2 [of k m] by simp

lemma delay_loop_run:
  assumes "d \<noteq> 0" and "unat d \<le> 55535" and "unat t \<le> 9999 + unat d" and "10000 - unat t < n"
  shows "delay_loop n d t s = Inr ((), s\<lparr>slept := slept s + naps d t * unat d,
    rtc_wdt_counter := rtc_wdt_counter s + of_nat (naps d t)\<rparr>)"
  using assms(3,4)
proof (induction n arbitrary: t s)
  case 0
  then show ?case by simp
next
  case (Suc n)
  have d: "1 \<le> unat d" using assms(1) by (simp add: Suc_le_eq unat_gt_0)
  show ?case
  proof (cases "t < DISCIPLINE_DELAY")
    case False
    then have "10000 \<le> unat t" by (simp add: DISCIPLINE_DELAY_def word_less_nat_alt)
    then have "naps d t = 0" using d by (simp add: naps_def)
    with False show ?thesis by (simp add: ret_run)
  next
    case True
    then have t: "unat t < 10000" by (simp add: DISCIPLINE_DELAY_def word_less_nat_alt)
    then have u: "unat (t + d) = unat t + unat d" using assms(2) by (simp add: unat_word_ariths)
    have "10000 - unat t + unat d - 1 = (10000 - unat (t + d) + unat d - 1) + unat d \<or>
      unat t + unat d \<ge> 10000" using t u d by linarith
    then have "naps d t = Suc (naps d (t + d))"
    proof
      assume a: "10000 - unat t + unat d - 1 = (10000 - unat (t + d) + unat d - 1) + unat d"
      have "naps d t = ((10000 - unat (t + d) + unat d - 1) + unat d) div unat d"
        unfolding naps_def a ..
      also have "\<dots> = Suc (naps d (t + d))" unfolding naps_def by (rule div_plus_Suc) (use d in simp)
      finally show ?thesis .
    next
      assume ge: "unat t + unat d \<ge> 10000"
      then have "naps d (t + d) = 0" using u d by (simp add: naps_def)
      moreover have "naps d t = 1"
        using ge t d by (auto simp: naps_def intro!: div_nat_eqI)
      ultimately show ?thesis by simp
    qed
    moreover have "10000 - unat (t + d) < n" "unat (t + d) \<le> 9999 + unat d" using Suc.prems t u d by linarith+
    ultimately show ?thesis
      using True Suc.IH [of "t + d"] by (simp add: prog_simps algebra_simps)
  qed
qed

lemma rtc_iteration_run:
  assumes d: "d \<noteq> 0" "unat d \<le> 55535"
    and g: "gps_get_utc_time G (rworld s) = (fix, w)"
  shows "rtc_iteration G d s = Inr ((), s\<lparr>slept := slept s + naps d 0 * unat d,
    rtc_wdt_counter := rtc_wdt_counter s + of_nat (naps d 0 + (case fix of None \<Rightarrow> 1 | Some _ \<Rightarrow> 2)),
    rworld := (case fix of None \<Rightarrow> w | Some t \<Rightarrow> snd (gps_set_rtc G t w))\<rparr>)"
  using delay_loop_run [OF d, of 0 10001 s] g
  by (cases "fix") (simp_all add: rtc_iteration_def prog_simps algebra_simps del: delay_loop.simps)

lemma naps_enough: "d \<noteq> 0 \<Longrightarrow> 10000 \<le> naps d 0 * unat d"
proof -
  assume "d \<noteq> 0"
  then have d: "0 < unat d" by (simp add: unat_gt_0)
  have "10000 + unat d - 1 = naps d 0 * unat d + (10000 + unat d - 1) mod unat d"
    unfolding naps_def by (simp only: unat_0 minus_nat.diff_0 div_mult_mod_eq)
  moreover have "(10000 + unat d - 1) mod unat d < unat d" using d by simp
  ultimately show ?thesis by linarith
qed

text \<open>
  What the GPS and the clock see of \<open>n\<close> iterations: the time is asked for once in each, and written
  into the clock when there is one. \<open>gps_runs\<close> gives the number of times written and the world after it.
\<close>

primrec gps_runs :: "'w gps_ops \<Rightarrow> nat \<Rightarrow> 'w \<Rightarrow> nat \<times> 'w" where
  "gps_runs G 0 w = (0, w)"
| "gps_runs G (Suc n) w = (case gps_get_utc_time G w of
     (None, v) \<Rightarrow> gps_runs G n v
   | (Some t, v) \<Rightarrow> (case gps_runs G n (snd (gps_set_rtc G t v)) of (k, u) \<Rightarrow> (Suc k, u)))"

text \<open>C22: With a delay that is neither zero nor so large that the 16-bit sum wraps around, any number of
  iterations of the RTC task end; each sleeps for at least ten seconds, asks the GPS for the time
  once and writes it into the clock when there is one, and the watchdog counter grows by the
  number of naps and one more in an iteration without a GPS fix, two more in one with a fix.\<close>

theorem RTC_discipline_loop_run:
  assumes d: "d \<noteq> 0" "unat d \<le> 55535" and g: "gps_runs G n (rworld s) = (fixes, w)"
  shows "RTC_discipline_loop G d n s = Inr ((), s\<lparr>slept := slept s + n * (naps d 0 * unat d),
      rtc_wdt_counter := rtc_wdt_counter s + of_nat (n * (naps d 0 + 1) + fixes), rworld := w\<rparr>) \<and>
    10000 \<le> naps d 0 * unat d"
  using g
proof (induction n arbitrary: s "fixes")
  case 0
  then show ?case using naps_enough [OF d(1)] by (simp add: ret_run)
next
  case (Suc n)
  obtain r v where r: "gps_get_utc_time G (rworld s) = (r, v)" by (metis prod.collapse)
  show ?case
  proof (cases r)
    case None
    with Suc.prems r have "gps_runs G n v = (fixes, w)" by simp
    with Suc.IH [of "s\<lparr>slept := slept s + naps d 0 * unat d,
        rtc_wdt_counter := rtc_wdt_counter s + of_nat (naps d 0 + 1), rworld := v\<rparr>" "fixes"] show ?thesis
      using rtc_iteration_run [OF d r] None by (simp add: andthen_run algebra_simps)
  next
    case (Some t)
    with Suc.prems r obtain k where k: "gps_runs G n (snd (gps_set_rtc G t v)) = (k, w)" "fixes = Suc k"
      by (auto split: prod.splits)
    with Suc.IH [of "s\<lparr>slept := slept s + naps d 0 * unat d,
        rtc_wdt_counter := rtc_wdt_counter s + of_nat (naps d 0 + 2), rworld := snd (gps_set_rtc G t v)\<rparr>" k] show ?thesis
      using rtc_iteration_run [OF d r] Some by (simp add: andthen_run algebra_simps)
  qed
qed

end
