(* ===== verification/Cli_Commands.thy ===== *)
theory Cli_Commands
  imports Reliance Strings Time_Management
begin

text \<open>
  The commands of the command line: \<^verbatim>\<open>Services/source/cli/fs_utils.c\<close> and the first half of
  \<^verbatim>\<open>Services/source/cli/cli.c\<close>. A command gets the size \<^verbatim>\<open>xWriteBufferLen\<close>, the command line and
  the contents of the output buffer; it returns whether there is more to come and the new
  contents. What the functions keep in static variables is the record \<^verbatim>\<open>cli_state\<close>.

  The interpreter FreeRTOS+CLI, the clock and the directory operations of the file system are
  parameters. A parameter of a command is a place in the command line: its offset and its
  length. A path is a pointer, null if there is no such parameter.
\<close>

subsection \<open>Environment and state\<close>

text \<open>
  What \<^verbatim>\<open>red_fstat\<close> fills in. The widths of its members and the calling convention are not in the repository:
  \<open>stat_args\<close> gives the six 32-bit arguments that the conversions of the format read when the six
  members, in this order, are passed to \<^verbatim>\<open>snprintf\<close>.
\<close>

record redstat =
  st_dev :: int
  st_ino :: int
  st_mode :: nat
  st_nlink :: int
  st_size :: int
  st_blocks :: int

record 'w cli_env =
  cli_red :: "'w red_ops"
  cli_rtc :: "'w rtc_ops"
  MAX_OUTPUT_SIZE :: nat
  prvGetNumberOfParameters :: "string \<Rightarrow> int"
  FreeRTOS_CLIGetParameter :: "string \<Rightarrow> nat \<Rightarrow> (nat \<times> nat) option"
  red_getcwd :: "'w \<Rightarrow> string option \<times> 'w"
  red_chdir :: "string option \<Rightarrow> 'w \<Rightarrow> int \<times> 'w"
  red_opendir :: "string \<Rightarrow> 'w \<Rightarrow> nat option \<times> 'w"
  red_readdir :: "nat option \<Rightarrow> 'w \<Rightarrow> string option \<times> 'w"
  red_closedir :: "nat option \<Rightarrow> 'w \<Rightarrow> 'w"
  red_mkdir :: "string option \<Rightarrow> 'w \<Rightarrow> int \<times> 'w"
  red_rmdir :: "string option \<Rightarrow> 'w \<Rightarrow> int \<times> 'w"
  red_unlink_result :: "string option \<Rightarrow> 'w \<Rightarrow> int \<times> 'w"
  red_fstat :: "int \<Rightarrow> 'w \<Rightarrow> (int \<times> redstat) \<times> 'w"
  red_transact :: "string option \<Rightarrow> 'w \<Rightarrow> int \<times> 'w"
  stat_args :: "redstat \<Rightarrow> i32 \<times> i32 \<times> u32 \<times> i32 \<times> i32 \<times> i32"

record 'w cli_state =
  parameter_num :: nat
  ls_firstRun :: bool
  ls_dir :: "nat option"
  stat_firstRun :: bool
  pStat :: redstat
  cworld :: 'w

type_synonym 'w cmd = "nat \<Rightarrow> string \<Rightarrow> bytes \<Rightarrow> ('w cli_state, bool \<times> bytes) prog"

text \<open>A call that works on the world, and the two ways to touch \<^verbatim>\<open>red_errno\<close>.\<close>

definition call :: "('w \<Rightarrow> 'a \<times> 'w) \<Rightarrow> ('w cli_state, 'a) prog" where
  "call f = (\<lambda>s. case f (cworld s) of (a, w) \<Rightarrow> Inr (a, s\<lparr>cworld := w\<rparr>))"

definition errno :: "'w cli_env \<Rightarrow> ('w cli_state, int) prog" where
  "errno E = gets (\<lambda>s. red_errno (cli_red E) (cworld s))"

definition clear_errno :: "'w cli_env \<Rightarrow> ('w cli_state, unit) prog" where
  "clear_errno E = call (\<lambda>w. ((), set_red_errno (cli_red E) 0 w))"

text \<open>
  The text at a parameter runs to the end of the command line: it is a pointer into the line.
\<close>

definition parameter_text :: "'w cli_env \<Rightarrow> string \<Rightarrow> nat \<Rightarrow> string option" where
  "parameter_text E line k = map_option (\<lambda>(off, len). drop off line) (FreeRTOS_CLIGetParameter E line k)"

text \<open>\<^verbatim>\<open>red_open\<close> of a null path fails with \<^verbatim>\<open>RED_EINVAL\<close>.\<close>

definition open_path :: "'w cli_env \<Rightarrow> string option \<Rightarrow> oflag \<Rightarrow> 'w \<Rightarrow> int \<times> 'w" where
  "open_path E path fl w = (case path of
     None \<Rightarrow> (-1, set_red_errno (cli_red E) RED_EINVAL w)
   | Some nm \<Rightarrow> red_open (cli_red E) nm fl w)"

subsection \<open>File commands\<close>

definition error_messages :: "(int \<times> string) list" where
  "error_messages = [(1, ''RED_EPERM''), (2, ''RED_ENOENT''), (5, ''RED_EIO''), (9, ''RED_EBADF''), (16, ''RED_EBUSY''),
     (17, ''RED_EEXIST''), (18, ''RED_EXDEV''), (20, ''RED_ENOTDIR''), (21, ''RED_EISDIR''), (22, ''RED_EINVAL''),
     (23, ''RED_ENFILE''), (24, ''RED_EMFILE''), (27, ''RED_EFBIG''), (28, ''RED_ENOSPC''), (30, ''RED_EROFS''),
     (31, ''RED_EMLINK''), (34, ''RED_ERANGE''), (36, ''RED_ENAMETOOLONG''), (38, ''RED_ENOSYS''), (39, ''RED_ENOTEMPTY''),
     (61, ''RED_ENODATA''), (87, ''RED_EUSERS'')]"

definition errorMsg :: "int \<Rightarrow> string" where
  "errorMsg e = (case map_of error_messages e of None \<Rightarrow> ''Unknown Error'' | Some m \<Rightarrow> m)"

definition createErrorOutput :: "'w cli_env \<Rightarrow> nat \<Rightarrow> bytes \<Rightarrow> ('w cli_state, bytes) prog" where
  "createErrorOutput E n buf =
     bnd (errno E) (\<lambda>e.
     bnd (snprintf n (errorMsg e @ newline) buf) (\<lambda>buf'.
     andthen (clear_errno E) (ret buf')))"

text \<open>\<^verbatim>\<open>createErrorOutput(...); return pdFALSE;\<close>\<close>

definition fail_with_error :: "'w cli_env \<Rightarrow> nat \<Rightarrow> bytes \<Rightarrow> ('w cli_state, bool \<times> bytes) prog" where
  "fail_with_error E n buf = bnd (createErrorOutput E n buf) (\<lambda>buf'. ret (False, buf'))"

definition prvPWDCommand :: "'w cli_env \<Rightarrow> 'w cmd" where
  "prvPWDCommand E n line buf =
     bnd (call (red_getcwd E)) (\<lambda>cwd. case cwd of
       None \<Rightarrow> fail_with_error E n buf
     | Some d \<Rightarrow> bnd (snprintf n (d @ newline) buf) (\<lambda>buf'. ret (False, buf')))"

text \<open>The commands that hand their first parameter to one function and report its error.\<close>

definition path_command :: "'w cli_env \<Rightarrow> (string option \<Rightarrow> 'w \<Rightarrow> int \<times> 'w) \<Rightarrow> 'w cmd" where
  "path_command E f n line buf =
     bnd (call (f (parameter_text E line 1))) (\<lambda>err.
     if err < 0 then fail_with_error E n buf else ret (False, buf))"

definition prvCDCommand :: "'w cli_env \<Rightarrow> 'w cmd" where "prvCDCommand E = path_command E (red_chdir E)"
definition prvMKDIRCommand :: "'w cli_env \<Rightarrow> 'w cmd" where "prvMKDIRCommand E = path_command E (red_mkdir E)"
definition prvRMDIRCommand :: "'w cli_env \<Rightarrow> 'w cmd" where "prvRMDIRCommand E = path_command E (red_rmdir E)"
definition prvRMCommand :: "'w cli_env \<Rightarrow> 'w cmd" where "prvRMCommand E = path_command E (red_unlink_result E)"
definition prvTRANSACTCommand :: "'w cli_env \<Rightarrow> 'w cmd" where "prvTRANSACTCommand E = path_command E (red_transact E)"

text \<open>The second half of \<^verbatim>\<open>prvLSCommand\<close>: the next entry of the open directory.\<close>

definition list_entry :: "'w cli_env \<Rightarrow> nat \<Rightarrow> bytes \<Rightarrow> ('w cli_state, bool \<times> bytes) prog" where
  "list_entry E n buf =
     andthen (clear_errno E)
    (bnd (gets ls_dir) (\<lambda>dir.
     bnd (call (red_readdir E dir)) (\<lambda>current. case current of
       None \<Rightarrow>
         bnd (errno E) (\<lambda>e.
         bnd (if e = 0 then snprintf n newline buf else createErrorOutput E n buf) (\<lambda>buf'.
         andthen (call (\<lambda>w. ((), red_closedir E dir w)))
        (andthen (modify (\<lambda>s. s\<lparr>ls_firstRun := True\<rparr>))
                 (ret (False, buf')))))
     | Some d_name \<Rightarrow>
         bnd (snprintf n (d_name @ newline) buf) (\<lambda>buf'. ret (True, buf')))))"

definition prvLSCommand :: "'w cli_env \<Rightarrow> 'w cmd" where
  "prvLSCommand E n line buf =
     bnd (gets ls_firstRun) (\<lambda>firstRun.
     if firstRun then
       andthen (clear_errno E)
      (bnd (call (red_getcwd E)) (\<lambda>cwd. case cwd of
         None \<Rightarrow> fail_with_error E n buf
       | Some d \<Rightarrow>
           bnd (call (red_opendir E d)) (\<lambda>dir.
           andthen (modify (\<lambda>s. s\<lparr>ls_dir := dir\<rparr>))
          (if dir = None then fail_with_error E n buf
           else andthen (modify (\<lambda>s. s\<lparr>ls_firstRun := False\<rparr>)) (list_entry E n buf)))))
     else list_entry E n buf)"

definition prvMKCommand :: "'w cli_env \<Rightarrow> 'w cmd" where
  "prvMKCommand E n line buf =
     bnd (call (open_path E (parameter_text E line 1) RED_CREAT_EXCL_RDWR)) (\<lambda>fd.
     if fd < 0 then fail_with_error E n buf
     else andthen (call (\<lambda>w. ((), red_close (cli_red E) fd w))) (ret (False, buf)))"

text \<open>
  \<^verbatim>\<open>firstRun\<close> of \<^verbatim>\<open>prvSTATCommand\<close> has no initialiser: it starts as false.
\<close>

definition no_stat :: redstat where
  "no_stat = \<lparr>st_dev = 0, st_ino = 0, st_mode = 0, st_nlink = 0, st_size = 0, st_blocks = 0\<rparr>"

definition stat_text :: "i32 \<times> i32 \<times> u32 \<times> i32 \<times> i32 \<times> i32 \<Rightarrow> string" where
  "stat_text = (\<lambda>(dev, ino, mode, nlink, size, blocks).
     ''dev '' @ decimal (sint dev) @ newline @ ''ino '' @ decimal (sint ino) @ newline @
     ''mode '' @ hex_nat (unat mode) @ newline @ ''nlink '' @ decimal (sint nlink) @ newline @
     ''size '' @ decimal (sint size) @ newline @ ''blocks '' @ decimal (sint blocks) @ newline)"

definition print_stat :: "'w cli_env \<Rightarrow> nat \<Rightarrow> bytes \<Rightarrow> ('w cli_state, bool \<times> bytes) prog" where
  "print_stat E n buf =
     bnd (gets pStat) (\<lambda>p.
     bnd (snprintf n (stat_text (stat_args E p)) buf) (\<lambda>buf'.
     andthen (modify (\<lambda>s. s\<lparr>stat_firstRun := True, pStat := no_stat\<rparr>)) (ret (False, buf'))))"

definition prvSTATCommand :: "'w cli_env \<Rightarrow> 'w cmd" where
  "prvSTATCommand E n line buf =
     bnd (gets stat_firstRun) (\<lambda>firstRun.
     if firstRun then
       bnd (call (open_path E (parameter_text E line 1) RED_RDONLY)) (\<lambda>fd.
       if fd < 0 then fail_with_error E n buf
       else
         bnd (call (red_fstat E fd)) (\<lambda>(err, p).
         andthen (modify (\<lambda>s. s\<lparr>pStat := p\<rparr>))
        (if err < 0 then fail_with_error E n buf
         else andthen (modify (\<lambda>s. s\<lparr>stat_firstRun := False\<rparr>)) (print_stat E n buf))))
     else print_stat E n buf)"

text \<open>\<^verbatim>\<open>prvREADCommand\<close> has an empty body: it ends without a value.\<close>

definition prvREADCommand :: "'w cli_env \<Rightarrow> 'w cmd" where
  "prvREADCommand E n line buf = fault NoValue"

subsection \<open>General commands\<close>

definition set_failed :: string where "set_failed = ''Failed to set time on RTC'' @ [char_of (13 :: nat), char_of (10 :: nat)]"
definition get_failed :: string where "get_failed = ''Could not get time'' @ [char_of (13 :: nat), char_of (10 :: nat)]"
definition crlf :: string where "crlf = [char_of (13 :: nat), char_of (10 :: nat)]"

definition prvTimeCommand :: "'w cli_env \<Rightarrow> 'w cmd" where
  "prvTimeCommand E n line buf =
     (if prvGetNumberOfParameters E line = 0 then
        bnd (call (RTCMK_GetUnix (cli_rtc E))) (\<lambda>(st, unix_time).
        bnd (snprintf (MAX_OUTPUT_SIZE E) (if st = -1 then get_failed else decimal (sint unix_time) @ crlf) buf) (\<lambda>buf'.
        ret (False, buf')))
      else case parameter_text E line 1 of
        Some p \<Rightarrow>
          bnd (call (RTCMK_SetUnix (cli_rtc E) (word_of_int (atoi p)))) (\<lambda>st.
          bnd (if st = -1 then snprintf (MAX_OUTPUT_SIZE E) set_failed buf else ret buf) (\<lambda>buf'.
          ret (False, buf')))
      | None \<Rightarrow>
          bnd (snprintf (length ''Time Command: not sure what happened'' + 3)
                 (''Time Command: not sure what happened'' @ crlf) buf) (\<lambda>buf'.
          ret (False, buf')))"

definition prvHelloCommand :: "'w cli_env \<Rightarrow> 'w cmd" where
  "prvHelloCommand E n line buf = bnd (snprintf n (''Hello'' @ crlf) buf) (\<lambda>buf'. ret (False, buf'))"

definition prvEchoCommand :: "'w cli_env \<Rightarrow> 'w cmd" where
  "prvEchoCommand E n line buf =
     bnd (gets parameter_num) (\<lambda>k.
     if k = 0 then andthen (modify (\<lambda>s. s\<lparr>parameter_num := 1\<rparr>)) (ret (True, buf))
     else case FreeRTOS_CLIGetParameter E line k of
       Some (off, parameter_len) \<Rightarrow>
         bnd (snprintf (parameter_len + 2) (drop off line @ '' '') buf) (\<lambda>buf'.
         andthen (modify (\<lambda>s. s\<lparr>parameter_num := k + 1\<rparr>)) (ret (True, buf')))
     | None \<Rightarrow>
         bnd (snprintf 3 crlf buf) (\<lambda>buf'.
         andthen (modify (\<lambda>s. s\<lparr>parameter_num := 0\<rparr>)) (ret (False, buf'))))"

subsection \<open>The table\<close>

datatype command = Echo | Hello | Time_Command | Pwd | Ls | Cd | Mkdir | Rmdir | Mk | Rm | Stat | Read_Command | Transact

text \<open>
  The registered commands in the order of their registration: name, function, number of parameters
  (\<open>-1\<close>: any number).
\<close>

definition fs_utils :: "(string \<times> command \<times> int) list" where
  "fs_utils = [(''pwd'', Pwd, 0), (''ls'', Ls, 0), (''cd'', Cd, 1), (''mkdir'', Mkdir, 1), (''rmdir'', Rmdir, 1),
     (''mk'', Mk, 1), (''rm'', Rm, -1), (''stat'', Stat, 1), (''read'', Read_Command, 1), (''transact'', Transact, 1)]"

definition register_commands :: "(string \<times> command \<times> int) list" where
  "register_commands = [(''echo'', Echo, -1), (''hello'', Hello, 0), (''time'', Time_Command, -1)] @ fs_utils"

definition run_command :: "'w cli_env \<Rightarrow> command \<Rightarrow> 'w cmd" where
  "run_command E c = (case c of Echo \<Rightarrow> prvEchoCommand E | Hello \<Rightarrow> prvHelloCommand E | Time_Command \<Rightarrow> prvTimeCommand E
     | Pwd \<Rightarrow> prvPWDCommand E | Ls \<Rightarrow> prvLSCommand E | Cd \<Rightarrow> prvCDCommand E | Mkdir \<Rightarrow> prvMKDIRCommand E
     | Rmdir \<Rightarrow> prvRMDIRCommand E | Mk \<Rightarrow> prvMKCommand E | Rm \<Rightarrow> prvRMCommand E | Stat \<Rightarrow> prvSTATCommand E
     | Read_Command \<Rightarrow> prvREADCommand E | Transact \<Rightarrow> prvTRANSACTCommand E)"

definition cli_start :: "'w \<Rightarrow> 'w cli_state" where
  "cli_start w = \<lparr>parameter_num = 0, ls_firstRun = True, ls_dir = None, stat_firstRun = False, pStat = no_stat, cworld = w\<rparr>"

end
