(* ===== verification/Startup.thy ===== *)
theory Startup
  imports Service_Loop Cli_Commands
begin

text \<open>
  Starting the services: \<^verbatim>\<open>start_service_server\<close> of \<^verbatim>\<open>Services/source/services.c\<close> and the
  \<^verbatim>\<open>start_*\<close> functions of the service files. FreeRTOS (\<^verbatim>\<open>xTaskCreate\<close>), the task manager
  (\<^verbatim>\<open>ex2_register\<close>, which is given a task and the function that reads its watchdog counter) and
  the command interpreter are parameters.
\<close>

datatype task = Csp_server | Cli_service | Communication_service | Time_management_service | RTC_service | NMEA_service
  | Housekeeping_service | General_service | Updater_service | Logger_service | Dfgm_service | Adcs_service
  | Service_response_task | Fifo_rx

record task_params =
  t_code :: task
  t_name :: string
  t_stack :: nat
  t_prio :: nat

record 'w boot_env =
  xTaskCreate :: "task_params \<Rightarrow> 'w \<Rightarrow> nat option \<times> 'w"
  ex2_register :: "nat \<Rightarrow> task \<Rightarrow> 'w \<Rightarrow> 'w"
  FreeRTOS_CLIRegisterCommand :: "string \<Rightarrow> 'w \<Rightarrow> 'w"
  NORMAL_SERVICE_PRIO :: nat

definition CLI_SVC_SIZE :: nat where [const_simps]: "CLI_SVC_SIZE = 1000"
definition GPS_TASK_SIZE :: nat where [const_simps]: "GPS_TASK_SIZE = 200"
definition NMEA_TASK_SIZE :: nat where [const_simps]: "NMEA_TASK_SIZE = 200"
definition TIME_MANAGEMENT_SIZE :: nat where [const_simps]: "TIME_MANAGEMENT_SIZE = 300"

definition create :: "'w boot_env \<Rightarrow> task_params \<Rightarrow> ('w, nat option) prog" where
  "create E p = (\<lambda>w. Inr (xTaskCreate E p w))"

text \<open>Create a task and register it, with the counter of its own file.\<close>

definition start_task :: "'w boot_env \<Rightarrow> task_params \<Rightarrow> ('w, SAT_returnState) prog" where
  "start_task E p =
     bnd (create E p) (\<lambda>r. case r of
       None \<Rightarrow> ret SATR_ERROR
     | Some svc_tsk \<Rightarrow> andthen (modify (ex2_register E svc_tsk (t_code p))) (ret SATR_OK))"

definition service_params :: "'w boot_env \<Rightarrow> task \<Rightarrow> string \<Rightarrow> nat \<Rightarrow> task_params" where
  "service_params E t nm stack = \<lparr>t_code = t, t_name = nm, t_stack = stack, t_prio = NORMAL_SERVICE_PRIO E\<rparr>"

definition start_communication_service :: "'w boot_env \<Rightarrow> ('w, SAT_returnState) prog" where
  "start_communication_service E = start_task E (service_params E Communication_service ''communication_service'' 1024)"

definition start_gps_services :: "'w boot_env \<Rightarrow> ('w, SAT_returnState) prog" where
  "start_gps_services E =
     bnd (start_task E \<lparr>t_code = RTC_service, t_name = ''RTC_service'', t_stack = GPS_TASK_SIZE, t_prio = 1\<rparr>) (\<lambda>r.
     if r \<noteq> SATR_OK then ret SATR_ERROR
     else start_task E \<lparr>t_code = NMEA_service, t_name = ''NMEA_service'', t_stack = NMEA_TASK_SIZE, t_prio = 1\<rparr>)"

definition start_time_management_service :: "'w boot_env \<Rightarrow> ('w, SAT_returnState) prog" where
  "start_time_management_service E =
     bnd (start_task E (service_params E Time_management_service ''time_management_service'' TIME_MANAGEMENT_SIZE)) (\<lambda>r.
     if r \<noteq> SATR_OK then ret SATR_ERROR
     else bnd (start_gps_services E) (\<lambda>g. if g \<noteq> SATR_OK then ret SATR_ERROR else ret SATR_OK))"

definition start_housekeeping_service :: "'w boot_env \<Rightarrow> ('w, SAT_returnState) prog" where
  "start_housekeeping_service E = start_task E (service_params E Housekeeping_service ''start_housekeeping_service'' 600)"

definition start_general_service :: "'w boot_env \<Rightarrow> ('w, SAT_returnState) prog" where
  "start_general_service E = start_task E (service_params E General_service ''general_service'' 300)"

definition start_updater_service :: "'w boot_env \<Rightarrow> ('w, SAT_returnState) prog" where
  "start_updater_service E = start_task E (service_params E Updater_service ''updater_service'' 300)"

definition start_logger_service :: "'w boot_env \<Rightarrow> ('w, SAT_returnState) prog" where
  "start_logger_service E = start_task E (service_params E Logger_service ''start_logger_service'' 1200)"

definition start_dfgm_service :: "'w boot_env \<Rightarrow> ('w, SAT_returnState) prog" where
  "start_dfgm_service E = start_task E (service_params E Dfgm_service ''dfgm_service'' 1024)"

definition start_adcs_service :: "'w boot_env \<Rightarrow> ('w, SAT_returnState) prog" where
  "start_adcs_service E = start_task E (service_params E Adcs_service ''adcs_service'' 1024)"

primrec register_all :: "'w boot_env \<Rightarrow> (string \<times> command \<times> int) list \<Rightarrow> 'w \<Rightarrow> 'w" where
  "register_all E [] w = w"
| "register_all E (c # cs) w = register_all E cs (FreeRTOS_CLIRegisterCommand E (fst c) w)"

definition start_cli_service :: "'w boot_env \<Rightarrow> ('w, SAT_returnState) prog" where
  "start_cli_service E =
     bnd (start_task E (service_params E Cli_service ''cli_svc'' CLI_SVC_SIZE)) (\<lambda>r.
     if r \<noteq> SATR_OK then ret SATR_ERROR
     else andthen (modify (register_all E register_commands)) (ret SATR_OK))"

text \<open>\<^verbatim>\<open>if (f() != SATR_OK || g() != SATR_OK || ...) return SATR_ERROR; return SATR_OK;\<close>\<close>

primrec all_ok :: "('w, SAT_returnState) prog list \<Rightarrow> ('w, SAT_returnState) prog" where
  "all_ok [] = ret SATR_OK"
| "all_ok (f # fs) = bnd f (\<lambda>r. if r \<noteq> SATR_OK then ret SATR_ERROR else all_ok fs)"

definition start_service_server :: "'w boot_env \<Rightarrow> ('w, SAT_returnState) prog" where
  "start_service_server E =
     bnd (create E (service_params E Csp_server ''csp_server THREAD'' 256)) (\<lambda>r.
     if r = None then ret SATR_ERROR
     else
       andthen (start_cli_service E)
               (all_ok [start_communication_service E, start_time_management_service E, start_housekeeping_service E,
                  start_general_service E, start_updater_service E, start_logger_service E, start_dfgm_service E]))"

text \<open>
  The ping server hands every packet to libcsp and has no watchdog counter of its own.
\<close>

definition csp_server :: "(nat \<Rightarrow> ('w pool, unit) prog) \<Rightarrow> accept list \<Rightarrow> ('w pool, unit) prog" where
  "csp_server csp_service_handler = service_task \<lparr>k_init = 0, k_iter = 0, k_timeout = 0, k_accept = 0\<rparr> csp_service_handler"

text \<open>The port that a task binds its socket to; the ping server has a port of libcsp, the others have none.\<close>

definition service_port :: "task \<Rightarrow> nat option" where
  "service_port t = (case t of
     Time_management_service \<Rightarrow> Some 8
   | Communication_service \<Rightarrow> Some 10
   | General_service \<Rightarrow> Some 11
   | Updater_service \<Rightarrow> Some 12
   | Logger_service \<Rightarrow> Some 13
   | Cli_service \<Rightarrow> Some 14
   | Housekeeping_service \<Rightarrow> Some 17
   | Adcs_service \<Rightarrow> Some 18
   | Dfgm_service \<Rightarrow> Some 19
   | _ \<Rightarrow> None)"

definition MAX_SERVICES :: nat where [const_simps]: "MAX_SERVICES = 64"

text \<open>No two services share a port, and every port fits the six bits of a packet header.\<close>

lemma service_port_unique: "service_port t = Some p \<Longrightarrow> service_port u = Some p \<Longrightarrow> t = u \<and> p < MAX_SERVICES"
  by (cases t; cases u) (auto simp: service_port_def MAX_SERVICES_def)

subsection \<open>What runs after the start\<close>

text \<open>
  The operating system, seen through the tasks it has created and those the task manager has
  registered, with their handles: a creation adds its task, unless the task is one of \<open>bad\<close>.
\<close>

definition boot_ok :: "'w boot_env \<Rightarrow> (task \<Rightarrow> bool) \<Rightarrow> ('w \<Rightarrow> (task \<times> nat) list) \<Rightarrow> ('w \<Rightarrow> (task \<times> nat) list) \<Rightarrow> bool" where
  "boot_ok E bad made regs \<longleftrightarrow>
     (\<forall>p w. case xTaskCreate E p w of
        (None, w') \<Rightarrow> bad (t_code p) \<and> made w' = made w \<and> regs w' = regs w
      | (Some h, w') \<Rightarrow> \<not> bad (t_code p) \<and> made w' = made w @ [(t_code p, h)] \<and> regs w' = regs w) \<and>
     (\<forall>h t w. made (ex2_register E h t w) = made w \<and> regs (ex2_register E h t w) = regs w @ [(t, h)]) \<and>
     (\<forall>c w. made (FreeRTOS_CLIRegisterCommand E c w) = made w \<and> regs (FreeRTOS_CLIRegisterCommand E c w) = regs w)"

text \<open>
  A program brings up the tasks \<open>ts\<close>: it creates and registers them up to the first bad one and
  succeeds if none is.
\<close>

definition brings_up ::
  "(task \<Rightarrow> bool) \<Rightarrow> ('w \<Rightarrow> (task \<times> nat) list) \<Rightarrow> ('w \<Rightarrow> (task \<times> nat) list) \<Rightarrow> task list \<Rightarrow> ('w, SAT_returnState) prog \<Rightarrow> bool" where
  "brings_up bad made regs ts m \<longleftrightarrow> (\<forall>w. \<exists>new w'. m w = Inr (if \<exists>t\<in>set ts. bad t then SATR_ERROR else SATR_OK, w') \<and>
     map fst new = takeWhile (\<lambda>t. \<not> bad t) ts \<and> made w' = made w @ new \<and> regs w' = regs w @ new)"

lemma brings_upD:
  "brings_up bad made regs ts m \<Longrightarrow> \<exists>new w'. m w = Inr (if \<exists>t\<in>set ts. bad t then SATR_ERROR else SATR_OK, w') \<and>
     map fst new = takeWhile (\<lambda>t. \<not> bad t) ts \<and> made w' = made w @ new \<and> regs w' = regs w @ new"
  unfolding brings_up_def by blast

lemma brings_up_task:
  assumes ok: "boot_ok E bad made regs"
  shows "brings_up bad made regs [t_code p] (start_task E p)"
  unfolding brings_up_def
proof
  fix w
  obtain r w' where c: "xTaskCreate E p w = (r, w')" by force
  have q: "case xTaskCreate E p w of (None, w') \<Rightarrow> bad (t_code p) \<and> made w' = made w \<and> regs w' = regs w
      | (Some h, w') \<Rightarrow> \<not> bad (t_code p) \<and> made w' = made w @ [(t_code p, h)] \<and> regs w' = regs w"
    by (rule ok [unfolded boot_ok_def, THEN conjunct1, THEN spec, THEN spec])
  have reg: "made (ex2_register E h t v) = made v \<and> regs (ex2_register E h t v) = regs v @ [(t, h)]" for h t v
    using ok unfolding boot_ok_def by blast
  show "\<exists>new w'. start_task E p w = Inr (if \<exists>t\<in>set [t_code p]. bad t then SATR_ERROR else SATR_OK, w') \<and>
     map fst new = takeWhile (\<lambda>t. \<not> bad t) [t_code p] \<and> made w' = made w @ new \<and> regs w' = regs w @ new"
  proof (cases r)
    case None
    with c q show ?thesis by (intro exI [of _ "[]"] exI [of _ w']) (simp add: start_task_def create_def prog_simps)
  next
    case (Some h)
    with c q reg show ?thesis
      by (intro exI [of _ "[(t_code p, h)]"] exI [of _ "ex2_register E h (t_code p) w'"])
        (simp add: start_task_def create_def prog_simps)
  qed
qed

lemma brings_up_then:
  assumes "brings_up bad made regs ts m" and "brings_up bad made regs us k"
  shows "brings_up bad made regs (ts @ us) (bnd m (\<lambda>r. if r \<noteq> SATR_OK then ret SATR_ERROR else k))"
  unfolding brings_up_def
proof
  fix w
  obtain new w1 where 1: "m w = Inr (if \<exists>t\<in>set ts. bad t then SATR_ERROR else SATR_OK, w1)"
    "map fst new = takeWhile (\<lambda>t. \<not> bad t) ts" "made w1 = made w @ new" "regs w1 = regs w @ new"
    using brings_upD [OF assms(1), of w] by blast
  obtain new' w2 where 2: "k w1 = Inr (if \<exists>t\<in>set us. bad t then SATR_ERROR else SATR_OK, w2)"
    "map fst new' = takeWhile (\<lambda>t. \<not> bad t) us" "made w2 = made w1 @ new'" "regs w2 = regs w1 @ new'"
    using brings_upD [OF assms(2), of w1] by blast
  show "\<exists>n v. bnd m (\<lambda>r. if r \<noteq> SATR_OK then ret SATR_ERROR else k) w =
      Inr (if \<exists>t\<in>set (ts @ us). bad t then SATR_ERROR else SATR_OK, v) \<and>
    map fst n = takeWhile (\<lambda>t. \<not> bad t) (ts @ us) \<and> made v = made w @ n \<and> regs v = regs w @ n"
  proof (cases "\<exists>t\<in>set ts. bad t")
    case True
    then show ?thesis using 1 by (intro exI [of _ new] exI [of _ w1]) (auto simp: prog_simps takeWhile_append)
  next
    case False
    then show ?thesis using 1 2
      by (intro exI [of _ "new @ new'"] exI [of _ w2]) (auto simp: prog_simps takeWhile_append takeWhile_eq_all_conv)
  qed
qed

lemma brings_up_nothing: "brings_up bad made regs [] (ret SATR_OK)"
  by (simp add: brings_up_def prog_simps)

lemma brings_up_all:
  "list_all2 (brings_up bad made regs) tss fs \<Longrightarrow> brings_up bad made regs (concat tss) (all_ok fs)"
  by (induction rule: list_all2_induct) (auto intro: brings_up_nothing brings_up_then)

definition service_tasks :: "task list" where
  "service_tasks = [Communication_service, Time_management_service, RTC_service, NMEA_service, Housekeeping_service,
     General_service, Updater_service, Logger_service, Dfgm_service]"

lemma brings_up_time:
  assumes ok: "boot_ok E bad made regs"
  shows "brings_up bad made regs [Time_management_service, RTC_service, NMEA_service] (start_time_management_service E)"
proof -
  have t: "brings_up bad made regs [t] (start_task E p)" if "t_code p = t" for t p
    using brings_up_task [OF ok, of p] that by simp
  have g: "brings_up bad made regs [RTC_service, NMEA_service] (start_gps_services E)"
    unfolding start_gps_services_def by (rule brings_up_then [of _ _ _ "[_]" _ "[_]", simplified append.simps]) (simp_all add: t)
  have "brings_up bad made regs ([RTC_service, NMEA_service] @ [])
      (bnd (start_gps_services E) (\<lambda>g. if g \<noteq> SATR_OK then ret SATR_ERROR else ret SATR_OK))"
    by (rule brings_up_then [OF g brings_up_nothing])
  then have "brings_up bad made regs ([Time_management_service] @ [RTC_service, NMEA_service]) (start_time_management_service E)"
    unfolding start_time_management_service_def by (intro brings_up_then) (simp_all add: t service_params_def)
  then show ?thesis by simp
qed

lemma register_all_same:
  "boot_ok E bad made regs \<Longrightarrow> made (register_all E cs w) = made w \<and> regs (register_all E cs w) = regs w"
  by (induction cs arbitrary: w) (simp_all add: boot_ok_def)

text \<open>
  What is created is, in order: the ping server, the command line service, and the service tasks up to
  the first that fails. Every task but the ping server is registered under the handle it was
  created with. A failure of the command line service has no consequence for the result.
\<close>

text \<open>C38: The start creates the ping server, the command line service and the service tasks in order up to
  the first that fails, registers every task but the ping server under its own handle, and
  succeeds exactly when no task but the command line service failed.\<close>

theorem start_service_server_tasks:
  assumes ok: "boot_ok E bad made regs"
  shows "\<exists>new w'. start_service_server E w =
      Inr (if bad Csp_server \<or> (\<exists>t\<in>set service_tasks. bad t) then SATR_ERROR else SATR_OK, w') \<and>
    map fst new = (if bad Csp_server then [] else Csp_server # takeWhile (\<lambda>t. \<not> bad t) [Cli_service] @
      takeWhile (\<lambda>t. \<not> bad t) service_tasks) \<and>
    made w' = made w @ new \<and> regs w' = regs w @ tl new"
proof -
  let ?p = "service_params E Csp_server ''csp_server THREAD'' 256"
  have t: "brings_up bad made regs [t] (start_task E (service_params E t nm n))" for t nm n
    using brings_up_task [OF ok, of "service_params E t nm n"] by (simp add: service_params_def)
  have rest: "brings_up bad made regs service_tasks (all_ok [start_communication_service E, start_time_management_service E,
      start_housekeeping_service E, start_general_service E, start_updater_service E, start_logger_service E,
      start_dfgm_service E])" (is "brings_up _ _ _ _ ?rest")
    using brings_up_all [of bad made regs "[[Communication_service], [Time_management_service, RTC_service, NMEA_service],
        [Housekeeping_service], [General_service], [Updater_service], [Logger_service], [Dfgm_service]]"
        "[start_communication_service E, start_time_management_service E, start_housekeeping_service E,
          start_general_service E, start_updater_service E, start_logger_service E, start_dfgm_service E]"]
    by (simp add: service_tasks_def brings_up_time [OF ok] t start_communication_service_def start_housekeeping_service_def
        start_general_service_def start_updater_service_def start_logger_service_def start_dfgm_service_def)
  have c: "case xTaskCreate E ?p w of (None, w') \<Rightarrow> bad (t_code ?p) \<and> made w' = made w \<and> regs w' = regs w
      | (Some h, w') \<Rightarrow> \<not> bad (t_code ?p) \<and> made w' = made w @ [(t_code ?p, h)] \<and> regs w' = regs w"
    by (rule ok [unfolded boot_ok_def, THEN conjunct1, THEN spec, THEN spec])
  obtain r w1 where x: "xTaskCreate E ?p w = (r, w1)" by force
  show ?thesis
  proof (cases r)
    case None
    then show ?thesis using c x
      by (intro exI [of _ "[]"] exI [of _ w1]) (simp add: start_service_server_def create_def prog_simps service_params_def)
  next
    case (Some h)
    let ?cli = "start_task E (service_params E Cli_service ''cli_svc'' CLI_SVC_SIZE)"
    obtain n1 w2 where cl: "?cli w1 = Inr (if bad Cli_service then SATR_ERROR else SATR_OK, w2)"
      "map fst n1 = takeWhile (\<lambda>t. \<not> bad t) [Cli_service]" "made w2 = made w1 @ n1" "regs w2 = regs w1 @ n1"
      using brings_upD [OF t, of Cli_service "''cli_svc''" CLI_SVC_SIZE w1] by auto
    obtain w3 q where w3: "start_cli_service E w1 = Inr (q, w3)" "made w3 = made w2" "regs w3 = regs w2"
      using cl(1) register_all_same [OF ok] by (cases "bad Cli_service") (simp_all add: start_cli_service_def prog_simps)
    obtain n2 w4 where r: "?rest w3 = Inr (if \<exists>t\<in>set service_tasks. bad t then SATR_ERROR else SATR_OK, w4)"
      "map fst n2 = takeWhile (\<lambda>t. \<not> bad t) service_tasks" "made w4 = made w3 @ n2" "regs w4 = regs w3 @ n2"
      using brings_upD [OF rest, of w3] by blast
    show ?thesis
      using Some c x cl(2-4) w3 r
      by (intro exI [of _ "(Csp_server, h) # n1 @ n2"] exI [of _ w4])
        (simp add: start_service_server_def create_def prog_simps service_params_def del: takeWhile.simps all_ok.simps)
  qed
qed

text \<open>An operating system without room for the updater.\<close>

definition small_os :: "((task \<times> nat) list \<times> (task \<times> nat) list) boot_env" where
  "small_os = \<lparr>xTaskCreate = (\<lambda>p (ms, rs). if t_code p = Updater_service then (None, (ms, rs))
       else (Some (length ms), (ms @ [(t_code p, length ms)], rs))),
     ex2_register = (\<lambda>h t (ms, rs). (ms, rs @ [(t, h)])), FreeRTOS_CLIRegisterCommand = (\<lambda>_ w. w), NORMAL_SERVICE_PRIO = 2\<rparr>"

lemma small_os_ok: "boot_ok small_os (\<lambda>t. t = Updater_service) fst snd"
  by (auto simp: boot_ok_def small_os_def)

end
