(* ===== verification/Demo.thy ===== *)
theory Demo
  imports Startup
begin

text \<open>
  \<^verbatim>\<open>ex2_demo_software/main.c\<close>: the executable that runs two of the services over a pair of FIFOs. A
  packet buffer is the memory from \<^verbatim>\<open>&packet->length\<close> on: two bytes of length, four of
  identifier, the data. libcsp, POSIX and FreeRTOS are parameters. \<^verbatim>\<open>init_zmq\<close> is not called.
\<close>

definition BUF_SIZE :: nat where [const_simps]: "BUF_SIZE = 250"

text \<open>The addresses of the nodes.\<close>

datatype TC_TM_app_id = OBC_APP_ID | EPS_APP_ID | ADCS_APP_ID | COMMS_APP_ID | GND_APP_ID | DEMO_APP_ID | LAST_APP_ID

primrec app_id :: "TC_TM_app_id \<Rightarrow> nat" where
  "app_id OBC_APP_ID = 1"
| "app_id EPS_APP_ID = 4"
| "app_id ADCS_APP_ID = 2"
| "app_id COMMS_APP_ID = 3"
| "app_id GND_APP_ID = 16"
| "app_id DEMO_APP_ID = 30"
| "app_id LAST_APP_ID = 31"

definition MAX_APP_ID :: nat where "MAX_APP_ID = 32"

lemma app_id_address: "app_id a < MAX_APP_ID \<and> (app_id a = app_id b \<longleftrightarrow> a = b)"
  by (cases a; cases b) (simp_all add: MAX_APP_ID_def)

declare app_id.simps [simp del]

record 'w demo_env =
  demo_boot :: "'w boot_env"
  demo_endian :: endianness
  demo_write :: "i32 \<Rightarrow> bytes \<Rightarrow> 'w \<Rightarrow> i32 \<times> 'w"
  demo_open :: "string \<Rightarrow> 'w \<Rightarrow> i32 \<times> 'w"
  demo_buffer_get :: "nat \<Rightarrow> 'w \<Rightarrow> bytes option \<times> 'w"
  demo_buffer_free :: "bytes \<Rightarrow> 'w \<Rightarrow> 'w"
  csp_qfifo_write :: "bytes \<Rightarrow> 'w \<Rightarrow> 'w"
  csp_debug_set_level :: "nat \<Rightarrow> bool \<Rightarrow> 'w \<Rightarrow> 'w"
  csp_init :: "nat \<Rightarrow> 'w \<Rightarrow> i32 \<times> 'w"
  csp_route_set :: "'w \<Rightarrow> 'w"
  csp_route_start_task :: "'w \<Rightarrow> 'w"
  print_tables :: "'w \<Rightarrow> 'w"
  vTaskStartScheduler :: "'w \<Rightarrow> 'w"
  csp_zmqhub_init :: "'w \<Rightarrow> i32 \<times> 'w"
  csp_rtable_set :: "'w \<Rightarrow> 'w"
  CSP_INFO :: nat
  CSP_LOCK :: nat
  configMAX_PRIORITIES :: nat

subsection \<open>The FIFO interface\<close>

definition packet_length :: "endianness \<Rightarrow> bytes \<Rightarrow> u16" where
  "packet_length e mem = of_bytes e (take 2 mem)"

text \<open>The result of the write is only reported on the console.\<close>

definition csp_fifo_tx :: "'w demo_env \<Rightarrow> i32 \<Rightarrow> bytes \<Rightarrow> ('w, i32) prog" where
  "csp_fifo_tx E tx_channel mem =
     (let n = unat (packet_length (demo_endian E) mem) + 4 + 2 in
     if length mem < n then fault OutOfBounds
     else bnd (\<lambda>w. Inr (demo_write E tx_channel (take n mem) w)) (\<lambda>r.
       andthen (modify (demo_buffer_free E mem)) (ret 0)))"

text \<open>
  What \<^verbatim>\<open>read(rx_channel, &buf->length, BUF_SIZE)\<close> returns, call by call: some bytes, or no bytes and
  a delay.
\<close>

datatype fifo_read = Got bytes | Idle

primrec rx_loop :: "'w demo_env \<Rightarrow> fifo_read list \<Rightarrow> bytes option \<Rightarrow> ('w, unit) prog" where
  "rx_loop E [] buf = ret ()"
| "rx_loop E (r # rs) buf = (case buf of
     None \<Rightarrow> fault NullDeref
   | Some mem \<Rightarrow> (case r of
       Idle \<Rightarrow> rx_loop E rs buf
     | Got bs \<Rightarrow>
         if length mem < length bs then fault OutOfBounds
         else andthen (modify (csp_qfifo_write E (overlay 0 bs mem)))
             (bnd (\<lambda>w. Inr (demo_buffer_get E BUF_SIZE w)) (\<lambda>buf. rx_loop E rs buf))))"

definition fifo_rx :: "'w demo_env \<Rightarrow> fifo_read list \<Rightarrow> ('w, unit) prog" where
  "fifo_rx E rs = bnd (\<lambda>w. Inr (demo_buffer_get E BUF_SIZE w)) (\<lambda>buf. rx_loop E rs buf)"

subsection \<open>The main program\<close>

datatype demo_outcome = Exit i32 | Running

primrec set_levels :: "'w demo_env \<Rightarrow> nat list \<Rightarrow> 'w \<Rightarrow> 'w" where
  "set_levels E [] w = w"
| "set_levels E (i # ls) w = set_levels E ls (csp_debug_set_level E i (i \<le> CSP_INFO E) w)"

definition debug_levels :: "'w demo_env \<Rightarrow> nat list" where
  "debug_levels E = [0..<CSP_LOCK E + 1]"

definition fifo_params :: "'w demo_env \<Rightarrow> task_params" where
  "fifo_params E = \<lparr>t_code = Fifo_rx, t_name = ''fifo rx'', t_stack = 128, t_prio = configMAX_PRIORITIES E - 1\<rparr>"

definition demo_main :: "'w demo_env \<Rightarrow> ('w, demo_outcome) prog" where
  "demo_main E =
     andthen (modify (set_levels E (debug_levels E)))
    (bnd (\<lambda>w. Inr (csp_init E (app_id DEMO_APP_ID) w)) (\<lambda>err.
     if err \<noteq> 0 then ret (Exit (-1))
     else bnd (\<lambda>w. Inr (demo_open E ''/datavolume1/sat_to_ground'' w)) (\<lambda>tx_channel.
     if sint tx_channel < 0 then ret (Exit (-1))
     else bnd (\<lambda>w. Inr (demo_open E ''/datavolume1/ground_to_sat'' w)) (\<lambda>rx_channel.
     if sint rx_channel < 0 then ret (Exit (-1))
     else bnd (create (demo_boot E) (fifo_params E)) (\<lambda>_.
     andthen (modify (csp_route_set E))
    (andthen (modify (csp_route_start_task E))
    (andthen (modify (print_tables E))
    (bnd (all_ok [start_time_management_service (demo_boot E), start_communication_service (demo_boot E)]) (\<lambda>r.
     if r \<noteq> SATR_OK then ret (Exit (-1))
     else andthen (modify (vTaskStartScheduler E)) (ret Running))))))))))"

definition init_zmq :: "'w demo_env \<Rightarrow> ('w, SAT_returnState) prog" where
  "init_zmq E =
     bnd (\<lambda>w. Inr (csp_zmqhub_init E w)) (\<lambda>err.
     if err \<noteq> 0 then ret SATR_ERROR
     else andthen (modify (csp_rtable_set E)) (ret SATR_OK))"

subsection \<open>Frames on the FIFO\<close>

text \<open>The frame of a buffer, and the reads that fetch a frame: at most \<^verbatim>\<open>BUF_SIZE\<close> bytes each.\<close>

definition frame :: "endianness \<Rightarrow> bytes \<Rightarrow> bytes" where
  "frame e mem = take (unat (packet_length e mem) + 6) mem"

function reads :: "bytes \<Rightarrow> bytes list" where
  "reads bs = (if bs = [] then [] else take BUF_SIZE bs # reads (drop BUF_SIZE bs))"
  by pat_completeness auto
termination by (relation "measure length") (auto simp: BUF_SIZE_def)

declare reads.simps [simp del]

primrec send_all :: "'w demo_env \<Rightarrow> i32 \<Rightarrow> bytes list \<Rightarrow> ('w, unit) prog" where
  "send_all E tx [] = ret ()"
| "send_all E tx (m # ms) = andthen (csp_fifo_tx E tx m) (send_all E tx ms)"

text \<open>
  A sender whose writes reach the FIFO, seen through the frames written; a receiver whose buffers have
  room for a whole read, seen through the buffers handed to libcsp.
\<close>

definition tx_ok :: "'w demo_env \<Rightarrow> i32 \<Rightarrow> ('w \<Rightarrow> bytes list) \<Rightarrow> bool" where
  "tx_ok E tx out \<longleftrightarrow> (\<forall>bs w. out (snd (demo_write E tx bs w)) = out w @ [bs]) \<and> (\<forall>m w. out (demo_buffer_free E m w) = out w)"

definition rx_ok :: "'w demo_env \<Rightarrow> ('w \<Rightarrow> bytes list) \<Rightarrow> bool" where
  "rx_ok E inq \<longleftrightarrow> (\<forall>m w. inq (csp_qfifo_write E m w) = inq w @ [m]) \<and>
     (\<forall>w. \<exists>m w'. demo_buffer_get E BUF_SIZE w = (Some m, w') \<and> BUF_SIZE \<le> length m \<and> inq w' = inq w)"

definition whole :: "endianness \<Rightarrow> bytes \<Rightarrow> bool" where
  "whole e mem \<longleftrightarrow> unat (packet_length e mem) + 6 \<le> length mem"

lemma send_all_run:
  assumes "tx_ok E tx out" and "\<forall>m\<in>set ms. whole (demo_endian E) m"
  shows "\<exists>w'. send_all E tx ms w = Inr ((), w') \<and> out w' = out w @ map (frame (demo_endian E)) ms"
  using assms(2)
proof (induction ms arbitrary: w)
  case Nil
  show ?case by (simp add: ret_run)
next
  case (Cons m ms)
  define v where "v = demo_buffer_free E m (snd (demo_write E tx (frame (demo_endian E) m) w))"
  have v: "out v = out w @ [frame (demo_endian E) m]" using assms(1) by (simp add: v_def tx_ok_def)
  have "csp_fifo_tx E tx m w = Inr (0, v)"
    using Cons.prems by (simp add: csp_fifo_tx_def whole_def frame_def v_def prog_simps Let_def add.commute)
  with Cons.IH [of v] Cons.prems v show ?case by (auto simp: andthen_run)
qed

lemma rx_loop_run:
  assumes "rx_ok E inq" and "\<forall>bs\<in>set bss. length bs \<le> BUF_SIZE" and "BUF_SIZE \<le> length b"
  shows "\<exists>w' ms. rx_loop E (map Got bss) (Some b) w = Inr ((), w') \<and> inq w' = inq w @ ms \<and>
    list_all2 (\<lambda>bs m. take (length bs) m = bs) bss ms"
  using assms(2,3)
proof (induction bss arbitrary: w b)
  case Nil
  show ?case by (simp add: ret_run)
next
  case (Cons bs bss)
  have len: "length bs \<le> length b" using Cons.prems by simp
  define m where "m = overlay 0 bs b"
  obtain b' v where v: "demo_buffer_get E BUF_SIZE (csp_qfifo_write E m w) = (Some b', v)" "BUF_SIZE \<le> length b'"
    "inq v = inq (csp_qfifo_write E m w)" using assms(1) unfolding rx_ok_def by blast
  have q: "inq v = inq w @ [m]" using assms(1) v(3) by (simp add: rx_ok_def)
  have "take (length bs) m = bs" using len by (simp add: m_def overlay_def)
  with Cons.IH [OF _ v(2), of v] Cons.prems(1) len v(1) q show ?case
    by (fastforce simp: andthen_run bnd_run modify_run m_def [symmetric])
qed

lemma fifo_rx_run:
  assumes "rx_ok E inq" and "\<forall>bs\<in>set bss. length bs \<le> BUF_SIZE"
  shows "\<exists>w' ms. fifo_rx E (map Got bss) w = Inr ((), w') \<and> inq w' = inq w @ ms \<and>
    list_all2 (\<lambda>bs m. take (length bs) m = bs) bss ms"
proof -
  obtain b v where "demo_buffer_get E BUF_SIZE w = (Some b, v)" "BUF_SIZE \<le> length b" "inq v = inq w"
    using assms(1) unfolding rx_ok_def by blast
  with rx_loop_run [OF assms this(2), of v] show ?thesis by (simp add: fifo_rx_def bnd_run)
qed

lemma reads_bound: "\<forall>bs\<in>set (reads f). length bs \<le> BUF_SIZE"
proof (induction f rule: reads.induct)
  case (1 f)
  then show ?case by (subst reads.simps) simp
qed

lemma reads_short: "f \<noteq> [] \<Longrightarrow> length f \<le> BUF_SIZE \<Longrightarrow> reads f = [f]"
  by (simp add: reads.simps [of f] reads.simps [of "[]"])

lemma reads_long:
  assumes "BUF_SIZE < length f" "length f \<le> 2 * BUF_SIZE"
  shows "reads f = [take BUF_SIZE f, drop BUF_SIZE f]"
  using assms reads_short [of "drop BUF_SIZE f"] by (subst reads.simps) auto

text \<open>
  A FIFO is a stream of bytes: a write appends its frame to the bytes that wait, a read takes up to
  \<^verbatim>\<open>BUF_SIZE\<close> of them, of whichever frames they are. The turns of the two sides are a list; the
  frames are written one after the other.
\<close>

datatype fifo_turn = Write | Read

primrec stream :: "fifo_turn list \<Rightarrow> bytes list \<Rightarrow> bytes \<Rightarrow> fifo_read list" where
  "stream [] fs waiting = []"
| "stream (t # ts) fs waiting = (case t of
     Write \<Rightarrow> (case fs of [] \<Rightarrow> stream ts [] waiting | f # fs' \<Rightarrow> stream ts fs' (waiting @ f))
   | Read \<Rightarrow> (if waiting = [] then Idle # stream ts fs []
       else Got (take BUF_SIZE waiting) # stream ts fs (drop BUF_SIZE waiting)))"

text \<open>Every write is followed by a read before the next write; the flag tells that a frame is waiting.\<close>

primrec read_each :: "bool \<Rightarrow> fifo_turn list \<Rightarrow> bool" where
  "read_each unread [] \<longleftrightarrow> \<not> unread"
| "read_each unread (t # ts) \<longleftrightarrow> (case t of Write \<Rightarrow> \<not> unread \<and> read_each True ts | Read \<Rightarrow> read_each False ts)"

definition got :: "fifo_read list \<Rightarrow> bytes list" where
  "got rs = concat (map (\<lambda>r. case r of Got bs \<Rightarrow> [bs] | Idle \<Rightarrow> []) rs)"

lemma got_simps [simp]: "got [] = []" "got (Got bs # rs) = bs # got rs" "got (Idle # rs) = got rs"
  by (simp_all add: got_def)

lemma rx_loop_got: "rx_ok E inq \<Longrightarrow> rx_loop E rs (Some b) w = rx_loop E (map Got (got rs)) (Some b) w"
proof (induction rs arbitrary: b w)
  case Nil
  show ?case by simp
next
  case (Cons r rs)
  show ?case
  proof (cases r)
    case (Got bs)
    obtain b' v where "demo_buffer_get E BUF_SIZE (csp_qfifo_write E (overlay 0 bs b) w) = (Some b', v)"
      using Cons.prems unfolding rx_ok_def by blast
    with Got Cons.IH [OF Cons.prems, of b' v] show ?thesis by (simp add: andthen_run bnd_run modify_run)
  next
    case Idle
    with Cons.IH [OF Cons.prems, of b w] show ?thesis by simp
  qed
qed

lemma fifo_rx_got:
  assumes "rx_ok E inq"
  shows "fifo_rx E rs w = fifo_rx E (map Got (got rs)) w"
proof -
  obtain b v where "demo_buffer_get E BUF_SIZE w = (Some b, v)" using assms unfolding rx_ok_def by blast
  with rx_loop_got [OF assms, of rs b v] show ?thesis by (simp add: fifo_rx_def bnd_run)
qed

lemma got_stream_each:
  assumes "read_each (q \<noteq> []) ts" and "count_list ts Write = length fs" and "length q \<le> BUF_SIZE"
    and "\<forall>f\<in>set fs. f \<noteq> [] \<and> length f \<le> BUF_SIZE"
  shows "got (stream ts fs q) = (if q = [] then fs else q # fs)"
  using assms
proof (induction ts arbitrary: fs q)
  case Nil
  then show ?case by simp
next
  case (Cons t ts)
  show ?case
  proof (cases t)
    case Write
    with Cons.prems(2) obtain f fs' where f: "fs = f # fs'" by (cases fs) auto
    with Cons.IH [of f fs'] Cons.prems Write show ?thesis by auto
  next
    case Read
    with Cons.IH [of "[]" fs] Cons.prems show ?thesis by (auto split: if_splits)
  qed
qed

lemma stream_writes: "stream (replicate (length fs) Write @ ts) fs q = stream ts [] (q @ concat fs)"
  by (induction fs arbitrary: q) simp_all

lemma got_idle: "got (stream (replicate k Read) fs []) = []"
  by (induction k) simp_all

lemma packet_length_take: "2 \<le> n \<Longrightarrow> packet_length e (take n m) = packet_length e m"
  by (simp add: packet_length_def min_def)

lemma frame_kept:
  assumes "whole e m" and "take (length (frame e m)) d = frame e m"
  shows "frame e d = frame e m"
proof -
  have n: "length (frame e m) = unat (packet_length e m) + 6" using assms(1) by (simp add: frame_def whole_def)
  have "packet_length e d = packet_length e (frame e m)"
    using packet_length_take [of "unat (packet_length e m) + 6" e d] assms(2) unfolding n by simp
  also have "\<dots> = packet_length e m" unfolding frame_def by (rule packet_length_take) simp
  finally show ?thesis using assms(2) unfolding n by (simp add: frame_def)
qed

text \<open>C39: The FIFO is a stream of bytes from which a read takes up to 250, of whichever frames they are.
  If every write of a frame is followed by a read before the next write, packets of at most 244
  bytes that are sent reach libcsp at the other end, all of them, in order and with the same
  identifier and data.\<close>

theorem fifo_round_trip:
  assumes tx: "tx_ok E tx out" and rx: "rx_ok E' inq"
    and ms: "\<forall>m\<in>set ms. whole (demo_endian E) m \<and> unat (packet_length (demo_endian E) m) \<le> 244"
    and ts: "read_each False ts" "count_list ts Write = length ms"
  shows "\<exists>fs v v' ds. send_all E tx ms w = Inr ((), v) \<and> out v = out w @ fs \<and>
    fifo_rx E' (stream ts fs []) w' = Inr ((), v') \<and> inq v' = inq w' @ ds \<and>
    list_all2 (\<lambda>m d. frame (demo_endian E) d = frame (demo_endian E) m) ms ds"
proof -
  let ?e = "demo_endian E" and ?fs = "map (frame (demo_endian E)) ms"
  have len: "\<forall>f\<in>set ?fs. f \<noteq> [] \<and> length f \<le> BUF_SIZE" using ms by (auto simp: frame_def whole_def BUF_SIZE_def)
  have fs: "got (stream ts ?fs []) = ?fs" using got_stream_each [of "[]" ts ?fs] ts len by simp
  obtain v where v: "send_all E tx ms w = Inr ((), v)" "out v = out w @ ?fs"
    using send_all_run [OF tx, of ms w] ms by blast
  obtain v' ds where d: "fifo_rx E' (stream ts ?fs []) w' = Inr ((), v')" "inq v' = inq w' @ ds"
    "list_all2 (\<lambda>bs m. take (length bs) m = bs) ?fs ds"
    using fifo_rx_run [OF rx, of ?fs w'] len unfolding fifo_rx_got [OF rx, of "stream ts ?fs []"] fs by blast
  have "list_all2 (\<lambda>m d. frame ?e d = frame ?e m) ms ds"
    using d(3) unfolding list.rel_map by (rule list.rel_mono_strong) (use ms frame_kept in blast)
  with v d(1,2) show ?thesis by (intro exI [of _ ?fs] exI [of _ v] exI [of _ v'] exI [of _ ds]) simp
qed

text \<open>
  Packets that are written before the first read, and that together fit into one read, arrive as one
  buffer. libcsp gets the first packet; the others, behind its end in the same buffer, are lost.
\<close>

theorem fifo_merges_short:
  assumes tx: "tx_ok E tx out" and rx: "rx_ok E' inq"
    and ms: "\<forall>m\<in>set (m # ms). whole (demo_endian E) m"
    and len: "sum_list (map (length \<circ> frame (demo_endian E)) (m # ms)) \<le> BUF_SIZE"
  shows "\<exists>fs v v' d. send_all E tx (m # ms) w = Inr ((), v) \<and> out v = out w @ fs \<and>
    fifo_rx E' (stream (replicate (length fs) Write @ replicate (Suc k) Read) fs []) w' = Inr ((), v') \<and>
    inq v' = inq w' @ [d] \<and> frame (demo_endian E) d = frame (demo_endian E) m"
proof -
  let ?e = "demo_endian E"
  let ?fs = "map (frame ?e) (m # ms)"
  let ?ts = "replicate (length ?fs) Write @ replicate (Suc k) Read"
  have m: "whole ?e m" using ms by simp
  have ne: "frame ?e m \<noteq> []" using m by (auto simp: frame_def whole_def)
  have l: "length (concat ?fs) \<le> BUF_SIZE" using len by (simp add: length_concat o_def)
  have fs: "got (stream ?ts ?fs []) = [concat ?fs]"
    unfolding stream_writes using ne l by (simp add: got_idle)
  obtain v where v: "send_all E tx (m # ms) w = Inr ((), v)" "out v = out w @ ?fs"
    using send_all_run [OF tx ms, of w] by blast
  have l': "\<forall>bs\<in>set [concat ?fs]. length bs \<le> BUF_SIZE" using l by simp
  obtain v' ds where d: "fifo_rx E' (stream ?ts ?fs []) w' = Inr ((), v')" "inq v' = inq w' @ ds"
    "list_all2 (\<lambda>bs m. take (length bs) m = bs) [concat ?fs] ds"
    using fifo_rx_run [OF rx l', of w'] unfolding fifo_rx_got [OF rx, of "stream ?ts ?fs []"] fs by blast
  then obtain x where x: "ds = [x]" "take (length (concat ?fs)) x = concat ?fs" by (auto simp: list_all2_Cons1)
  have "take (length (frame ?e m)) x = take (length (frame ?e m)) (take (length (concat ?fs)) x)"
    by (simp add: min_def)
  then have "take (length (frame ?e m)) x = frame ?e m" unfolding x(2) by simp
  from frame_kept [OF m this] v d(1,2) x(1) show ?thesis
    by (intro exI [of _ ?fs] exI [of _ v] exI [of _ v'] exI [of _ x]) simp
qed

text \<open>C40: A packet that fills the interface up to its transmission unit of 250 bytes, six bytes of header
  not counted, is read in two pieces: libcsp at the other end gets a truncated packet, and a
  second one that begins with the rest of the data.\<close>

theorem fifo_splits_full:
  assumes tx: "tx_ok E tx out" and rx: "rx_ok E' inq" and m: "whole (demo_endian E) m"
    and n: "n = unat (packet_length (demo_endian E) m)" "244 < n" "n \<le> BUF_SIZE"
  shows "\<exists>f v v' a b. send_all E tx [m] w = Inr ((), v) \<and> out v = out w @ [f] \<and>
    fifo_rx E' (map Got (reads f)) w' = Inr ((), v') \<and> inq v' = inq w' @ [a, b] \<and>
    take 250 a = take 250 m \<and> take (n - 244) b = take (n - 244) (drop 250 m)"
proof -
  let ?f = "frame (demo_endian E) m"
  have len: "length ?f = n + 6" using m n(1) by (simp add: frame_def whole_def)
  have two: "reads ?f = [take 250 m, take (n - 244) (drop 250 m)]"
    using reads_long [of ?f] len n by (simp add: BUF_SIZE_def frame_def min_def drop_take)
  have l: "length (take 250 m) = 250" "length (take (n - 244) (drop 250 m)) = n - 244"
    using m n by (simp_all add: whole_def)
  obtain v where v: "send_all E tx [m] w = Inr ((), v)" "out v = out w @ [?f]"
    using send_all_run [OF tx, of "[m]" w] m by auto
  obtain v' ds where d: "fifo_rx E' (map Got (reads ?f)) w' = Inr ((), v')" "inq v' = inq w' @ ds"
    "list_all2 (\<lambda>bs m. take (length bs) m = bs) (reads ?f) ds" using fifo_rx_run [OF rx reads_bound, of ?f w'] by blast
  then obtain a b where "ds = [a, b]" "take 250 a = take 250 m" "take (n - 244) b = take (n - 244) (drop 250 m)"
    unfolding two by (auto simp: list_all2_Cons1 l simp del: length_take)
  with v d(1,2) show ?thesis by (intro exI [of _ ?f] exI [of _ v] exI [of _ v'] exI [of _ a] exI [of _ b]) simp
qed

subsection \<open>What the main program starts\<close>

text \<open>The other calls of the main program create and register no task.\<close>

definition demo_quiet :: "'w demo_env \<Rightarrow> ('w \<Rightarrow> 'b) \<Rightarrow> bool" where
  "demo_quiet E v \<longleftrightarrow> (\<forall>i b w. v (csp_debug_set_level E i b w) = v w) \<and> (\<forall>a w. v (snd (csp_init E a w)) = v w) \<and>
     (\<forall>nm w. v (snd (demo_open E nm w)) = v w) \<and> (\<forall>w. v (csp_route_set E w) = v w) \<and>
     (\<forall>w. v (csp_route_start_task E w) = v w) \<and> (\<forall>w. v (print_tables E w) = v w) \<and> (\<forall>w. v (vTaskStartScheduler E w) = v w)"

definition demo_tasks :: "task list" where
  "demo_tasks = [Time_management_service, RTC_service, NMEA_service, Communication_service]"

lemma set_levels_quiet: "demo_quiet E v \<Longrightarrow> v (set_levels E ls w) = v w"
  by (induction ls arbitrary: w) (simp_all add: demo_quiet_def)

lemma demo_services:
  assumes ok: "boot_ok B bad made regs"
  shows "brings_up bad made regs demo_tasks (all_ok [start_time_management_service B, start_communication_service B])"
proof -
  have "brings_up bad made regs [Communication_service] (start_communication_service B)"
    using brings_up_task [OF ok, of "service_params B Communication_service ''communication_service'' 1024"]
    by (simp add: start_communication_service_def service_params_def)
  with brings_up_time [OF ok] have "list_all2 (brings_up bad made regs)
      [[Time_management_service, RTC_service, NMEA_service], [Communication_service]]
      [start_time_management_service B, start_communication_service B]" by simp
  from brings_up_all [OF this] show ?thesis by (simp add: demo_tasks_def)
qed

text \<open>The demo ends with an error before it creates any task, or it creates the FIFO task, if it can, and
  the tasks of its two services up to the first that fails; it runs exactly when none of these
  fails, and a FIFO task that could not be created goes unnoticed.\<close>

theorem demo_starts:
  assumes ok: "boot_ok (demo_boot E) bad made regs" and q: "demo_quiet E made"
  shows "\<exists>r new w'. demo_main E w = Inr (r, w') \<and> made w' = made w @ new \<and>
    (r = Exit (-1) \<and> new = [] \<or>
     r = (if \<exists>t\<in>set demo_tasks. bad t then Exit (-1) else Running) \<and>
     map fst new = filter (\<lambda>t. \<not> bad t) [Fifo_rx] @ takeWhile (\<lambda>t. \<not> bad t) demo_tasks)"
proof -
  note quiet = q [unfolded demo_quiet_def]
  define w1 where "w1 = set_levels E (debug_levels E) w"
  obtain err w2 where w2: "csp_init E (app_id DEMO_APP_ID) w1 = (err, w2)" by force
  obtain tx w3 where w3: "demo_open E ''/datavolume1/sat_to_ground'' w2 = (tx, w3)" by force
  obtain rx w4 where w4: "demo_open E ''/datavolume1/ground_to_sat'' w3 = (rx, w4)" by force
  obtain h w5 where w5: "xTaskCreate (demo_boot E) (fifo_params E) w4 = (h, w5)" by force
  define w6 where "w6 = print_tables E (csp_route_start_task E (csp_route_set E w5))"
  have m: "made w1 = made w" "made w2 = made w" "made w3 = made w" "made w4 = made w" "made w6 = made w5"
    using set_levels_quiet [OF q] quiet w2 w3 w4 unfolding w1_def w6_def by (metis snd_conv)+
  have "case xTaskCreate (demo_boot E) (fifo_params E) w4 of (None, w') \<Rightarrow> bad (t_code (fifo_params E)) \<and> made w' = made w4 \<and> regs w' = regs w4
      | (Some h, w') \<Rightarrow> \<not> bad (t_code (fifo_params E)) \<and> made w' = made w4 @ [(t_code (fifo_params E), h)] \<and> regs w' = regs w4"
    by (rule ok [unfolded boot_ok_def, THEN conjunct1, THEN spec, THEN spec])
  then obtain new1 where n1: "made w5 = made w @ new1" "map fst new1 = filter (\<lambda>t. \<not> bad t) [Fifo_rx]"
    using w5 m(4) by (cases h) (auto simp: fifo_params_def)
  obtain new2 w7 where s: "all_ok [start_time_management_service (demo_boot E), start_communication_service (demo_boot E)] w6 =
      Inr (if \<exists>t\<in>set demo_tasks. bad t then SATR_ERROR else SATR_OK, w7)"
    "map fst new2 = takeWhile (\<lambda>t. \<not> bad t) demo_tasks" "made w7 = made w6 @ new2"
    using brings_upD [OF demo_services [OF ok], of w6] by blast
  note run = demo_main_def bnd_run andthen_run modify_run ret_run create_def w1_def [symmetric] w2 w3 w4 w5 w6_def [symmetric] s(1)
  consider "err \<noteq> 0" | "err = 0" "sint tx < 0" | "err = 0" "\<not> sint tx < 0" "sint rx < 0"
    | "err = 0" "\<not> sint tx < 0" "\<not> sint rx < 0" by blast
  then show ?thesis
  proof cases
    case 1
    then show ?thesis by (intro exI [of _ "Exit (-1)"] exI [of _ "[]"] exI [of _ w2]) (simp add: run m del: all_ok.simps)
  next
    case 2
    then show ?thesis by (intro exI [of _ "Exit (-1)"] exI [of _ "[]"] exI [of _ w3]) (simp add: run m del: all_ok.simps)
  next
    case 3
    then show ?thesis by (intro exI [of _ "Exit (-1)"] exI [of _ "[]"] exI [of _ w4]) (simp add: run m del: all_ok.simps)
  next
    case 4
    let ?fail = "\<exists>t\<in>set demo_tasks. bad t"
    have "made (vTaskStartScheduler E w7) = made w7" using quiet by blast
    with 4 m(5) n1 s(2,3) show ?thesis
      by (intro exI [of _ "if ?fail then Exit (-1) else Running"] exI [of _ "new1 @ new2"]
          exI [of _ "if ?fail then w7 else vTaskStartScheduler E w7"])
        (auto simp add: run simp del: all_ok.simps)
  qed
qed

subsection \<open>A machine\<close>

text \<open>A machine with one FIFO written and one read, and buffers of 256 bytes.\<close>

definition idle_boot :: "'w boot_env" where
  "idle_boot = \<lparr>xTaskCreate = (\<lambda>p w. (None, w)), ex2_register = (\<lambda>h t w. w), FreeRTOS_CLIRegisterCommand = (\<lambda>c w. w),
     NORMAL_SERVICE_PRIO = 2\<rparr>"

definition loop_env :: "(bytes list \<times> bytes list) demo_env" where
  "loop_env = \<lparr>demo_boot = idle_boot, demo_endian = SYS_LITTLE_ENDIAN, demo_write = (\<lambda>fd bs w. (of_nat (length bs), (fst w @ [bs], snd w))),
     demo_open = (\<lambda>nm w. (3, w)), demo_buffer_get = (\<lambda>n w. (Some (replicate (n + 6) 0), w)), demo_buffer_free = (\<lambda>m w. w),
     csp_qfifo_write = (\<lambda>m w. (fst w, snd w @ [m])), csp_debug_set_level = (\<lambda>i b w. w), csp_init = (\<lambda>a w. (0, w)),
     csp_route_set = (\<lambda>w. w), csp_route_start_task = (\<lambda>w. w), print_tables = (\<lambda>w. w), vTaskStartScheduler = (\<lambda>w. w),
     csp_zmqhub_init = (\<lambda>w. (0, w)), csp_rtable_set = (\<lambda>w. w), CSP_INFO = 2, CSP_LOCK = 6,
     configMAX_PRIORITIES = 7\<rparr>"

lemma loop_env_ok: "tx_ok loop_env 3 fst" "rx_ok loop_env snd"
  by (simp_all add: tx_ok_def rx_ok_def loop_env_def)

definition ping_mem :: bytes where
  "ping_mem = [2, 0, 9, 9, 9, 9, 42, 43, 0, 0]"

definition pong_mem :: bytes where
  "pong_mem = [1, 0, 8, 8, 8, 8, 77]"

lemma ping_pong:
  "packet_length SYS_LITTLE_ENDIAN ping_mem = 2" "packet_length SYS_LITTLE_ENDIAN pong_mem = 1"
  "frame SYS_LITTLE_ENDIAN ping_mem = [2, 0, 9, 9, 9, 9, 42, 43]" "frame SYS_LITTLE_ENDIAN pong_mem = pong_mem"
proof -
  show n: "packet_length SYS_LITTLE_ENDIAN ping_mem = 2" "packet_length SYS_LITTLE_ENDIAN pong_mem = 1"
    by (simp_all add: packet_length_def ping_mem_def pong_mem_def of_bytes_def)
  show "frame SYS_LITTLE_ENDIAN ping_mem = [2, 0, 9, 9, 9, 9, 42, 43]" "frame SYS_LITTLE_ENDIAN pong_mem = pong_mem"
    unfolding frame_def n by (simp_all add: ping_mem_def pong_mem_def)
qed

theorem fifo_round_trip_instance:
  "\<exists>fs v v' d d'. send_all loop_env 3 [ping_mem, pong_mem] ([], []) = Inr ((), v) \<and> fst v = fs \<and>
    fifo_rx loop_env (stream [Read, Write, Read, Read, Write, Read] fs []) ([], []) = Inr ((), v') \<and> snd v' = [d, d'] \<and>
    frame SYS_LITTLE_ENDIAN d = [2, 0, 9, 9, 9, 9, 42, 43] \<and> frame SYS_LITTLE_ENDIAN d' = [1, 0, 8, 8, 8, 8, 77]"
proof -
  have e: "demo_endian loop_env = SYS_LITTLE_ENDIAN" by (simp add: loop_env_def)
  have m: "\<forall>m\<in>set [ping_mem, pong_mem]. whole (demo_endian loop_env) m \<and> unat (packet_length (demo_endian loop_env) m) \<le> 244"
    by (simp add: e whole_def ping_pong(1,2)) (simp add: ping_mem_def pong_mem_def)
  have "read_each False [Read, Write, Read, Read, Write, Read]"
    "count_list [Read, Write, Read, Read, Write, Read] Write = length [ping_mem, pong_mem]" by simp_all
  from fifo_round_trip [OF loop_env_ok m this, where w = "([], [])" and w' = "([], [])"] show ?thesis
    unfolding e ping_pong(3) [symmetric] by (fastforce simp: ping_pong(4) list_all2_Cons1 pong_mem_def [symmetric])
qed

text \<open>Both packets written before one read: the second is lost.\<close>

theorem fifo_merges_short_instance:
  "\<exists>fs v v' d. send_all loop_env 3 [ping_mem, pong_mem] ([], []) = Inr ((), v) \<and> fst v = fs \<and>
    fifo_rx loop_env (stream (replicate (length fs) Write @ replicate 3 Read) fs []) ([], []) = Inr ((), v') \<and> snd v' = [d] \<and>
    frame SYS_LITTLE_ENDIAN d = [2, 0, 9, 9, 9, 9, 42, 43]"
proof -
  have e: "demo_endian loop_env = SYS_LITTLE_ENDIAN" by (simp add: loop_env_def)
  have m: "\<forall>m\<in>set [ping_mem, pong_mem]. whole (demo_endian loop_env) m"
    by (simp add: e whole_def ping_pong(1,2)) (simp add: ping_mem_def pong_mem_def)
  have "sum_list (map (length \<circ> frame (demo_endian loop_env)) [ping_mem, pong_mem]) \<le> BUF_SIZE"
    by (simp add: e ping_pong(3,4) BUF_SIZE_def) (simp add: pong_mem_def)
  from fifo_merges_short [OF loop_env_ok m this, where w = "([], [])" and w' = "([], [])" and k = 2] show ?thesis
    unfolding e ping_pong(3) by (simp add: numeral_3_eq_3 numeral_2_eq_2)
qed

definition full_mem :: bytes where
  "full_mem = [250, 0] @ replicate 254 7"

theorem fifo_splits_full_instance:
  "\<exists>f v v' a b. send_all loop_env 3 [full_mem] ([], []) = Inr ((), v) \<and> fst v = [f] \<and>
    fifo_rx loop_env (map Got (reads f)) ([], []) = Inr ((), v') \<and> snd v' = [a, b] \<and>
    take 250 a = take 250 full_mem \<and> take 6 b = [7, 7, 7, 7, 7, 7]"
proof -
  have e: "demo_endian loop_env = SYS_LITTLE_ENDIAN" by (simp add: loop_env_def)
  have n: "packet_length SYS_LITTLE_ENDIAN full_mem = 250" by (simp add: packet_length_def full_mem_def of_bytes_def)
  have m: "whole (demo_endian loop_env) full_mem" unfolding whole_def e n by (simp add: full_mem_def)
  have k: "250 = unat (packet_length (demo_endian loop_env) full_mem)" unfolding e n by simp
  have t: "take (250 - 244) (drop 250 full_mem) = [7, 7, 7, 7, 7, 7]" by (simp add: full_mem_def eval_nat_numeral)
  from fifo_splits_full [OF loop_env_ok m k, where w = "([], [])" and w' = "([], [])"] show ?thesis
    unfolding t by (simp add: BUF_SIZE_def)
qed

text \<open>A start with all calls successful on an operating system with room for both services.\<close>

definition start_env :: "((task \<times> nat) list \<times> (task \<times> nat) list) demo_env" where
  "start_env = \<lparr>demo_boot = small_os, demo_endian = SYS_LITTLE_ENDIAN, demo_write = (\<lambda>fd bs w. (0, w)),
     demo_open = (\<lambda>nm w. (3, w)), demo_buffer_get = (\<lambda>n w. (None, w)), demo_buffer_free = (\<lambda>m w. w),
     csp_qfifo_write = (\<lambda>m w. w), csp_debug_set_level = (\<lambda>i b w. w), csp_init = (\<lambda>a w. (0, w)),
     csp_route_set = (\<lambda>w. w), csp_route_start_task = (\<lambda>w. w), print_tables = (\<lambda>w. w), vTaskStartScheduler = (\<lambda>w. w),
     csp_zmqhub_init = (\<lambda>w. (0, w)), csp_rtable_set = (\<lambda>w. w), CSP_INFO = 2, CSP_LOCK = 6,
     configMAX_PRIORITIES = 7\<rparr>"

theorem demo_starts_instance:
  "\<exists>r new w'. demo_main start_env ([], []) = Inr (r, w') \<and> fst w' = new \<and>
    (r = Exit (-1) \<and> new = [] \<or> r = Running \<and> map fst new = Fifo_rx # demo_tasks)"
proof -
  have b: "boot_ok (demo_boot start_env) (\<lambda>t. t = Updater_service) fst snd" using small_os_ok by (simp add: start_env_def)
  have q: "demo_quiet start_env fst" by (simp add: demo_quiet_def start_env_def)
  show ?thesis using demo_starts [OF b q, of "([], [])"] by (simp add: demo_tasks_def)
qed

end
