(* ===== verification/General.thy ===== *)
theory General
  imports Utilities Service_Loop
begin

text \<open>
  \<^verbatim>\<open>Services/source/general.c\<close>: reboot, deployables, switch status and the watchdog delays of
  the subsystems. The handler sends or releases its packet itself. The drivers it calls are
  parameters.
\<close>

record 'w general_ops =
  reboot_system :: "byte \<Rightarrow> 'w \<Rightarrow> 'w"
  deploy :: "u32 \<Rightarrow> 'w \<Rightarrow> (i8 \<times> u16) \<times> 'w"
  switchstatus :: "nat \<Rightarrow> 'w \<Rightarrow> byte \<times> 'w"
  get_uhf_watchdog_delay :: "'w \<Rightarrow> u32 \<times> 'w"
  set_uhf_watchdog_delay :: "u32 \<Rightarrow> 'w \<Rightarrow> i8 \<times> 'w"
  get_sband_watchdog_delay :: "'w \<Rightarrow> u32 \<times> 'w"
  set_sband_watchdog_delay :: "u32 \<Rightarrow> 'w \<Rightarrow> i8 \<times> 'w"
  get_charon_watchdog_delay :: "'w \<Rightarrow> u32 \<times> 'w"
  set_charon_watchdog_delay :: "u32 \<Rightarrow> 'w \<Rightarrow> i8 \<times> 'w"

text \<open>\<open>dep_size\<close> is \<^verbatim>\<open>sizeof(Deployable_t)\<close>.\<close>

record 'w general_env =
  gn_ops :: "'w general_ops"
  gn_csp :: "'w csp_ops"
  gn_endian :: endianness
  dep_size :: nat

datatype General_Subtype = REBOOT | DEPLOY_DEPLOYABLES | GET_SWITCH_STATUS
  | GET_UHF_WATCHDOG_TIMEOUT | SET_UHF_WATCHDOG_TIMEOUT
  | GET_SBAND_WATCHDOG_TIMEOUT | SET_SBAND_WATCHDOG_TIMEOUT
  | GET_CHARON_WATCHDOG_TIMEOUT | SET_CHARON_WATCHDOG_TIMEOUT

definition general_subtype :: "byte \<Rightarrow> General_Subtype option" where
  "general_subtype b =
     (if b = 0 then Some REBOOT
      else if b = 1 then Some DEPLOY_DEPLOYABLES
      else if b = 2 then Some GET_SWITCH_STATUS
      else if b = 3 then Some GET_UHF_WATCHDOG_TIMEOUT
      else if b = 4 then Some SET_UHF_WATCHDOG_TIMEOUT
      else if b = 5 then Some GET_SBAND_WATCHDOG_TIMEOUT
      else if b = 6 then Some SET_SBAND_WATCHDOG_TIMEOUT
      else if b = 7 then Some GET_CHARON_WATCHDOG_TIMEOUT
      else if b = 8 then Some SET_CHARON_WATCHDOG_TIMEOUT
      else None)"

text \<open>The reboot types \<^verbatim>\<open>'A'\<close>, \<^verbatim>\<open>'B'\<close> and \<^verbatim>\<open>'G'\<close>.\<close>

definition reboot_modes :: "byte list" where
  "reboot_modes = [65, 66, 71]"

text \<open>\<^verbatim>\<open>csp_send\<close> with its result dropped.\<close>

definition send_only :: "'w csp_ops \<Rightarrow> nat \<Rightarrow> ('w pool, unit) prog" where
  "send_only ops h = bnd (csp_send ops h) (\<lambda>_. ret ())"

text \<open>\<^verbatim>\<open>memcpy\<close> of \<open>bs\<close> into an automatic variable of \<open>n\<close> bytes.\<close>

definition local_copy :: "nat \<Rightarrow> bytes \<Rightarrow> ('s, bytes) prog" where
  "local_copy n bs = (if length bs \<le> n then ret bs else fault OutOfBounds)"

primrec switch_loop :: "'w general_ops \<Rightarrow> nat \<Rightarrow> nat \<Rightarrow> ('w hst, bytes) prog" where
  "switch_loop ops 0 i = ret []"
| "switch_loop ops (Suc n) i =
     bnd (hal (switchstatus ops i)) (\<lambda>b. bnd (switch_loop ops n (Suc i)) (\<lambda>bs. ret (b # bs)))"

definition get_delay :: "endianness \<Rightarrow> ('w \<Rightarrow> u32 \<times> 'w) \<Rightarrow> ('w hst, unit) prog" where
  "get_delay e f =
     andthen (pkt_write STATUS_BYTE [0])
    (bnd (hal f) (\<lambda>timeout.
     andthen (pkt_write OUT_DATA_BYTE (to_bytes e 4 timeout))
             (set_packet_length (1 + 4 + 1))))"

text \<open>\<^verbatim>\<open>timeout_new\<close> has one byte; four are copied.\<close>

definition set_delay :: "(u32 \<Rightarrow> 'w \<Rightarrow> i8 \<times> 'w) \<Rightarrow> ('w hst, unit) prog" where
  "set_delay f =
     bnd (pkt_read IN_DATA_BYTE 4) (\<lambda>bs.
     bnd (local_copy 1 bs) (\<lambda>timeout_new.
     bnd (hal (f (ucast (timeout_new ! 0)))) (\<lambda>status.
     reply_status status)))"

definition general_app :: "'w general_env \<Rightarrow> nat \<Rightarrow> ('w pool, SAT_returnState) prog" where
  "general_app E h =
     (let ops = gn_ops E; e = gn_endian E; send = andthen (send_only (gn_csp E) h) (ret SATR_OK) in
     bnd (on_packet h (pkt_byte SUBSERVICE_BYTE)) (\<lambda>ser_subtype.
     case general_subtype ser_subtype of
       Some REBOOT \<Rightarrow>
         bnd (on_packet h (pkt_byte IN_DATA_BYTE)) (\<lambda>reboot_type.
         let status = (if reboot_type \<in> set reboot_modes then 0 else -1) in
         andthen (on_packet h (reply_status status))
        (andthen (send_only (gn_csp E) h)
        (andthen (if status = 0 then modify (\<lambda>s. s\<lparr>pworld := reboot_system ops reboot_type (pworld s)\<rparr>) else ret ())
                 (ret SATR_OK))))
     | Some DEPLOY_DEPLOYABLES \<Rightarrow>
         andthen (on_packet h (
           bnd (pkt_byte IN_DATA_BYTE) (\<lambda>b.
           bnd (hal (deploy ops (of_bytes e (b # replicate (dep_size E - 1) 0)))) (\<lambda>r.
           let (status, burnwire_current) = r in
           andthen (pkt_write STATUS_BYTE [status])
          (andthen (pkt_write OUT_DATA_BYTE (to_bytes e 2 burnwire_current))
                   (set_packet_length (1 + 2 + 1)))))))
        (andthen (send_or_release (gn_csp E) h) (ret SATR_OK))
     | Some GET_SWITCH_STATUS \<Rightarrow>
         andthen (on_packet h (
           bnd (switch_loop ops 8 0) (\<lambda>sw.
           andthen (pkt_write STATUS_BYTE [0])
          (andthen (pkt_write OUT_DATA_BYTE sw)
                   (set_packet_length (8 + 2))))))
        (andthen (send_or_release (gn_csp E) h) (ret SATR_OK))
     | Some GET_UHF_WATCHDOG_TIMEOUT \<Rightarrow> andthen (on_packet h (get_delay e (get_uhf_watchdog_delay ops))) send
     | Some SET_UHF_WATCHDOG_TIMEOUT \<Rightarrow> andthen (on_packet h (set_delay (set_uhf_watchdog_delay ops))) send
     | Some GET_SBAND_WATCHDOG_TIMEOUT \<Rightarrow> andthen (on_packet h (get_delay e (get_sband_watchdog_delay ops))) send
     | Some SET_SBAND_WATCHDOG_TIMEOUT \<Rightarrow> andthen (on_packet h (set_delay (set_sband_watchdog_delay ops))) send
     | Some GET_CHARON_WATCHDOG_TIMEOUT \<Rightarrow> andthen (on_packet h (get_delay e (get_charon_watchdog_delay ops))) send
     | Some SET_CHARON_WATCHDOG_TIMEOUT \<Rightarrow> andthen (on_packet h (set_delay (set_charon_watchdog_delay ops))) send
     | None \<Rightarrow> ret SATR_PKT_ILLEGAL_SUBSERVICE))"

definition general_kicks :: kicks where
  "general_kicks = \<lparr>k_init = 1, k_iter = 1, k_timeout = 1, k_accept = 1\<rparr>"

definition general_service :: "'w general_env \<Rightarrow> accept list \<Rightarrow> ('w pool, unit) prog" where
  "general_service E = service_task general_kicks (log_step (general_app E))"

subsection \<open>What the handler does\<close>

lemma local_copy_run [prog_simps]:
  "local_copy n bs s = (if length bs \<le> n then Inr (bs, s) else Inl OutOfBounds)"
  by (simp add: local_copy_def prog_simps)

text \<open>
  The reply to a reboot request goes out first; then the board is rebooted, for the three known
  types only.
\<close>

theorem general_reboot:
  assumes h: "bufs s h = Some p" and len: "2 \<le> length (pkt_data p)" and sub: "pkt_data p ! 0 = 0"
    and t: "t = pkt_data p ! 1" "status = (if t \<in> {65, 66, 71} then 0 else -1)"
    and snd: "op_send (gn_csp E) (status_packet status p) (pworld s) = (ok, w)"
  shows "\<exists>b. general_app E h s = Inr (SATR_OK, s\<lparr>bufs := b,
    pworld := (if t \<in> {65, 66, 71} then reboot_system (gn_ops E) t w else w)\<rparr>)"
proof -
  have "pkt_data p \<noteq> []" "Suc 0 < length (pkt_data p)" using len by auto
  with assms show ?thesis
    by (auto simp: reboot_modes_def general_app_def general_subtype_def prog_simps const_simps pool_op_defs send_only_def Let_def)
qed

text \<open>No request to set a watchdog delay is ever carried out: the copy overruns its variable.\<close>

theorem general_set_delay_overruns:
  assumes "bufs s h = Some p" and "5 \<le> length (pkt_data p)" and "pkt_data p ! 0 \<in> {4, 6, 8}"
  shows "general_app E h s = Inl OutOfBounds"
proof -
  have "pkt_data p \<noteq> []" using assms(2) by auto
  with assms show ?thesis
    by (auto simp: general_app_def general_subtype_def set_delay_def prog_simps const_simps pool_op_defs Let_def)
qed

lemma get_delay_run:
  assumes "f (world s) = (t, w)" and "6 \<le> length (data s)"
  shows "get_delay e f s = Inr ((), s\<lparr>packet := data_packet 0 (to_bytes e 4 t) (packet s), world := w\<rparr>)"
proof -
  have "overlay 2 (to_bytes e 4 t) (overlay 1 [0] (data s)) = overlay 1 (0 # to_bytes e 4 t) (data s)"
    using overlay_adjacent [of 1 "[0]" "to_bytes e 4 t" "data s"] assms(2) by (simp add: eval_nat_numeral)
  then show ?thesis
    using assms by (cases "packet s") (simp add: get_delay_def prog_simps const_simps data_packet_def)
qed

theorem general_get_delay:
  assumes h: "bufs s h = Some p" and len: "6 \<le> length (pkt_data p)"
    and sub: "(pkt_data p ! 0, f) \<in> {(3, get_uhf_watchdog_delay (gn_ops E)), (5, get_sband_watchdog_delay (gn_ops E)),
      (7, get_charon_watchdog_delay (gn_ops E))}"
    and f: "f (pworld s) = (t, w)"
    and snd: "op_send (gn_csp E) (data_packet 0 (to_bytes (gn_endian E) 4 t) p) w = (ok, w')"
  shows "general_app E h s = Inr (SATR_OK,
    s\<lparr>bufs := (if ok then (bufs s)(h := None) else (bufs s)(h \<mapsto> data_packet 0 (to_bytes (gn_endian E) 4 t) p)),
      pworld := w'\<rparr>)"
proof -
  have "pkt_data p \<noteq> []" using len by auto
  moreover from f have "get_delay (gn_endian E) f \<lparr>packet = p, world = pworld s\<rparr> =
      Inr ((), \<lparr>packet = data_packet 0 (to_bytes (gn_endian E) 4 t) p, world = w\<rparr>)"
    using get_delay_run [of f "\<lparr>packet = p, world = pworld s\<rparr>" t w] len by simp
  ultimately show ?thesis
    using h sub snd
    by (cases ok) (auto simp: general_app_def general_subtype_def prog_simps const_simps pool_op_defs
        send_only_def Let_def)
qed

lemma switch_loop_run:
  "\<exists>bs w. switch_loop ops n i s = Inr (bs, s\<lparr>world := w\<rparr>) \<and> length bs = n"
proof (induction n arbitrary: i s)
  case 0
  show ?case by (intro exI [of _ "[]"] exI [of _ "world s"]) (simp add: ret_run)
next
  case (Suc n)
  from Suc.IH [of "Suc i" "s\<lparr>world := snd (switchstatus ops i (world s))\<rparr>"] show ?case
    by (auto simp: prog_simps)
qed

lemma general_other:
  assumes "bufs s h = Some p" and "pkt_data p \<noteq> []" and "8 < pkt_data p ! 0"
  shows "general_app E h s = Inr (SATR_PKT_ILLEGAL_SUBSERVICE, s)"
proof -
  have "(bufs s)(h \<mapsto> p) = bufs s" using assms(1) by (rule fun_upd_idem)
  with assms show ?thesis
    by (auto simp: general_app_def general_subtype_def prog_simps const_simps pool_op_defs Let_def)
qed

subsection \<open>What the task leaves behind\<close>

text \<open>A network that takes every packet it is given.\<close>

definition takes_all :: "'w csp_ops \<Rightarrow> bool" where
  "takes_all ops \<longleftrightarrow> (\<forall>p w. fst (op_send ops p w))"

lemma takes_allD: "takes_all ops \<Longrightarrow> op_send ops p w = (b, w') \<Longrightarrow> b"
  unfolding takes_all_def by (metis fst_conv)

lemma csp_send_taken:
  assumes "takes_all ops" and "bufs s h = Some p"
  shows "\<exists>w. csp_send ops h s = Inr (True, s\<lparr>bufs := (bufs s)(h := None), pworld := w\<rparr>)"
proof -
  obtain b w where "op_send ops p (pworld s) = (b, w)" by fastforce
  with takes_allD [OF assms(1) this] assms(2) show ?thesis by (intro exI [of _ w]) (simp add: csp_send_def)
qed

lemma send_taken:
  assumes "takes_all ops" and "bufs s h = Some p"
  shows "\<exists>w. send_only ops h s = Inr ((), s\<lparr>bufs := (bufs s)(h := None), pworld := w\<rparr>)"
    and "\<exists>w. send_or_release ops h s = Inr ((), s\<lparr>bufs := (bufs s)(h := None), pworld := w\<rparr>)"
  using csp_send_taken [OF assms] by (auto simp: send_only_def send_or_release_def prog_simps)

lemma answer_leaves_none:
  assumes m: "safe n m" and h: "bufs s h = Some p" "n \<le> length (pkt_data p)"
    and send: "\<And>t q. bufs t h = Some q \<Longrightarrow> \<exists>w. send t = Inr ((), t\<lparr>bufs := (bufs t)(h := None), pworld := w\<rparr>)"
  shows "\<exists>w. andthen (on_packet h m) (andthen send (ret SATR_OK)) s =
    Inr (SATR_OK, s\<lparr>bufs := (bufs s)(h := None), pworld := w\<rparr>)"
proof -
  from safeD [OF m, of "\<lparr>packet = p, world = pworld s\<rparr>"] h(2) obtain a t where
    "m \<lparr>packet = p, world = pworld s\<rparr> = Inr (a, t)" by auto
  moreover from send [of "s\<lparr>bufs := (bufs s)(h \<mapsto> packet t), pworld := world t\<rparr>" "packet t"] obtain w where
    "send (s\<lparr>bufs := (bufs s)(h \<mapsto> packet t), pworld := world t\<rparr>) = Inr ((), s\<lparr>bufs := (bufs s)(h := None), pworld := w\<rparr>)"
    by auto
  ultimately show ?thesis using h by (intro exI [of _ w]) (simp add: on_packet_def prog_simps)
qed

text \<open>The parts of the handler that answer inside the packet.\<close>

lemma safe_get_delay: "safe 6 (get_delay e f)"
  unfolding get_delay_def by (intro safe_intros) (simp_all add: const_simps)

lemma safe_deploy:
  "safe 4 (bnd (pkt_byte IN_DATA_BYTE) (\<lambda>b. bnd (hal (deploy ops (g b))) (\<lambda>r. let (status, burnwire_current) = r in
     andthen (pkt_write STATUS_BYTE [status])
    (andthen (pkt_write OUT_DATA_BYTE (to_bytes e 2 burnwire_current)) (set_packet_length (1 + 2 + 1))))))"
  by (intro safe_intros) (simp_all add: const_simps)

lemma safe_switches:
  "safe 10 (bnd (switch_loop ops 8 0) (\<lambda>sw. andthen (pkt_write STATUS_BYTE [0])
     (andthen (pkt_write OUT_DATA_BYTE sw) (set_packet_length (8 + 2)))))"
proof (rule safeI)
  fix s :: "'a hst" assume len: "10 \<le> length (data s)"
  obtain bs w where r: "switch_loop ops 8 0 s = Inr (bs, s\<lparr>world := w\<rparr>)" "length bs = 8"
    using switch_loop_run [of ops 8 0 s] by blast
  show "\<exists>a s'. bnd (switch_loop ops 8 0) (\<lambda>sw. andthen (pkt_write STATUS_BYTE [0])
     (andthen (pkt_write OUT_DATA_BYTE sw) (set_packet_length (8 + 2)))) s = Inr (a, s') \<and>
     length (data s') = length (data s) \<and> data s' ! 0 = data s ! 0"
    using len r by (simp add: prog_simps const_simps nth_overlay_before)
qed

definition general_ok :: "csp_packet \<Rightarrow> bool" where
  "general_ok p \<longleftrightarrow> 10 \<le> length (pkt_data p) \<and> pkt_data p ! 0 \<notin> {4, 6, 8}"

lemma general_answers:
  assumes net: "takes_all (gn_csp E)" and h: "bufs s h = Some p" and ok: "general_ok p" and sub: "pkt_data p ! 0 \<le> 8"
  shows "\<exists>w. general_app E h s = Inr (SATR_OK, s\<lparr>bufs := (bufs s)(h := None), pworld := w\<rparr>)"
proof -
  have len: "2 \<le> length (pkt_data p)" "4 \<le> length (pkt_data p)" "6 \<le> length (pkt_data p)" "10 \<le> length (pkt_data p)"
    "pkt_data p \<noteq> []" using ok by (auto simp: general_ok_def)
  have byte: "on_packet h (pkt_byte SUBSERVICE_BYTE) s = Inr (pkt_data p ! 0, s)"
    using h len fun_upd_idem [of "bufs s" h "Some p"] by (simp add: on_packet_def prog_simps const_simps)
  have send: "\<exists>w. send_only (gn_csp E) h t = Inr ((), t\<lparr>bufs := (bufs t)(h := None), pworld := w\<rparr>)"
    "\<exists>w. send_or_release (gn_csp E) h t = Inr ((), t\<lparr>bufs := (bufs t)(h := None), pworld := w\<rparr>)"
    if "bufs t h = Some q" for t q using send_taken [OF net that] .
  have "unat (pkt_data p ! 0) \<in> {0, 1, 2, 3, 5, 7}"
    using sub ok by (auto simp: general_ok_def word_le_nat_alt word_unat_eq_iff)
  then consider "pkt_data p ! 0 = 0" | "pkt_data p ! 0 = 1" | "pkt_data p ! 0 = 2" | "pkt_data p ! 0 \<in> {3, 5, 7}"
    by (auto simp: word_unat_eq_iff)
  then show ?thesis
  proof cases
    case 1
    obtain ok w where "op_send (gn_csp E) (status_packet (if pkt_data p ! 1 \<in> {65, 66, 71} then 0 else -1) p) (pworld s) = (ok, w)"
      by force
    moreover from net this have ok by (rule takes_allD)
    ultimately show ?thesis
      using h len 1 by (auto simp: reboot_modes_def general_app_def general_subtype_def prog_simps const_simps pool_op_defs send_only_def Let_def)
  next
    case 2
    show ?thesis using answer_leaves_none [OF safe_deploy [of "gn_ops E" "\<lambda>b. of_bytes (gn_endian E) (b # replicate (dep_size E - 1) 0)"
        "gn_endian E"] h len(2) send(2)]
      by (simp add: general_app_def bnd_run byte 2 general_subtype_def Let_def)
  next
    case 3
    show ?thesis using answer_leaves_none [OF safe_switches h len(4) send(2)]
      by (simp add: general_app_def bnd_run byte 3 general_subtype_def Let_def)
  next
    case 4
    then show ?thesis using answer_leaves_none [OF safe_get_delay h len(3) send(1)]
      by (auto simp: general_app_def bnd_run byte general_subtype_def Let_def)
  qed
qed

lemma general_step_leaves:
  assumes "takes_all (gn_csp E)"
  shows "leaves (log_step (general_app E)) general_ok (\<lambda>p. 8 < pkt_data p ! 0)"
  unfolding leaves_def
proof (intro allI impI)
  fix s :: "'a pool" and h p assume h: "bufs s h = Some p" and ok: "general_ok p"
  have "pkt_data p \<noteq> []" using ok by (auto simp: general_ok_def)
  then show "\<exists>w. log_step (general_app E) h s =
      Inr ((), s\<lparr>bufs := (bufs s)(h := if 8 < pkt_data p ! 0 then Some p else None), pworld := w\<rparr>)"
    using general_other [OF h] general_answers [OF assms h ok] fun_upd_idem [of "bufs s" h "Some p"] h
    by (cases "8 < pkt_data p ! 0") (auto simp: log_step_def prog_simps not_less intro: exI [of _ "pworld s"])
qed

text \<open>C23: Over any connections whose requests the general service can carry out, with a network that takes
  every reply, the service runs without a fault and releases every packet but those with an
  unknown subservice: these it never sends or frees, so each one stays in its buffer.\<close>

theorem general_service_leaks:
  assumes "takes_all (gn_csp E)" and "pool_ok s" and "\<forall>a\<in>set as. \<forall>p\<in>set (packets_of a). general_ok p"
    and ps: "ps = concat (map packets_of as)"
  shows "\<exists>t. general_service E as s = Inr ((), t) \<and> nxt t = nxt s + length ps \<and>
    svc_wdt_counter t = svc_wdt_counter s + of_nat (1 + 2 * length as) \<and>
    (\<forall>h < nxt s. bufs t h = bufs s h) \<and>
    (\<forall>i < length ps. bufs t (nxt s + i) = (if 8 < pkt_data (ps ! i) ! 0 then Some (ps ! i) else None)) \<and>
    (\<forall>h \<ge> nxt t. bufs t h = None)"
proof -
  have "kicks_of general_kicks a = 2" for a by (cases a) (simp_all add: kicks_of_def general_kicks_def)
  then have "sum_list (map (kicks_of general_kicks) as) = 2 * length as" by (induction as) simp_all
  with service_task_leaves [OF general_step_leaves [OF assms(1)] assms(3), of general_kicks s] assms(2) show ?thesis
    unfolding general_service_def ps by (fastforce simp: general_kicks_def kept_nth pool_ok_def)
qed

end
