(* ===== verification/Dfgm.thy ===== *)
theory Dfgm
  imports Utilities Service_Loop
begin

text \<open>
  \<^verbatim>\<open>Services/source/dfgm/dfgm_service.c\<close>: running and stopping the magnetometer, and its
  housekeeping. The driver is a parameter; so is the layout of \<^verbatim>\<open>DFGM_Housekeeping\<close>, which is
  declared outside the repository: \<^verbatim>\<open>dfgm_repr\<close> gives the object representation of
  a structure.
\<close>

record DFGM_Housekeeping =
  coreVoltage :: u16
  sensorTemp :: u16
  refTemp :: u16
  boardTemp :: u16
  posRailVoltage :: u16
  inputVoltage :: u16
  refVoltage :: u16
  inputCurrent :: u16
  reserved1 :: u16
  reserved2 :: u16
  reserved3 :: u16
  reserved4 :: u16

record 'w dfgm_env =
  HAL_DFGM_run :: "i32 \<Rightarrow> 'w \<Rightarrow> i8 \<times> 'w"
  HAL_DFGM_stop :: "'w \<Rightarrow> i8 \<times> 'w"
  dfgm_get_HK :: "DFGM_Housekeeping \<Rightarrow> 'w \<Rightarrow> (i8 \<times> DFGM_Housekeeping) \<times> 'w"
  dfgm_repr :: "DFGM_Housekeeping \<Rightarrow> bytes"
  dfgm_sizeof :: nat
  dfgm_ce :: csp_endian

definition DFGM_RUN :: byte where [const_simps]: "DFGM_RUN = 0"
definition DFGM_START :: byte where [const_simps]: "DFGM_START = 1"
definition DFGM_STOP :: byte where [const_simps]: "DFGM_STOP = 2"
definition DFGM_GET_HK :: byte where [const_simps]: "DFGM_GET_HK = 3"

definition INT_MAX :: i32 where [const_simps]: "INT_MAX = 2147483647"

definition dfgm_zero :: DFGM_Housekeeping where
  "dfgm_zero = \<lparr>coreVoltage = 0, sensorTemp = 0, refTemp = 0, boardTemp = 0, posRailVoltage = 0,
     inputVoltage = 0, refVoltage = 0, inputCurrent = 0, reserved1 = 0, reserved2 = 0, reserved3 = 0, reserved4 = 0\<rparr>"

definition dfgm_hton :: "csp_endian \<Rightarrow> DFGM_Housekeeping \<Rightarrow> DFGM_Housekeeping" where
  "dfgm_hton ce HK = (let c = csp_hton16 ce in
     \<lparr>coreVoltage = c (coreVoltage HK), sensorTemp = c (sensorTemp HK), refTemp = c (refTemp HK),
      boardTemp = c (boardTemp HK), posRailVoltage = c (posRailVoltage HK), inputVoltage = c (inputVoltage HK),
      refVoltage = c (refVoltage HK), inputCurrent = c (inputCurrent HK), reserved1 = c (reserved1 HK),
      reserved2 = c (reserved2 HK), reserved3 = c (reserved3 HK), reserved4 = c (reserved4 HK)\<rparr>)"

definition dfgm_service_app :: "'w dfgm_env \<Rightarrow> ('w hst, SAT_returnState) prog" where
  "dfgm_service_app E =
     bnd (pkt_byte SUBSERVICE_BYTE) (\<lambda>ser_subtype.
     if ser_subtype = DFGM_RUN then
       bnd (pkt_read IN_DATA_BYTE 4) (\<lambda>bs.
       bnd (hal (HAL_DFGM_run E (cnv8_32 (host (dfgm_ce E)) bs))) (\<lambda>status.
       andthen (reply_status status) (ret SATR_OK)))
     else if ser_subtype = DFGM_START then
       bnd (hal (HAL_DFGM_run E INT_MAX)) (\<lambda>status.
       andthen (reply_status status) (ret SATR_OK))
     else if ser_subtype = DFGM_STOP then
       bnd (hal (HAL_DFGM_stop E)) (\<lambda>status.
       andthen (reply_status status) (ret SATR_OK))
     else if ser_subtype = DFGM_GET_HK then
       bnd (hal (dfgm_get_HK E dfgm_zero)) (\<lambda>r.
       let (status, HK) = r in
       andthen (reply_data status (dfgm_repr E (dfgm_hton (dfgm_ce E) HK))) (ret SATR_OK))
     else ret SATR_PKT_ILLEGAL_SUBSERVICE)"

definition dfgm_kicks :: kicks where
  "dfgm_kicks = \<lparr>k_init = 1, k_iter = 0, k_timeout = 1, k_accept = 1\<rparr>"

definition dfgm_service :: "'w csp_ops \<Rightarrow> 'w dfgm_env \<Rightarrow> accept list \<Rightarrow> ('w pool, unit) prog" where
  "dfgm_service ops E = service_task dfgm_kicks (reply_step ops (dfgm_service_app E))"

subsection \<open>The requests\<close>

definition dfgm_env_ok :: "'w dfgm_env \<Rightarrow> bool" where
  "dfgm_env_ok E \<longleftrightarrow> (\<forall>HK. length (dfgm_repr E HK) = dfgm_sizeof E)"

lemma dfgm_run_app:
  assumes "data s ! 0 = DFGM_RUN" and "5 \<le> length (data s)"
    and "HAL_DFGM_run E (cnv8_32 (host (dfgm_ce E)) (take 4 (drop 1 (data s)))) (world s) = (status, w)"
  shows "dfgm_service_app E s = Inr (SATR_OK, s\<lparr>world := w, packet := status_packet status (packet s)\<rparr>)"
proof -
  have "data s \<noteq> []" using assms(2) by auto
  with assms show ?thesis by (simp add: dfgm_service_app_def prog_simps const_simps)
qed

lemma dfgm_start_app:
  assumes "data s ! 0 = DFGM_START" and "2 \<le> length (data s)" and "HAL_DFGM_run E INT_MAX (world s) = (status, w)"
  shows "dfgm_service_app E s = Inr (SATR_OK, s\<lparr>world := w, packet := status_packet status (packet s)\<rparr>)"
proof -
  have "data s \<noteq> []" using assms(2) by auto
  with assms show ?thesis by (simp add: dfgm_service_app_def prog_simps const_simps)
qed

lemma dfgm_stop_app:
  assumes "data s ! 0 = DFGM_STOP" and "2 \<le> length (data s)" and "HAL_DFGM_stop E (world s) = (status, w)"
  shows "dfgm_service_app E s = Inr (SATR_OK, s\<lparr>world := w, packet := status_packet status (packet s)\<rparr>)"
proof -
  have "data s \<noteq> []" using assms(2) by auto
  with assms show ?thesis by (simp add: dfgm_service_app_def prog_simps const_simps)
qed

theorem dfgm_hk_app:
  assumes "data s ! 0 = DFGM_GET_HK" and "dfgm_env_ok E" and "dfgm_sizeof E + 2 \<le> length (data s)"
    and "dfgm_get_HK E dfgm_zero (world s) = ((status, HK), w)"
  shows "dfgm_service_app E s = Inr (SATR_OK, s\<lparr>world := w,
    packet := data_packet status (dfgm_repr E (dfgm_hton (dfgm_ce E) HK)) (packet s)\<rparr>)"
proof -
  have "data s \<noteq> []" using assms(3) by auto
  with assms show ?thesis by (simp add: dfgm_service_app_def prog_simps const_simps dfgm_env_ok_def)
qed

lemma dfgm_other:
  assumes "data s ! 0 \<notin> {DFGM_RUN, DFGM_START, DFGM_STOP, DFGM_GET_HK}" and "data s \<noteq> []"
  shows "dfgm_service_app E s = Inr (SATR_PKT_ILLEGAL_SUBSERVICE, s)"
  using assms by (auto simp: dfgm_service_app_def prog_simps const_simps)

interpretation dfgm: packet_app dfgm_service_app dfgm_env_ok "\<lambda>E. dfgm_sizeof E + 5"
  by unfold_locales
    (auto simp: dfgm_service_app_def dfgm_env_ok_def const_simps intro!: safe_intros)

end
