(* ===== verification/Hex_Dump.thy ===== *)
theory Hex_Dump
  imports Strings
begin

text \<open>
  \<^verbatim>\<open>hex_dump\<close> of \<^verbatim>\<open>Services/source/services.c\<close>, as the text that it prints. A
  \<^verbatim>\<open>char\<close> is promoted to \<^verbatim>\<open>int\<close> where it is compared and printed; whether it is
  signed is up to the compiler, so it is an argument.
\<close>

definition promote :: "bool \<Rightarrow> byte \<Rightarrow> i32" where
  "promote char_signed b = (if char_signed then scast b else ucast b)"

definition dump_byte :: "bool \<Rightarrow> byte \<Rightarrow> string" where
  "dump_byte char_signed b =
     (let c = promote char_signed b in (if sint c < 0x10 then ''0'' else []) @ hex_nat (unat c) @ '' '')"

primrec dump_loop :: "bool \<Rightarrow> bytes \<Rightarrow> nat \<Rightarrow> nat \<Rightarrow> ('s, string) prog" where
  "dump_loop sg stuff 0 i = ret []"
| "dump_loop sg stuff (Suc n) i =
     (if i < length stuff then
        bnd (dump_loop sg stuff n (Suc i)) (\<lambda>out.
        ret (dump_byte sg (stuff ! i) @ (if Suc i mod 16 = 0 then newline else []) @ out))
      else fault OutOfBounds)"

definition hex_dump :: "bool \<Rightarrow> bytes \<Rightarrow> i32 \<Rightarrow> ('s, string) prog" where
  "hex_dump sg stuff num =
     bnd (dump_loop sg stuff (nat (sint num)) 0) (\<lambda>out.
     ret (''printing number of bytes: '' @ decimal (uint num) @ newline @ out @ newline))"

subsection \<open>What is printed\<close>

primrec dump_text :: "bool \<Rightarrow> nat \<Rightarrow> bytes \<Rightarrow> string" where
  "dump_text sg i [] = []"
| "dump_text sg i (b # bs) = dump_byte sg b @ (if Suc i mod 16 = 0 then newline else []) @ dump_text sg (Suc i) bs"

lemma dump_loop_run:
  "i + n \<le> length stuff \<Longrightarrow> dump_loop sg stuff n i s = Inr (dump_text sg i (take n (drop i stuff)), s)"
proof (induction n arbitrary: i)
  case (Suc n)
  then show ?case using Cons_nth_drop_Suc [of i stuff, symmetric] by (simp add: prog_simps)
qed (simp add: prog_simps)

lemma hex_dump_run [prog_simps]:
  "nat (sint num) \<le> length stuff \<Longrightarrow> hex_dump sg stuff num s =
    Inr (''printing number of bytes: '' @ decimal (uint num) @ newline @ dump_text sg 0 (take (nat (sint num)) stuff) @ newline, s)"
  using dump_loop_run [of 0 "nat (sint num)" stuff sg s] by (simp add: hex_dump_def prog_simps)

text \<open>Reading a dump back: digits in pairs, anything else skipped.\<close>

definition digit_value :: "char \<Rightarrow> nat" where
  "digit_value c = (if is_digit c then of_char c - 48 else of_char c - 55)"

fun undump :: "string \<Rightarrow> bytes" where
  "undump (c # d # cs) = of_nat (16 * digit_value c + digit_value d) # undump cs"
| "undump cs = []"

lemma of_hex_digit: "n < 16 \<Longrightarrow> of_char (hex_digit n) = (if n < 10 then 48 + n else 55 + n)"
  by (simp add: hex_digit_def)

lemma hex_digit_value: "n < 16 \<Longrightarrow> digit_value (hex_digit n) = n \<and> \<not> is_space (hex_digit n)"
  by (simp add: digit_value_def is_digit_def is_space_def of_hex_digit)

lemma no_spaces: "filter (\<lambda>c. \<not> is_space c) newline = []" "is_space CHR '' ''"
  by (simp_all add: newline_def is_space_def)

text \<open>A byte below 128, or any byte of an unsigned \<^verbatim>\<open>char\<close>, is two digits and a space.\<close>

definition plain :: "bool \<Rightarrow> byte \<Rightarrow> bool" where
  "plain sg b \<longleftrightarrow> \<not> sg \<or> unat b < 128"

lemma unat_byte_less: "unat (b :: byte) < 256"
  using unsigned_less [of b] by simp

lemma sint_small: "unat w < 2 ^ (LENGTH('a) - 1) \<Longrightarrow> sint (w :: 'a::len word) = int (unat w)"
proof -
  assume "unat w < 2 ^ (LENGTH('a) - 1)"
  then have "int (unat w) < 2 ^ (LENGTH('a) - 1)" by (metis of_nat_less_iff of_nat_numeral of_nat_power)
  moreover have "- (2 ^ (LENGTH('a) - 1)) \<le> int (unat w)" by (rule order_trans [of _ 0]) simp_all
  ultimately show ?thesis unfolding sint_uint uint_nat
    by (intro signed_take_bit_int_eq_self) (simp_all only: One_nat_def)
qed

lemma promote_plain:
  assumes "plain sg b"
  shows "sint (promote sg b) = int (unat b)" and "unat (promote sg b) = unat b"
proof -
  have u: "unat (ucast b :: i32) = unat b"
    using unat_byte_less [of b] by (simp add: unsigned_ucast_eq take_bit_nat_eq_self)
  have "scast b = (ucast b :: i32)" if "unat b < 128"
    using that sint_small [of b] unfolding scast_eq ucast_eq uint_nat by simp
  then have c: "promote sg b = ucast b" using assms by (auto simp: promote_def plain_def)
  show "unat (promote sg b) = unat b" by (simp only: c u)
  then show "sint (promote sg b) = int (unat b)" using unat_byte_less [of b] by (subst sint_small) simp_all
qed

lemma hex_two:
  assumes "n < 256"
  shows "(if n < 16 then ''0'' else []) @ hex_nat n = [hex_digit (n div 16), hex_digit (n mod 16)]"
proof (cases "n < 16")
  case True
  have "hex_digit 0 = CHR ''0''" by (simp add: hex_digit_def char_of_def bit_0)
  with True show ?thesis by (simp add: hex_nat.simps [of n])
next
  case False
  then show ?thesis using assms 
    by (subst hex_nat.simps, subst hex_nat.simps) (simp add: div_less_iff_less_mult)
qed

lemma dump_byte_plain:
  assumes "plain sg b"
  shows "dump_byte sg b = [hex_digit (unat b div 16), hex_digit (unat b mod 16)] @ '' ''"
proof -
  have "sint (promote sg b) < 0x10 \<longleftrightarrow> unat b < 16" unfolding promote_plain [OF assms] by arith
  then show ?thesis
    unfolding dump_byte_def Let_def promote_plain(2) [OF assms] hex_two [OF unat_byte_less, symmetric] by (simp only: append_assoc)
qed

lemma undump_text: "\<forall>b\<in>set bs. plain sg b \<Longrightarrow> undump (filter (\<lambda>c. \<not> is_space c) (dump_text sg i bs)) = bs"
proof (induction bs arbitrary: i)
  case (Cons b bs)
  have "unat b div 16 < 16" "unat b mod 16 < 16" using unat_byte_less [of b] by simp_all
  then have "filter (\<lambda>c. \<not> is_space c) (dump_byte sg b) = [hex_digit (unat b div 16), hex_digit (unat b mod 16)]"
    "digit_value (hex_digit (unat b div 16)) = unat b div 16" "digit_value (hex_digit (unat b mod 16)) = unat b mod 16"
    using Cons.prems by (simp_all add: dump_byte_plain hex_digit_value no_spaces)
  then show ?case using Cons by (simp add: no_spaces)
qed simp

text \<open>A byte from 128 on of a signed \<^verbatim>\<open>char\<close> is printed as a negative number, and after a zero.\<close>

lemma dump_byte_negative: "dump_byte True 0x80 = ''0FFFFFF80 ''"
proof -
  have "promote True 0x80 = 0xFFFFFF80" by (simp add: promote_def)
  then show ?thesis by (simp add: dump_byte_def Let_def hex_nat.simps hex_digit_def char_of_def bit_0)
qed

text \<open>Past the end of its memory the dump reads out of bounds.\<close>

lemma dump_loop_overreads: "i \<le> length stuff \<Longrightarrow> length stuff < i + n \<Longrightarrow> dump_loop sg stuff n i s = Inl OutOfBounds"
  by (induction n arbitrary: i) (simp_all add: prog_simps)

text \<open>The dump of bytes below 128, or of any bytes where \<^verbatim>\<open>char\<close> is unsigned, reads back as these bytes;
  of more bytes than there are it reads out of bounds.\<close>

theorem dump_reads_back:
  assumes "n = nat (sint num)" and "\<forall>b\<in>set (take n stuff). plain sg b"
  shows "if n \<le> length stuff
    then \<exists>body. hex_dump sg stuff num s = Inr (''printing number of bytes: '' @ decimal (uint num) @ newline @ body @ newline, s) \<and>
      undump (filter (\<lambda>c. \<not> is_space c) body) = take n stuff
    else hex_dump sg stuff num s = Inl OutOfBounds"
proof (cases "n \<le> length stuff")
  case True
  with undump_text [OF assms(2), of 0] show ?thesis by (auto simp: hex_dump_run simp flip: assms(1))
next
  case False
  with dump_loop_overreads [of 0 stuff n sg s] show ?thesis by (simp add: hex_dump_def bnd_run flip: assms(1))
qed

theorem dump_reads_back_instance:
  "\<exists>body. hex_dump True [0x2A, 0x07] 2 () = Inr (''printing number of bytes: '' @ decimal 2 @ newline @ body @ newline, ()) \<and>
    undump (filter (\<lambda>c. \<not> is_space c) body) = [0x2A, 0x07]"
  using dump_reads_back [of 2 2 "[0x2A, 0x07]" True "()"] by (simp add: plain_def)

end
