(* ===== verification/Updater.thy ===== *)
theory Updater
  imports Utilities Service_Loop Hex_Dump
begin

text \<open>
  \<^verbatim>\<open>Services/source/updater/updater.c\<close>: the requests that inspect and replace the application
  image. The EEPROM, flash, heap and file system drivers are parameters; \<^verbatim>\<open>golden\<close> is the build
  flag \<^verbatim>\<open>GOLDEN_IMAGE\<close>. The structure \<^verbatim>\<open>image_info\<close> is declared outside the repository:
  the members that the code touches are fields, the remaining bytes are \<open>others\<close>, and
  \<^verbatim>\<open>info_repr\<close> gives its object representation.
\<close>

record image_info =
  addr :: u32
  crc :: u16
  exists_flag :: byte
  others :: bytes

record 'w upd_env =
  golden :: bool
  init_eeprom :: "'w \<Rightarrow> bool \<times> 'w"
  shutdown_eeprom :: "'w \<Rightarrow> 'w"
  priv_eeprom_get_golden_info :: "'w \<Rightarrow> image_info \<times> 'w"
  priv_eeprom_get_app_info :: "'w \<Rightarrow> image_info \<times> 'w"
  priv_eeprom_set_app_info :: "image_info \<Rightarrow> 'w \<Rightarrow> 'w"
  priv_verify_application :: "'w \<Rightarrow> bool \<times> 'w"
  priv_verify_golden :: "'w \<Rightarrow> bool \<times> 'w"
  upd_open :: "string \<Rightarrow> 'w \<Rightarrow> i32 \<times> 'w"
  upd_fstat :: "i32 \<Rightarrow> 'w \<Rightarrow> (i32 \<times> u32) \<times> 'w"
  upd_read :: "i32 \<Rightarrow> bytes \<Rightarrow> 'w \<Rightarrow> (i32 \<times> bytes) \<times> 'w"
  BLInternalFlashStartAddrCheck :: "u32 \<Rightarrow> u32 \<Rightarrow> 'w \<Rightarrow> bool \<times> 'w"
  priv_Fapi_BlockErase :: "u32 \<Rightarrow> u32 \<Rightarrow> 'w \<Rightarrow> byte \<times> 'w"
  priv_Fapi_BlockProgram :: "u32 \<Rightarrow> bytes \<Rightarrow> u32 \<Rightarrow> 'w \<Rightarrow> byte \<times> 'w"
  upd_malloc :: "u32 \<Rightarrow> 'w \<Rightarrow> bytes option \<times> 'w"
  info_repr :: "image_info \<Rightarrow> bytes"
  info_sizeof :: nat
  upd_endian :: endianness
  char_signed :: bool

datatype updater_subtype = FLASH_UPDATE | GET_GOLDEN_INFO | GET_APP_INFO | SET_APP_ADDRESS | SET_APP_CRC
  | ERASE_APP | VERIFY_APPLICATION_IMAGE | VERIFY_GOLDEN_IMAGE

definition updater_subtypes :: "updater_subtype list" where
  "updater_subtypes = [FLASH_UPDATE, GET_GOLDEN_INFO, GET_APP_INFO, SET_APP_ADDRESS, SET_APP_CRC,
     ERASE_APP, VERIFY_APPLICATION_IMAGE, VERIFY_GOLDEN_IMAGE]"

definition upd_subtype :: "byte \<Rightarrow> updater_subtype option" where
  "upd_subtype b = (if unat b < length updater_subtypes then Some (updater_subtypes ! unat b) else None)"

subsection \<open>The buffer\<close>

definition attempts :: "u32 list" where
  "attempts = [4096, 2048, 1024, 512, 256, 128, 64, 32, 16, 8]"

primrec try_malloc :: "'w upd_env \<Rightarrow> u32 list \<Rightarrow> ('w hst, u32 \<times> bytes) prog" where
  "try_malloc E [] = ret (0, [])"
| "try_malloc E (n # ns) =
     bnd (hal (upd_malloc E n)) (\<lambda>r. case r of
       Some buf \<Rightarrow> ret (n, buf)
     | None \<Rightarrow> try_malloc E ns)"

definition get_buffer :: "'w upd_env \<Rightarrow> ('w hst, u32 \<times> bytes) prog" where
  "get_buffer E = try_malloc E attempts"

subsection \<open>The requests\<close>

definition flash_update :: "'w upd_env \<Rightarrow> ('w hst, i8) prog" where
  "flash_update E =
     (if golden E then
        bnd (hal (upd_open E ''VOL0:/application_image.bin'')) (\<lambda>fp.
        if fp = -1 then ret (-1)
        else bnd (hal (upd_fstat E fp)) (\<lambda>(res, st_size).
        if res = -1 then ret (-1)
        else bnd (hal (priv_eeprom_get_app_info E)) (\<lambda>app_info.
        bnd (hal (BLInternalFlashStartAddrCheck E (addr app_info) st_size)) (\<lambda>valid.
        if \<not> valid then ret (-1)
        else bnd (hal (priv_Fapi_BlockErase E (addr app_info) st_size)) (\<lambda>err.
        if err \<noteq> 0 then ret (-1)
        else bnd (get_buffer E) (\<lambda>(size, buf).
        if size = 0 then ret (-1)
        else bnd (hal (upd_read E fp buf)) (\<lambda>(bytes_read, buf').
        let flash_size = (if bytes_read < size then bytes_read else size) in
        bnd (hal (priv_Fapi_BlockProgram E (addr app_info) buf' flash_size)) (\<lambda>err.
        if err \<noteq> 0 then ret (-1) else ret 0))))))))
      else ret (-1))"

definition reply_info :: "'w upd_env \<Rightarrow> ('w \<Rightarrow> image_info \<times> 'w) \<Rightarrow> ('w hst, i8) prog" where
  "reply_info E g =
     bnd (hal g) (\<lambda>info.
     andthen (pkt_write OUT_DATA_BYTE (info_repr E info))
    (andthen (set_packet_length (1 + info_sizeof E + 1)) (ret 0)))"

definition update_info :: "'w upd_env \<Rightarrow> nat \<Rightarrow> (bytes \<Rightarrow> image_info \<Rightarrow> image_info) \<Rightarrow> ('w hst, i8) prog" where
  "update_info E n f =
     (if golden E then
        bnd (pkt_read IN_DATA_BYTE n) (\<lambda>bs.
        bnd (hal (priv_eeprom_get_app_info E)) (\<lambda>info.
        andthen (hal (\<lambda>w. ((), priv_eeprom_set_app_info E (f bs info) w)))
       (andthen (set_packet_length (1 + 1)) (ret 0))))
      else ret (-1))"

text \<open>\<^verbatim>\<open>hex_dump(&packet->data, 20)\<close>; where the text goes is of no consequence.\<close>

definition dump_packet :: "bool \<Rightarrow> ('w hst, unit) prog" where
  "dump_packet sg = bnd (gets data) (\<lambda>stuff. bnd (hex_dump sg stuff 20) (\<lambda>text. ret ()))"

definition verify :: "('w \<Rightarrow> bool \<times> 'w) \<Rightarrow> ('w hst, i8) prog" where
  "verify v = bnd (hal v) (\<lambda>ok. if \<not> ok then ret (-1) else andthen (set_packet_length (1 + 1)) (ret 0))"

definition updater_request :: "'w upd_env \<Rightarrow> updater_subtype \<Rightarrow> ('w hst, i8) prog" where
  "updater_request E c = (case c of
     FLASH_UPDATE \<Rightarrow> flash_update E
   | GET_GOLDEN_INFO \<Rightarrow> reply_info E (priv_eeprom_get_golden_info E)
   | GET_APP_INFO \<Rightarrow> reply_info E (priv_eeprom_get_app_info E)
   | SET_APP_ADDRESS \<Rightarrow>
       andthen (if golden E then dump_packet (char_signed E) else ret ())
         (update_info E 4 (\<lambda>bs info. info\<lparr>addr := of_bytes (upd_endian E) bs\<rparr>))
   | SET_APP_CRC \<Rightarrow> update_info E 2 (\<lambda>bs info. info\<lparr>crc := of_bytes (upd_endian E) bs\<rparr>)
   | ERASE_APP \<Rightarrow> update_info E 0 (\<lambda>bs info. info\<lparr>exists_flag := 0\<rparr>)
   | VERIFY_APPLICATION_IMAGE \<Rightarrow> verify (priv_verify_application E)
   | VERIFY_GOLDEN_IMAGE \<Rightarrow> verify (priv_verify_golden E))"

definition updater_finish :: "'w upd_env \<Rightarrow> byte \<Rightarrow> ('w hst, SAT_returnState) prog" where
  "updater_finish E status =
     andthen (if status = -1 then set_packet_length (1 + 1) else ret ())
    (andthen (hal (\<lambda>w. ((), shutdown_eeprom E w)))
    (andthen (pkt_write STATUS_BYTE [status])
             (ret SATR_OK)))"

definition updater_app :: "'w upd_env \<Rightarrow> ('w hst, SAT_returnState) prog" where
  "updater_app E =
     bnd (pkt_byte SUBSERVICE_BYTE) (\<lambda>ser_subtype.
     bnd (hal (init_eeprom E)) (\<lambda>up.
     if up then
       (case upd_subtype ser_subtype of
          None \<Rightarrow> andthen (hal (\<lambda>w. ((), shutdown_eeprom E w))) (ret SATR_PKT_ILLEGAL_SUBSERVICE)
        | Some c \<Rightarrow> bnd (updater_request E c) (updater_finish E))
     else updater_finish E (-1)))"

definition updater_kicks :: kicks where
  "updater_kicks = \<lparr>k_init = 1, k_iter = 1, k_timeout = 1, k_accept = 1\<rparr>"

definition updater_service :: "'w csp_ops \<Rightarrow> 'w upd_env \<Rightarrow> accept list \<Rightarrow> ('w pool, unit) prog" where
  "updater_service ops E = service_task updater_kicks (reply_step ops (updater_app E))"

subsection \<open>Every request is answered\<close>

definition upd_env_ok :: "'w upd_env \<Rightarrow> bool" where
  "upd_env_ok E \<longleftrightarrow> (\<forall>i. length (info_repr E i) = info_sizeof E)"

lemma safe_try_malloc: "safe n (try_malloc E ns)"
  by (induction ns) (auto intro!: safe_intros)

lemma safe_get_buffer [safe_intros]: "safe n (get_buffer E)"
  by (simp add: get_buffer_def safe_try_malloc)

lemma safe_flash_update [safe_intros]: "safe n (flash_update E)"
  unfolding flash_update_def by (intro safe_intros)

lemma safe_reply_info [safe_intros]: "upd_env_ok E \<Longrightarrow> info_sizeof E + 2 \<le> n \<Longrightarrow> safe n (reply_info E g)"
  unfolding reply_info_def by (intro safe_intros) (auto simp: upd_env_ok_def const_simps)

lemma safe_update_info [safe_intros]: "k + 1 \<le> n \<Longrightarrow> safe n (update_info E k f)"
  unfolding update_info_def by (intro safe_intros) (auto simp: const_simps)

lemma dump_packet_run [prog_simps]: "20 \<le> length (data s) \<Longrightarrow> dump_packet sg s = Inr ((), s)"
  by (simp add: dump_packet_def prog_simps)

lemma safe_dump_packet [safe_intros]: "20 \<le> n \<Longrightarrow> safe n (dump_packet sg)"
  by (simp add: safe_def dump_packet_run)

lemma safe_verify [safe_intros]: "safe n (verify v)"
  unfolding verify_def by (intro safe_intros)

lemma safe_updater_request [safe_intros]:
  "upd_env_ok E \<Longrightarrow> info_sizeof E + 20 \<le> n \<Longrightarrow> safe n (updater_request E c)"
  by (cases c) (auto simp: updater_request_def intro!: safe_intros)

interpretation updater: packet_app updater_app upd_env_ok "\<lambda>E. info_sizeof E + 20"
  by unfold_locales (auto simp: updater_app_def updater_finish_def const_simps Let_def intro!: safe_intros)

subsection \<open>What the requests do\<close>

lemma upd_subtype_simps:
  "upd_subtype 0 = Some FLASH_UPDATE" "upd_subtype 1 = Some GET_GOLDEN_INFO" "upd_subtype 2 = Some GET_APP_INFO"
  "upd_subtype 3 = Some SET_APP_ADDRESS" "upd_subtype 4 = Some SET_APP_CRC" "upd_subtype 5 = Some ERASE_APP"
  "upd_subtype 6 = Some VERIFY_APPLICATION_IMAGE" "upd_subtype 7 = Some VERIFY_GOLDEN_IMAGE"
  by (simp_all add: upd_subtype_def updater_subtypes_def nth_Cons_numeral)

text \<open>An image that is not the golden one refuses to change the application, and changes nothing.\<close>

text \<open>C24: An image other than the golden one refuses to flash, to set the address or the checksum and to
  erase the application, and writes nothing but the status of its reply.\<close>

theorem updater_refuses:
  assumes "\<not> golden E" and "data s ! 0 \<in> {0, 3, 4, 5}" and "2 \<le> length (data s)"
    and "init_eeprom E (world s) = (up, w)"
  shows "updater_app E s = Inr (SATR_OK, s\<lparr>world := shutdown_eeprom E w, packet := status_packet (- 1) (packet s)\<rparr>)"
proof -
  have "data s \<noteq> []" using assms(3) by auto
  with assms show ?thesis
    by (cases up; cases "packet s")
      (auto simp: updater_app_def updater_finish_def updater_request_def flash_update_def update_info_def upd_subtype_simps
        prog_simps const_simps Let_def status_packet_def)
qed

text \<open>The golden image sets one member of the stored information and keeps the others.\<close>

text \<open>The golden image sets the address of the application to the four bytes of the request and keeps
  all other stored information.\<close>

theorem updater_sets_address:
  assumes "golden E" and "data s ! 0 = 3" and "20 \<le> length (data s)"
    and "init_eeprom E (world s) = (True, w)" and "priv_eeprom_get_app_info E w = (info, w')"
  shows "updater_app E s = Inr (SATR_OK, s\<lparr>packet := status_packet 0 (packet s), world := shutdown_eeprom E
    (priv_eeprom_set_app_info E (info\<lparr>addr := of_bytes (upd_endian E) (take 4 (drop 1 (data s)))\<rparr>) w')\<rparr>)"
proof -
  have "data s \<noteq> []" using assms(3) by auto
  with assms show ?thesis
    by (cases "packet s")
      (auto simp: updater_app_def updater_finish_def updater_request_def update_info_def upd_subtype_simps
        prog_simps const_simps Let_def status_packet_def)
qed

lemma updater_other:
  assumes "8 \<le> unat (data s ! 0)" and "data s \<noteq> []" and "init_eeprom E (world s) = (True, w)"
  shows "updater_app E s = Inr (SATR_PKT_ILLEGAL_SUBSERVICE, s\<lparr>world := shutdown_eeprom E w\<rparr>)"
  using assms
  by (auto simp: updater_app_def updater_finish_def upd_subtype_def updater_subtypes_def prog_simps const_simps Let_def)

text \<open>On a heap with \<open>room\<close> bytes the buffer is the largest size of the list that fits.\<close>

lemma try_malloc_largest:
  assumes "\<And>n w. upd_malloc E n w = (if n \<le> room then Some (blk n) else None, w)" and "sorted (rev ns)"
  shows "\<exists>r. try_malloc E ns s = Inr (r, s) \<and>
    (if \<forall>m\<in>set ns. room < m then r = (0, [])
     else fst r \<in> set ns \<and> fst r \<le> room \<and> snd r = blk (fst r) \<and> (\<forall>m\<in>set ns. m \<le> room \<longrightarrow> m \<le> fst r))"
  using assms(2)
proof (induction ns)
  case Nil
  show ?case by (simp add: ret_run)
next
  case (Cons n ns)
  have le: "\<forall>m\<in>set ns. m \<le> n" using Cons.prems by (auto simp: sorted_append)
  show ?case
  proof (cases "n \<le> room")
    case True
    with le show ?thesis by (auto simp: prog_simps assms(1) not_less dest: leD)
  next
    case False
    have "sorted (rev ns)" using Cons.prems by (simp add: sorted_append)
    from Cons.IH [OF this] obtain r where r: "try_malloc E ns s = Inr (r, s)"
      "if \<forall>m\<in>set ns. room < m then r = (0, [])
       else fst r \<in> set ns \<and> fst r \<le> room \<and> snd r = blk (fst r) \<and> (\<forall>m\<in>set ns. m \<le> room \<longrightarrow> m \<le> fst r)"
      by blast
    from False have "try_malloc E (n # ns) s = Inr (r, s)" by (simp add: prog_simps assms(1) r(1))
    moreover have "room < n" using False by simp
    moreover have "m \<le> fst r" if "m \<in> set (n # ns)" "m \<le> room" "\<not> (\<forall>m\<in>set ns. room < m)" for m
      using r(2) that False by auto
    ultimately show ?thesis using r(2) by (cases "\<forall>m\<in>set ns. room < m") auto
  qed
qed

text \<open>
  The flash procedure programs one buffer: at most 4096 bytes of the image, whatever its size. The
  file and the buffer stay open.
\<close>

lemma try_malloc_in: "try_malloc E ns s = Inr ((n, b), t) \<Longrightarrow> n \<noteq> 0 \<Longrightarrow> n \<in> set ns"
proof (induction ns arbitrary: s)
  case Nil
  then show ?case by (simp add: ret_run)
next
  case (Cons k ns)
  then show ?case
    by (cases "fst (upd_malloc E k (world s))") (auto simp: prog_simps)
qed


end
