(* ===== verification/Logger.thy ===== *)
theory Logger
  imports Utilities Service_Loop Reliance Strings
begin

text \<open>
  \<^verbatim>\<open>Services/source/logger/logger_service.c\<close>: reading the two log files into a packet, and the
  size limit of the log. The logger itself (\<^verbatim>\<open>logger/logger.h\<close>) and the heap are parameters; the
  file system is that of \<^verbatim>\<open>Reliance\<close>. Without a block, \<^verbatim>\<open>get_file\<close> goes on to copy
  from a null pointer, and from a block of less than 500 bytes it copies past its end: \<open>log_fault\<close> tells when a
  request ends in one of these faults, and in all other states the handler is safe.
\<close>

record 'w lg_env =
  lg_fs :: "'w red_ops"
  get_logger_file_size :: "'w \<Rightarrow> (i8 \<times> u32) \<times> 'w"
  set_logger_file_size :: "u32 \<Rightarrow> 'w \<Rightarrow> i8 \<times> 'w"
  get_logger_file :: "'w \<Rightarrow> string \<times> 'w"
  get_logger_old_file :: "'w \<Rightarrow> string \<times> 'w"
  lg_malloc :: "nat \<Rightarrow> 'w \<Rightarrow> bytes option \<times> 'w"
  lg_vPortFree :: "'w \<Rightarrow> 'w"
  lg_endian :: endianness

definition max_string_length :: nat where [const_simps]: "max_string_length = 500"

text \<open>\<^verbatim>\<open>file = red_open(...) == -1\<close> assigns the result of the comparison.\<close>

definition file_exists :: "'w red_ops \<Rightarrow> string \<Rightarrow> ('w hst, int) prog" where
  "file_exists ops filename =
     (let close_and_unlink = (\<lambda>file.
            andthen (hal (\<lambda>w. ((), red_close ops file w)))
           (andthen (hal (\<lambda>w. ((), red_unlink ops filename w)))
                    (ret 1))) in
     bnd (hal (red_open ops filename RED_CREAT_EXCL_RDWR)) (\<lambda>r.
     let file = (if r = -1 then 1 else 0) in
     if file \<noteq> 0 then
       bnd (gets (\<lambda>s. red_errno ops (world s))) (\<lambda>errno.
       if errno = RED_EEXIST then andthen (hal (\<lambda>w. ((), red_close ops file w))) (ret 0)
       else close_and_unlink file)
     else close_and_unlink file))"

text \<open>\<^verbatim>\<open>sprintf\<close> into a block: the text and a terminating null byte; the result is the length.\<close>

definition sprintf :: "bytes \<Rightarrow> string \<Rightarrow> ('w hst, u32 \<times> bytes) prog" where
  "sprintf buf cs = (\<lambda>s. if length cs < length buf
     then Inr ((of_nat (length cs), overlay 0 (text_bytes cs @ [0]) buf), s)
     else Inl OutOfBounds)"

text \<open>The loop that clears the block from \<^verbatim>\<open>data_size\<close> on.\<close>

definition clear_from :: "u32 \<Rightarrow> bytes \<Rightarrow> bytes" where
  "clear_from i buf = map (\<lambda>j. if unat i \<le> j then 0 else buf ! j) [0..<length buf]"

definition read_log :: "'w lg_env \<Rightarrow> string \<Rightarrow> u32 \<Rightarrow> bytes \<Rightarrow> ('w hst, i8 \<times> u32 \<times> bytes) prog" where
  "read_log E filename max_file_size buf =
     (let ops = lg_fs E in
     bnd (file_exists ops filename) (\<lambda>ex.
     if ex = 0 then
       bnd (hal (red_open ops filename RED_RDONLY)) (\<lambda>file.
       if file > -1 then
         bnd (hal (red_read ops file (unat max_file_size))) (\<lambda>(n, bs).
         let data_size = of_int n; buf' = overlay 0 bs buf in
         if data_size = 0 then
           bnd (sprintf buf' (''Log file '' @ filename @ '' is empty'' @ newline)) (\<lambda>(k, b). ret (-1, k, b))
         else ret (0, data_size, buf'))
       else
         bnd (gets (\<lambda>s. red_errno ops (world s))) (\<lambda>errno.
         bnd (sprintf buf (''Can't open log file. red_errno: '' @ decimal errno @ newline)) (\<lambda>(k, b). ret (-1, k, b))))
     else
       bnd (sprintf buf (''Log file '' @ filename @ '' does not exist'' @ newline)) (\<lambda>(k, b). ret (-1, k, b))))"

definition get_file :: "'w lg_env \<Rightarrow> string \<Rightarrow> ('w hst, SAT_returnState) prog" where
  "get_file E filename =
     bnd (hal (get_logger_file_size E)) (\<lambda>(_, max_file_size).
     bnd (hal (lg_malloc E (unat max_file_size))) (\<lambda>log_data.
     case log_data of
       None \<Rightarrow> fault NullDeref
     | Some block \<Rightarrow>
         bnd (read_log E filename max_file_size block) (\<lambda>(status, data_size, buf).
         let buf' = clear_from data_size buf in
         andthen (pkt_write STATUS_BYTE [status])
        (bnd (if max_string_length \<le> length buf' then ret (take max_string_length buf') else fault OutOfBounds) (\<lambda>bs.
         andthen (pkt_write OUT_DATA_BYTE bs)
        (andthen (set_packet_length (max_string_length + 2))
        (andthen (hal (\<lambda>w. ((), lg_vPortFree E w)))
                 (ret SATR_OK))))))))"

definition GET_FILE :: byte where [const_simps]: "GET_FILE = 0"
definition GET_OLD_FILE :: byte where [const_simps]: "GET_OLD_FILE = 1"
definition GET_FILE_SIZE :: byte where [const_simps]: "GET_FILE_SIZE = 2"
definition SET_FILE_SIZE :: byte where [const_simps]: "SET_FILE_SIZE = 3"

definition logger_service_app :: "'w lg_env \<Rightarrow> ('w hst, SAT_returnState) prog" where
  "logger_service_app E =
     bnd (pkt_byte SUBSERVICE_BYTE) (\<lambda>ser_subtype.
     if ser_subtype = SET_FILE_SIZE then
       bnd (pkt_read IN_DATA_BYTE 4) (\<lambda>bs.
       bnd (hal (set_logger_file_size E (of_bytes (lg_endian E) bs))) (\<lambda>status.
       andthen (reply_status status) (ret SATR_OK)))
     else if ser_subtype = GET_FILE_SIZE then
       bnd (hal (get_logger_file_size E)) (\<lambda>(status, file_size).
       andthen (reply_data status (to_bytes (lg_endian E) 4 file_size)) (ret SATR_OK))
     else if ser_subtype = GET_FILE then
       bnd (hal (get_logger_file E)) (\<lambda>log_file. andthen (get_file E log_file) (ret SATR_OK))
     else if ser_subtype = GET_OLD_FILE then
       bnd (hal (get_logger_old_file E)) (\<lambda>log_file. andthen (get_file E log_file) (ret SATR_OK))
     else ret SATR_PKT_ILLEGAL_SUBSERVICE)"

definition logger_kicks :: kicks where
  "logger_kicks = \<lparr>k_init = 1, k_iter = 0, k_timeout = 1, k_accept = 1\<rparr>"

definition logger_service :: "'w csp_ops \<Rightarrow> 'w lg_env \<Rightarrow> accept list \<Rightarrow> ('w pool, unit) prog" where
  "logger_service ops E = service_task logger_kicks (reply_step ops (logger_service_app E))"

subsection \<open>What a log request does\<close>

lemma length_clear_from [simp]: "length (clear_from i buf) = length buf"
  by (simp add: clear_from_def)

lemma sprintf_run [prog_simps]:
  "sprintf buf cs s = (if length cs < length buf
     then Inr ((of_nat (length cs), overlay 0 (text_bytes cs @ [0]) buf), s) else Inl OutOfBounds)"
  by (simp add: sprintf_def)

lemma file_exists_run: "\<exists>r w. file_exists ops nm s = Inr (r, s\<lparr>world := w\<rparr>)"
  by (auto simp: file_exists_def prog_simps Let_def)

text \<open>
  A block has the size that was asked for, the names of the two log files are short, error numbers have at most three
  digits and a read delivers no more than was asked for. An allocation may fail, and nothing is said
  of the size limit: \<open>log_fault\<close> tells when a request ends in a fault.
\<close>

definition lg_env_ok :: "'w lg_env \<Rightarrow> bool" where
  "lg_env_ok E \<longleftrightarrow>
     (\<forall>n w b. fst (lg_malloc E n w) = Some b \<longrightarrow> length b = n) \<and>
     (\<forall>w. length (fst (get_logger_file E w)) \<le> 400 \<and> length (fst (get_logger_old_file E w)) \<le> 400) \<and>
     (\<forall>w. 0 \<le> red_errno (lg_fs E) w \<and> red_errno (lg_fs E) w < 1000) \<and>
     (\<forall>fd n w. length (snd (fst (red_read (lg_fs E) fd n w))) \<le> n)"

lemma read_log_run:
  assumes ok: "lg_env_ok E" and nm: "length nm \<le> 400" and b: "length buf = unat mx" "500 \<le> unat mx"
  shows "\<exists>st k buf' t. read_log E nm mx buf s = Inr ((st, k, buf'), t) \<and> packet t = packet s \<and>
    length buf' = length buf"
proof -
  obtain r w where x: "file_exists (lg_fs E) nm s = Inr (r, s\<lparr>world := w\<rparr>)" using file_exists_run [of "lg_fs E" nm s] by blast
  have e: "0 \<le> red_errno (lg_fs E) v" "red_errno (lg_fs E) v < 1000" for v using ok by (simp_all add: lg_env_ok_def)
  have d: "length (decimal (red_errno (lg_fs E) v)) \<le> 3" for v
    using decimal_small [of "nat (red_errno (lg_fs E) v)"] e [of v] by (simp add: decimal_def)
  have rd: "length (snd (fst (red_read (lg_fs E) fd (unat mx) v))) \<le> length buf" for fd v
    using ok b by (simp add: lg_env_ok_def)
  let ?o = "red_open (lg_fs E) nm RED_RDONLY w"
  show ?thesis
  proof (cases "r = 0")
    case False
    with x nm b show ?thesis by (simp add: read_log_def prog_simps newline_def Let_def)
  next
    case r0: True
    show ?thesis
    proof (cases "fst ?o > -1")
      case False
      with x r0 d [of "snd ?o"] b show ?thesis by (simp add: read_log_def prog_simps newline_def Let_def)
    next
      case True
      let ?q = "red_read (lg_fs E) (fst ?o) (unat mx) (snd ?o)"
      show ?thesis
        using x r0 True nm b rd [of "fst ?o" "snd ?o"]
        by (cases "(of_int (fst (fst ?q)) :: u32) = 0")
          (simp_all add: read_log_def prog_simps newline_def Let_def case_prod_beta)
    qed
  qed
qed

text \<open>With any size limit the log is read into its block, or the text of an error does not fit into it.\<close>

lemma read_log_outcome:
  assumes ok: "lg_env_ok E" and b: "length buf = unat mx"
  shows "read_log E nm mx buf s = Inl OutOfBounds \<or>
    (\<exists>st k buf' t. read_log E nm mx buf s = Inr ((st, k, buf'), t) \<and> packet t = packet s \<and> length buf' = length buf)"
proof -
  obtain r w where x: "file_exists (lg_fs E) nm s = Inr (r, s\<lparr>world := w\<rparr>)" using file_exists_run [of "lg_fs E" nm s] by blast
  have rd: "length (snd (fst (red_read (lg_fs E) fd (unat mx) v))) \<le> length buf" for fd v
    using ok b by (simp add: lg_env_ok_def)
  let ?o = "red_open (lg_fs E) nm RED_RDONLY w"
  let ?q = "red_read (lg_fs E) (fst ?o) (unat mx) (snd ?o)"
  show ?thesis
    using x rd [of "fst ?o" "snd ?o"]
    by (cases "r = 0"; cases "fst ?o > -1"; cases "(of_int (fst (fst ?q)) :: u32) = 0")
      (auto simp add: read_log_def prog_simps newline_def Let_def case_prod_beta)
qed

definition get_file_fault :: "'w lg_env \<Rightarrow> 'w \<Rightarrow> fault option" where
  "get_file_fault E w = (case get_logger_file_size E w of ((_, max_file_size), w1) \<Rightarrow>
     (case fst (lg_malloc E (unat max_file_size) w1) of
        None \<Rightarrow> Some NullDeref
      | Some _ \<Rightarrow> (if unat max_file_size < 500 then Some OutOfBounds else None)))"

text \<open>With a smaller limit than 500 bytes a log request always reads or writes past the end of its block.\<close>

lemma get_file_overreads:
  assumes ok: "lg_env_ok E" and g: "get_logger_file_size E (world s) = ((st, mx), w)" and mx: "unat mx < 500"
    and m: "lg_malloc E (unat mx) w = (Some b, w')" and len: "502 \<le> length (data s)"
  shows "get_file E nm s = Inl OutOfBounds"
proof -
  have b: "length b = unat mx" using ok m by (metis fst_conv lg_env_ok_def)
  from read_log_outcome [OF ok b, of nm "s\<lparr>world := w'\<rparr>"] show ?thesis
    using g mx m len b by (auto simp: get_file_def prog_simps const_simps Let_def)
qed

lemma get_file_no_memory:
  assumes "get_logger_file_size E (world s) = ((st, mx), w)" and "lg_malloc E (unat mx) w = (None, w')"
  shows "get_file E nm s = Inl NullDeref"
  using assms by (simp add: get_file_def prog_simps)

lemma get_file_faults:
  assumes "lg_env_ok E" and "502 \<le> length (data s)" and "get_file_fault E (world s) = Some f"
  shows "get_file E nm s = Inl f"
proof -
  obtain st mx w where g: "get_logger_file_size E (world s) = ((st, mx), w)" by (metis prod.collapse)
  obtain r w' where m: "lg_malloc E (unat mx) w = (r, w')" by (metis prod.collapse)
  show ?thesis
  proof (cases r)
    case None
    with assms(3) g m have "f = NullDeref" by (simp add: get_file_fault_def)
    with get_file_no_memory [OF g] m None show ?thesis by simp
  next
    case (Some b)
    with assms(3) g m have "f = OutOfBounds" "unat mx < 500" by (simp_all add: get_file_fault_def split: if_splits)
    with get_file_overreads [OF assms(1) g _ _ assms(2)] m Some show ?thesis by simp
  qed
qed

lemma get_file_run:
  assumes ok: "lg_env_ok E" and nm: "length nm \<le> 400" and len: "502 \<le> length (data s)"
    and fine: "get_file_fault E (world s) = None"
  shows "\<exists>a t. get_file E nm s = Inr (a, t) \<and> length (data t) = length (data s) \<and> data t ! 0 = data s ! 0"
proof -
  obtain st mx w where g: "get_logger_file_size E (world s) = ((st, mx), w)" by (metis prod.collapse)
  obtain r w' where m: "lg_malloc E (unat mx) w = (r, w')" by (metis prod.collapse)
  with fine g obtain b where b: "r = Some b" and mx: "500 \<le> unat mx"
    by (auto simp: get_file_fault_def split: option.splits if_splits)
  have lb: "length b = unat mx" using ok m b by (metis fst_conv lg_env_ok_def)
  from read_log_run [OF ok nm lb mx, of "s\<lparr>world := w'\<rparr>"] obtain st' k buf t where
    r: "read_log E nm mx b (s\<lparr>world := w'\<rparr>) = Inr ((st', k, buf), t)" "packet t = packet s" "length buf = unat mx"
    using lb by auto
  show ?thesis
    using len mx r by (simp add: get_file_def prog_simps g m b const_simps Let_def nth_overlay_before)
qed

text \<open>
  The requests for a log: the driver that names the file. Their faults are those of \<open>get_file\<close> in the world
  after it was called.
\<close>

definition log_request :: "'w lg_env \<Rightarrow> byte \<Rightarrow> ('w \<Rightarrow> string \<times> 'w) option" where
  "log_request E b = (if b = GET_FILE then Some (get_logger_file E)
     else if b = GET_OLD_FILE then Some (get_logger_old_file E) else None)"

definition log_fault :: "'w lg_env \<Rightarrow> 'w hst \<Rightarrow> fault option" where
  "log_fault E s = (case log_request E (data s ! 0) of
     None \<Rightarrow> None
   | Some g \<Rightarrow> get_file_fault E (snd (g (world s))))"

definition log_text :: "csp_packet \<Rightarrow> bool" where
  "log_text p \<longleftrightarrow> pkt_data p ! 0 \<in> {GET_FILE, GET_OLD_FILE}"

definition log_faults :: "csp_packet \<Rightarrow> fault set" where
  "log_faults p = (if log_text p then {NullDeref, OutOfBounds} else {})"

lemma log_fault_kinds: "log_fault E s = Some f \<Longrightarrow> f \<in> log_faults (packet s)"
  by (auto simp: log_fault_def log_request_def get_file_fault_def log_faults_def log_text_def split: if_splits option.splits prod.splits)

lemma logger_app_log:
  assumes "data s \<noteq> []" and "log_request E (data s ! 0) = Some g"
  shows "logger_service_app E s = andthen (get_file E (fst (g (world s)))) (ret SATR_OK) (s\<lparr>world := snd (g (world s))\<rparr>)"
  using assms by (auto simp: logger_service_app_def log_request_def prog_simps const_simps split: if_splits)

definition set_size :: "'w lg_env \<Rightarrow> ('w hst, SAT_returnState) prog" where
  "set_size E = bnd (pkt_read IN_DATA_BYTE 4) (\<lambda>bs.
     bnd (hal (set_logger_file_size E (of_bytes (lg_endian E) bs))) (\<lambda>status.
     andthen (reply_status status) (ret SATR_OK)))"

definition get_size :: "'w lg_env \<Rightarrow> ('w hst, SAT_returnState) prog" where
  "get_size E = bnd (hal (get_logger_file_size E)) (\<lambda>(status, file_size).
     andthen (reply_data status (to_bytes (lg_endian E) 4 file_size)) (ret SATR_OK))"

lemma safe_log_sizes: "safe 502 (set_size E)" "safe 502 (get_size E)"
  unfolding set_size_def get_size_def by (intro safe_intros; simp add: const_simps)+

lemma logger_app_safe_but:
  assumes ok: "lg_env_ok E"
  shows "safe_but 502 (log_fault E) (logger_service_app E)"
proof (rule safe_butI)
  fix s :: "'a hst" and f
  assume len: "502 \<le> length (data s)" and "log_fault E s = Some f"
  then obtain g where g: "log_request E (data s ! 0) = Some g" and f: "get_file_fault E (snd (g (world s))) = Some f"
    by (auto simp: log_fault_def split: option.splits)
  have ne: "data s \<noteq> []" using len by auto
  show "logger_service_app E s = Inl f"
    using get_file_faults [OF ok, of "s\<lparr>world := snd (g (world s))\<rparr>" f] len f
    by (simp add: logger_app_log [OF ne g] andthen_run)
next
  fix s :: "'a hst"
  assume len: "502 \<le> length (data s)" and fine: "log_fault E s = None"
  have ne: "data s \<noteq> []" using len by auto
  show "\<exists>a t. logger_service_app E s = Inr (a, t) \<and> length (data t) = length (data s) \<and> data t ! 0 = data s ! 0"
  proof (cases "log_request E (data s ! 0)")
    case (Some g)
    have "length (fst (g (world s))) \<le> 400"
      using Some ok by (auto simp: log_request_def lg_env_ok_def split: if_splits)
    from get_file_run [OF ok this, of "s\<lparr>world := snd (g (world s))\<rparr>"] fine Some len show ?thesis
      by (auto simp: logger_app_log [OF ne Some] log_fault_def andthen_run ret_run)
  next
    case None
    have "logger_service_app E s = (if data s ! 0 = SET_FILE_SIZE then set_size E
        else if data s ! 0 = GET_FILE_SIZE then get_size E else ret SATR_PKT_ILLEGAL_SUBSERVICE) s"
      using ne None by (simp add: logger_service_app_def set_size_def get_size_def log_request_def bnd_run [of "pkt_byte _"]
          pkt_byte_run const_simps split: if_splits)
    moreover have "safe 502 (if data s ! 0 = SET_FILE_SIZE then set_size E
        else if data s ! 0 = GET_FILE_SIZE then get_size E else ret SATR_PKT_ILLEGAL_SUBSERVICE)"
      by (intro safe_if safe_log_sizes safe_ret)
    ultimately show ?thesis using safeD len by metis
  qed
qed

interpretation logger: packet_app_but logger_service_app lg_env_ok "\<lambda>_. 502" log_fault log_faults
  by unfold_locales (rule logger_app_safe_but, assumption, rule log_fault_kinds)

text \<open>
  An existing log is delivered, as far as it fits. The handle that was opened for it stays open, and
  handle 1, whatever it belongs to, is closed by the existence check.
\<close>

lemma file_exists_closes_1:
  assumes R: "red_reliable ops view" and ex: "files (view (world s)) nm \<noteq> None"
  shows "\<exists>w. file_exists ops nm s = Inr (0, s\<lparr>world := w\<rparr>) \<and> files (view w) = files (view (world s)) \<and>
    handles (view w) = (handles (view (world s)))(1 := None)"
proof -
  note C = reliable_posix [OF R]
  obtain fd w1 where o: "red_open ops nm RED_CREAT_EXCL_RDWR (world s) = (fd, w1)" by force
  have os: "open_spec nm RED_CREAT_EXCL_RDWR (view (world s)) fd (view w1)"
    using red_posixD(3) [OF C, of nm RED_CREAT_EXCL_RDWR "world s"] by (simp add: o)
  then have fd: "fd = -1" using ex by (auto simp: open_spec_def split: if_splits)
  with os reliable_open_fail [OF R, of nm RED_CREAT_EXCL_RDWR "world s"] o
  have v: "files (view w1) = files (view (world s))" "handles (view w1) = handles (view (world s))"
    "red_errno ops w1 = RED_EEXIST"
    by (auto simp: open_spec_def red_posixD(1) [OF C])
  have "close_spec 1 (view w1) (view (red_close ops 1 w1))" by (rule red_posixD(4) [OF C])
  then show ?thesis
    using o fd v
    by (intro exI [of _ "red_close ops 1 w1"]) (simp add: file_exists_def prog_simps Let_def close_spec_def)
qed

lemma read_log_delivers:
  assumes R: "red_reliable (lg_fs E) view" and c: "files (view (world s)) nm = Some c" "c \<noteq> []"
    and b: "length buf = unat mx" "mx \<noteq> 0"
  shows "\<exists>fd w. read_log E nm mx buf s =
      Inr ((0, of_nat (length (take (unat mx) c)), overlay 0 (take (unat mx) c) buf), s\<lparr>world := w\<rparr>) \<and>
    files (view w) = files (view (world s)) \<and>
    handles (view w) = ((handles (view (world s)))(1 := None))(fd \<mapsto> (nm, length (take (unat mx) c)))"
proof -
  have "files (view (world s)) nm \<noteq> None" using c by simp
  from file_exists_closes_1 [OF R this] obtain w1 where
    x: "file_exists (lg_fs E) nm s = Inr (0, s\<lparr>world := w1\<rparr>)" "files (view w1) = files (view (world s))"
      "handles (view w1) = (handles (view (world s)))(1 := None)" by blast
  obtain fd w2 where o: "red_open (lg_fs E) nm RED_RDONLY w1 = (fd, w2)" by force
  have "files (view w1) nm \<noteq> None" using x(2) c by simp
  note os = reliable_open [OF R o, OF disjI2, OF conjI, OF refl this]
  have v2: "fd > -1" "files (view w2) nm = Some c" "handles (view w2) fd = Some (nm, 0)"
    "files (view w2) = files (view w1)" "handles (view w2) = (handles (view w1))(fd \<mapsto> (nm, 0))"
    using os x(2) c by (auto simp: open_spec_def)
  let ?n = "length (take (unat mx) c)"
  let ?w3 = "snd (read_bytes (lg_fs E) fd (unat mx) w2)"
  have r: "fst (fst (red_read (lg_fs E) fd (unat mx) w2)) = int ?n"
    "snd (fst (red_read (lg_fs E) fd (unat mx) w2)) = take (unat mx) c"
    "snd (red_read (lg_fs E) fd (unat mx) w2) = ?w3"
    "view ?w3 = (view w2)\<lparr>handles := (handles (view w2))(fd \<mapsto> (nm, ?n))\<rparr>"
    using reliable_count [OF R v2(3,2)] reliable_read [OF R v2(3,2), of "unat mx"] by (simp_all add: read_bytes_def)
  have "?n \<noteq> 0" using c b(2) by (simp add: unat_gt_0)
  moreover have "?n \<le> unat mx" by simp
  then have "?n < 4294967296" using unat_u32_less [of mx] by linarith
  ultimately have nz: "(of_nat ?n :: u32) \<noteq> 0" by (simp add: word_of_nat_eq_0_iff nat_dvd_not_less)
  have "red_read (lg_fs E) fd (unat mx) w2 = ((int ?n, take (unat mx) c), ?w3)"
    using r(1-3) by (metis prod.collapse)
  then have "read_log E nm mx buf s = Inr ((0, of_nat ?n, overlay 0 (take (unat mx) c) buf), s\<lparr>world := ?w3\<rparr>)"
    using x(1) o v2(1) nz by (simp add: read_log_def prog_simps Let_def del: of_nat_eq_0_iff length_take)
  then show ?thesis
    using r(4) v2(4,5) x(2,3) by (intro exI [of _ fd] exI [of _ ?w3]) simp
qed

lemma clear_overlay:
  assumes "length xs \<le> length b" and "length b < 4294967296"
  shows "clear_from (of_nat (length xs)) (overlay 0 xs b) = xs @ replicate (length b - length xs) 0"
proof -
  have "unat (of_nat (length xs) :: u32) = length xs" using assms by (simp add: unat_of_nat)
  then show ?thesis
    using assms(1) by (intro nth_equalityI) (auto simp: clear_from_def nth_overlay nth_append)
qed

lemma padded_prefix:
  "length ys \<le> n \<Longrightarrow> 500 \<le> n \<Longrightarrow>
   take 500 (ys @ replicate (n - length ys) (0 :: byte)) = take 500 (ys @ replicate 500 0)"
  by (auto simp: min_def)


end
