(* ===== verification/Service_Properties.thy ===== *)
theory Service_Properties
  imports Time_Management General Dfgm Updater Logger Hk_Environment
begin

text \<open>
  Properties of the time, general, magnetometer, updater and logger services that join several of
  their operations, and the instances of their properties on a small board.
\<close>

subsection \<open>A board\<close>

definition packet_of :: "bytes \<Rightarrow> csp_packet" where
  "packet_of bs = \<lparr>pkt_length = of_nat (length bs), pkt_data = bs\<rparr>"

definition sink :: "'w csp_ops" where
  "sink = \<lparr>op_send = (\<lambda>p w. (True, w)), op_buffer_get = (\<lambda>n w. (None, w)), op_buffer_clone = (\<lambda>p w. (None, w))\<rparr>"

definition board_time :: "u32 time_env" where
  "board_time = \<lparr>tm_rtc = \<lparr>RTCMK_SetUnix = (\<lambda>t w. (0, t)), RTCMK_GetUnix = (\<lambda>w. ((0, w), w))\<rparr>, tm_ce = le_host\<rparr>"

definition board_dfgm :: "'w dfgm_env" where
  "board_dfgm = \<lparr>HAL_DFGM_run = (\<lambda>n w. (0, w)), HAL_DFGM_stop = (\<lambda>w. (0, w)),
     dfgm_get_HK = (\<lambda>HK w. ((0, HK\<lparr>coreVoltage := 5\<rparr>), w)),
     dfgm_repr = (\<lambda>HK. to_bytes SYS_LITTLE_ENDIAN 2 (coreVoltage HK)), dfgm_sizeof = 2, dfgm_ce = le_host\<rparr>"

definition board_image :: image_info where
  "board_image = \<lparr>addr = 0x1000, crc = 7, exists_flag = 1, others = []\<rparr>"

definition board_updater :: "bool \<Rightarrow> image_info upd_env" where
  "board_updater g = \<lparr>golden = g, init_eeprom = (\<lambda>w. (True, w)), shutdown_eeprom = (\<lambda>w. w),
     priv_eeprom_get_golden_info = (\<lambda>w. (board_image, w)), priv_eeprom_get_app_info = (\<lambda>w. (w, w)),
     priv_eeprom_set_app_info = (\<lambda>i w. i), priv_verify_application = (\<lambda>w. (True, w)),
     priv_verify_golden = (\<lambda>w. (True, w)), upd_open = (\<lambda>nm w. (3, w)), upd_fstat = (\<lambda>fd w. ((0, 10000), w)),
     upd_read = (\<lambda>fd buf w. ((of_nat (length buf), replicate (length buf) 1), w)),
     BLInternalFlashStartAddrCheck = (\<lambda>a n w. (True, w)), priv_Fapi_BlockErase = (\<lambda>a n w. (0, w)),
     priv_Fapi_BlockProgram = (\<lambda>a bs n w. (0, w)),
     upd_malloc = (\<lambda>n w. (if n \<le> 600 then Some (replicate (unat n) 0) else None, w)),
     info_repr = (\<lambda>i. to_bytes SYS_LITTLE_ENDIAN 4 (addr i)), info_sizeof = 4, upd_endian = SYS_LITTLE_ENDIAN,
     char_signed = False\<rparr>"

definition board_logger :: "u32 \<Rightarrow> ramfs lg_env" where
  "board_logger mx = \<lparr>lg_fs = ram_ops, get_logger_file_size = (\<lambda>w. ((0, mx), w)), set_logger_file_size = (\<lambda>n w. (0, w)),
     get_logger_file = (\<lambda>w. (''syslog.log'', w)), get_logger_old_file = (\<lambda>w. (''syslog.log.old'', w)),
     lg_malloc = (\<lambda>n w. (Some (replicate n 0), w)), lg_vPortFree = (\<lambda>w. w), lg_endian = SYS_LITTLE_ENDIAN\<rparr>"

text \<open>A file system without files, over any world.\<close>

definition no_files :: "'w red_ops" where
  "no_files = \<lparr>red_open = (\<lambda>nm fl w. (-1, w)), red_close = (\<lambda>fd w. w), red_write = (\<lambda>fd bs w. w),
     red_read = (\<lambda>fd n w. ((-1, []), w)), red_lseek_set = (\<lambda>fd n w. w), red_lseek_cur = (\<lambda>fd n w. w),
     red_unlink = (\<lambda>nm w. w), red_errno = (\<lambda>w. 17), set_red_errno = (\<lambda>n w. w)\<rparr>"

definition small_logger :: "'w lg_env" where
  "small_logger = \<lparr>lg_fs = no_files, get_logger_file_size = (\<lambda>w. ((0, 100), w)), set_logger_file_size = (\<lambda>n w. (0, w)),
     get_logger_file = (\<lambda>w. (''syslog.log'', w)), get_logger_old_file = (\<lambda>w. (''syslog.log.old'', w)),
     lg_malloc = (\<lambda>n w. (Some (replicate n 0), w)), lg_vPortFree = (\<lambda>w. w), lg_endian = SYS_LITTLE_ENDIAN\<rparr>"

definition one_log :: ramfs where
  "one_log = empty_ram\<lparr>mfiles := [''syslog.log'' \<mapsto> [72, 105]]\<rparr>"

definition board_general :: "byte general_env" where
  "board_general = \<lparr>gn_ops = \<lparr>reboot_system = (\<lambda>t w. t), deploy = (\<lambda>d w. ((0, 100), w)), switchstatus = (\<lambda>i w. (1, w)),
       get_uhf_watchdog_delay = (\<lambda>w. (60, w)), set_uhf_watchdog_delay = (\<lambda>n w. (0, w)),
       get_sband_watchdog_delay = (\<lambda>w. (60, w)), set_sband_watchdog_delay = (\<lambda>n w. (0, w)),
       get_charon_watchdog_delay = (\<lambda>w. (60, w)), set_charon_watchdog_delay = (\<lambda>n w. (0, w))\<rparr>,
     gn_csp = sink, gn_endian = SYS_LITTLE_ENDIAN, dep_size = 4\<rparr>"

lemma board_envs_ok: "dfgm_env_ok board_dfgm" "upd_env_ok (board_updater g)" "lg_env_ok small_logger"
  by (simp_all add: dfgm_env_ok_def board_dfgm_def upd_env_ok_def board_updater_def lg_env_ok_def small_logger_def
      no_files_def)

subsection \<open>Time\<close>

lemma set_time_run:
  assumes ce: "csp_endian_ok (tm_ce E)" and bs: "length bs = 4" and t: "t = of_bytes SYS_BIG_ENDIAN bs" "TIMESTAMP_ISOK t"
    and p: "pkt_data p = SET_TIME # bs @ rest" and set: "RTCMK_SetUnix (tm_rtc E) t w = (0, w1)"
  shows "time_management_app E \<lparr>packet = p, world = w\<rparr> = Inr (SATR_OK, \<lparr>packet = status_packet 0 p, world = w1\<rparr>)"
proof -
  have n: "net_order (host (tm_ce E)) 4 (csp_hton32 (tm_ce E)) (csp_ntoh32 (tm_ce E))"
    using ce by (simp add: csp_endian_ok_def)
  have tk: "take 4 (drop 1 (pkt_data p)) = bs" using bs by (simp add: p)
  have dec: "t = csp_ntoh32 (tm_ce E) (cnv8_32 (host (tm_ce E)) (take 4 (drop 1 (data \<lparr>packet = p, world = w\<rparr>))))"
    using net_order.ntoh_decode [OF n bs] by (simp add: tk [simplified] cnv_of_bytes bs t(1))
  have "data \<lparr>packet = p, world = w\<rparr> ! 0 = SET_TIME" "5 \<le> length (data \<lparr>packet = p, world = w\<rparr>)"
    using bs by (simp_all add: p)
  from time_app_set [OF this dec] show ?thesis using t(2) set by simp
qed

lemma get_time_run:
  assumes ce: "csp_endian_ok (tm_ce E)" and bs: "length bs = 4" and t: "t = of_bytes SYS_BIG_ENDIAN bs"
    and q: "pkt_data q ! 0 = GET_TIME" "6 \<le> length (pkt_data q)" and get: "RTCMK_GetUnix (tm_rtc E) w1 = ((0, t), w2)"
  shows "time_management_app E \<lparr>packet = q, world = w1\<rparr> = Inr (SATR_OK, \<lparr>packet = data_packet 0 bs q, world = w2\<rparr>)"
proof -
  have n: "net_order (host (tm_ce E)) 4 (csp_hton32 (tm_ce E)) (csp_ntoh32 (tm_ce E))"
    using ce by (simp add: csp_endian_ok_def)
  have "to_bytes (host (tm_ce E)) 4 (csp_hton32 (tm_ce E) t) = to_bytes SYS_BIG_ENDIAN 4 t" by (rule net_order.wire [OF n])
  also have "\<dots> = bs" using bs by (simp add: t)
  finally have enc: "to_bytes (host (tm_ce E)) 4 (csp_hton32 (tm_ce E) t) = bs" .
  show ?thesis using time_app_get [of "\<lparr>packet = q, world = w1\<rparr>" E 0 t w2] q get by (simp add: enc)
qed

text \<open>C20: A time in range that SET_TIME receives is what the following GET_TIME replies, byte for byte, on
  a host of either byte order.\<close>

theorem time_round_trip:
  assumes ce: "csp_endian_ok (tm_ce E)" and bs: "length bs = 4" and pad: "2 \<le> length rest" "6 \<le> length (pkt_data q)"
    and t: "t = of_bytes SYS_BIG_ENDIAN bs" "TIMESTAMP_ISOK t"
    and p: "pkt_data p = SET_TIME # bs @ rest" and q: "pkt_data q ! 0 = GET_TIME"
    and set: "RTCMK_SetUnix (tm_rtc E) t w = (0, w1)" and get: "RTCMK_GetUnix (tm_rtc E) w1 = ((0, t), w2)"
  shows "time_management_app E \<lparr>packet = p, world = w\<rparr> = Inr (SATR_OK, \<lparr>packet = status_packet 0 p, world = w1\<rparr>) \<and>
    time_management_app E \<lparr>packet = q, world = w1\<rparr> = Inr (SATR_OK, \<lparr>packet = data_packet 0 bs q, world = w2\<rparr>)"
  using set_time_run [OF ce bs t p set] get_time_run [OF ce bs t(1) q pad(2) get] by blast

theorem time_round_trip_instance:
  "time_management_app board_time \<lparr>packet = packet_of [SET_TIME, 0x60, 0, 0, 1, 0, 0], world = 0\<rparr> =
      Inr (SATR_OK, \<lparr>packet = status_packet 0 (packet_of [SET_TIME, 0x60, 0, 0, 1, 0, 0]), world = 0x60000001\<rparr>) \<and>
    time_management_app board_time \<lparr>packet = packet_of [GET_TIME, 0, 0, 0, 0, 0], world = 0x60000001\<rparr> =
      Inr (SATR_OK, \<lparr>packet = data_packet 0 [0x60, 0, 0, 1] (packet_of [GET_TIME, 0, 0, 0, 0, 0]), world = 0x60000001\<rparr>)"
proof -
  have t: "0x60000001 = (of_bytes SYS_BIG_ENDIAN [0x60, 0, 0, 1] :: u32)" by (simp add: of_bytes_def push_bit_eq_mult)
  have ok: "TIMESTAMP_ISOK 0x60000001" by (simp add: TIMESTAMP_ISOK_def const_simps)
  have ce: "csp_endian_ok (tm_ce board_time)" using le_host_ok by (simp add: board_time_def)
  show ?thesis
    by (rule time_round_trip [OF ce _ _ _ t ok, of "[0, 0]"]) (simp_all add: packet_of_def board_time_def)
qed

text \<open>A GPS with a fix every other time, and a clock that records what is written.\<close>

definition board_gps :: "(nat \<times> u32 list) gps_ops" where
  "board_gps = \<lparr>gps_get_utc_time = (\<lambda>(i, ts). (if even i then Some (of_nat (1600000000 + i)) else None, (i + 1, ts))),
     gps_set_rtc = (\<lambda>t (i, ts). (0, (i, ts @ [t])))\<rparr>"

theorem RTC_discipline_loop_run_instance:
  "RTC_discipline_loop board_gps 1000 3 \<lparr>rtc_wdt_counter = 0, slept = 0, rworld = (0, [])\<rparr> =
    Inr ((), \<lparr>rtc_wdt_counter = 35, slept = 30000, rworld = (3, [1600000000, 1600000002])\<rparr>)"
  using RTC_discipline_loop_run [of 1000 board_gps 3 "\<lparr>rtc_wdt_counter = 0, slept = 0, rworld = (0, [])\<rparr>" 2 "(3, [1600000000, 1600000002])"]
  by (simp add: board_gps_def naps_def numeral_3_eq_3)

subsection \<open>General\<close>

theorem general_reboot_instance:
  "\<exists>b. general_app board_general 0 ((pool_with 0)\<lparr>bufs := [0 \<mapsto> packet_of [0, 65]]\<rparr>) =
    Inr (SATR_OK, (pool_with 0)\<lparr>bufs := b, pworld := 65\<rparr>)"
  using general_reboot [of "(pool_with 0)\<lparr>bufs := [0 \<mapsto> packet_of [0, 65]]\<rparr>" 0 "packet_of [0, 65]" 65 0 board_general True 0]
  by (simp add: packet_of_def reboot_modes_def board_general_def sink_def pool_with_def)

theorem general_set_delay_overruns_instance:
  "general_app board_general 0 ((pool_with 0)\<lparr>bufs := [0 \<mapsto> packet_of [4, 60, 0, 0, 0]]\<rparr>) = Inl OutOfBounds"
  by (rule general_set_delay_overruns [where p = "packet_of [4, 60, 0, 0, 0]"]) (simp_all add: packet_of_def)

text \<open>An unknown subservice between two requests: its packet, the second of three, is never released.\<close>

theorem general_service_leaks_instance:
  "\<exists>t. general_service board_general
      [Connection [packet_of (3 # replicate 9 0), packet_of (9 # replicate 9 0)], Timeout, Connection [packet_of (2 # replicate 9 0)]]
      (pool_with 0) = Inr ((), t) \<and> svc_wdt_counter t = 7 \<and>
    bufs t 0 = None \<and> bufs t 1 = Some (packet_of (9 # replicate 9 0)) \<and> bufs t 2 = None"
proof -
  let ?as = "[Connection [packet_of (3 # replicate 9 0), packet_of (9 # replicate 9 0)], Timeout, Connection [packet_of (2 # replicate 9 0)]]"
  let ?ps = "[packet_of (3 # replicate 9 0), packet_of (9 # replicate 9 0), packet_of (2 # replicate 9 0)]"
  have net: "takes_all (gn_csp board_general)" by (simp add: takes_all_def board_general_def sink_def)
  have ok: "\<forall>a\<in>set ?as. \<forall>p\<in>set (packets_of a). general_ok p"
    by (simp add: packets_of_def general_ok_def packet_of_def)
  have ps: "?ps = concat (map packets_of ?as)" by (simp add: packets_of_def)
  have n: "length ?ps = 3" "nxt (pool_with 0) = 0" "svc_wdt_counter (pool_with 0) + of_nat (1 + 2 * length ?as) = 7"
    by (simp_all add: pool_with_def)
  from general_service_leaks [OF net pool_with_ok [of 0] ok ps] obtain t where
    t: "general_service board_general ?as (pool_with 0) = Inr ((), t)" "svc_wdt_counter t = 7"
      "\<forall>i < 3. bufs t (0 + i) = (if 8 < pkt_data (?ps ! i) ! 0 then Some (?ps ! i) else None)"
    unfolding n by blast
  have "bufs t 0 = None" "bufs t 1 = Some (packet_of (9 # replicate 9 0))" "bufs t 2 = None"
    using t(3) [rule_format, of 0] t(3) [rule_format, of 1] t(3) [rule_format, of 2] by (simp_all add: packet_of_def flip: numeral_2_eq_2)
  with t(1,2) show ?thesis by blast
qed

theorem general_get_delay_instance:
  "general_app board_general 0 ((pool_with 0)\<lparr>bufs := [0 \<mapsto> packet_of [3, 0, 0, 0, 0, 0]]\<rparr>) =
    Inr (SATR_OK, pool_with 0)"
  using general_get_delay [of "(pool_with 0)\<lparr>bufs := [0 \<mapsto> packet_of [3, 0, 0, 0, 0, 0]]\<rparr>" 0 "packet_of [3, 0, 0, 0, 0, 0]"
      "get_uhf_watchdog_delay (gn_ops board_general)" board_general 60 0 True 0]
  by (simp add: packet_of_def board_general_def sink_def pool_with_def)

subsection \<open>Magnetometer\<close>

theorem dfgm_hk_app_instance:
  "dfgm_service_app board_dfgm \<lparr>packet = packet_of [DFGM_GET_HK, 0, 0, 0], world = 0\<rparr> =
    Inr (SATR_OK, \<lparr>packet = data_packet 0 (dfgm_repr board_dfgm (dfgm_hton le_host (dfgm_zero\<lparr>coreVoltage := 5\<rparr>)))
      (packet_of [DFGM_GET_HK, 0, 0, 0]), world = 0\<rparr>)"
  using dfgm_hk_app [of "\<lparr>packet = packet_of [DFGM_GET_HK, 0, 0, 0], world = 0\<rparr>" board_dfgm 0 "dfgm_zero\<lparr>coreVoltage := 5\<rparr>" 0]
    board_envs_ok(1) by (simp add: packet_of_def board_dfgm_def)

subsection \<open>Updater\<close>

theorem updater_refuses_instance:
  "updater_app (board_updater False) \<lparr>packet = packet_of [3, 0, 0, 0, 9], world = board_image\<rparr> =
    Inr (SATR_OK, \<lparr>packet = status_packet (- 1) (packet_of [3, 0, 0, 0, 9]), world = board_image\<rparr>)"
  using updater_refuses [of "board_updater False" "\<lparr>packet = packet_of [3, 0, 0, 0, 9], world = board_image\<rparr>" True board_image]
  by (simp add: board_updater_def packet_of_def)

theorem updater_sets_address_instance:
  "updater_app (board_updater True) \<lparr>packet = packet_of ([3, 0, 0x20, 0, 0] @ replicate 15 0), world = board_image\<rparr> =
    Inr (SATR_OK, \<lparr>packet = status_packet 0 (packet_of ([3, 0, 0x20, 0, 0] @ replicate 15 0)),
      world = board_image\<lparr>addr := of_bytes SYS_LITTLE_ENDIAN [0, 0x20, 0, 0]\<rparr>\<rparr>)"
  using updater_sets_address [of "board_updater True" "\<lparr>packet = packet_of ([3, 0, 0x20, 0, 0] @ replicate 15 0), world = board_image\<rparr>"
      board_image board_image board_image] by (simp add: board_updater_def packet_of_def)

text \<open>On a heap with a given room get_buffer returns the largest size of its list that fits, and no
  buffer when less than 8 bytes are left.\<close>

theorem get_buffer_largest:
  assumes "\<And>n w. upd_malloc E n w = (if n \<le> room then Some (blk n) else None, w)"
  shows "\<exists>r. get_buffer E s = Inr (r, s) \<and>
    (if room < 8 then r = (0, [])
     else fst r \<in> {4096, 2048, 1024, 512, 256, 128, 64, 32, 16, 8} \<and> fst r \<le> room \<and> snd r = blk (fst r) \<and>
       (\<forall>m\<in>{4096, 2048, 1024, 512, 256, 128, 64, 32, 16, 8}. m \<le> room \<longrightarrow> m \<le> fst r))"
proof -
  have all: "{4096, 2048, 1024, 512, 256, 128, 64, 32, 16, 8} = set attempts" by (simp add: attempts_def)
  have "sorted (rev attempts)" by (simp add: attempts_def)
  moreover have "(\<forall>m\<in>set attempts. room < m) \<longleftrightarrow> room < 8"
  proof
    show "room < 8 \<Longrightarrow> \<forall>m\<in>set attempts. room < m" by (auto simp: attempts_def word_less_nat_alt)
  qed (simp add: attempts_def)
  ultimately show ?thesis
    using try_malloc_largest [OF assms, of attempts s] unfolding all by (simp add: get_buffer_def)
qed

theorem get_buffer_largest_instance:
  "\<exists>r. get_buffer (board_updater True) \<lparr>packet = packet_of [0], world = board_image\<rparr> =
      Inr (r, \<lparr>packet = packet_of [0], world = board_image\<rparr>) \<and> fst r \<le> 600 \<and> 512 \<le> fst r"
proof -
  have m: "\<And>n w. upd_malloc (board_updater True) n w = (if n \<le> 600 then Some (replicate (unat n) 0) else None, w)"
    by (simp add: board_updater_def)
  show ?thesis
    using get_buffer_largest [OF m, of "\<lparr>packet = packet_of [0], world = board_image\<rparr>"] by auto
qed


subsection \<open>Log files\<close>


end
