(* ===== verification/Communication.thy ===== *)
theory Communication
  imports Utilities Service_Loop
begin

text \<open>
  \<^verbatim>\<open>Services/source/communication/communication_service.c\<close>: the requests to the S-band and the
  UHF radio. The drivers are parameters. Their structures are declared outside the
  repository: the members that the code touches are fields, the others \<^verbatim>\<open>*_others\<close>, and the
  \<^verbatim>\<open>*_repr\<close> functions give their object representation; a structure that the code only passes
  on is its bytes. A float is its 32-bit representation. \<^verbatim>\<open>junk_*\<close> are the indeterminate contents of
  automatic variables. Where several driver calls are operands of one sum, C leaves their order open; the
  model takes the order of the text.
\<close>

subsection \<open>Structures\<close>

record Sband_PowerAmplifier =
  pa_status :: byte
  pa_mode :: byte

record Sband_Encoder =
  enc_scrambler :: byte
  enc_filter :: byte
  enc_modulation :: byte
  enc_rate :: byte

record Sband_config =
  cfg_freq :: u32
  cfg_PA_Power :: byte
  cfg_PA :: Sband_PowerAmplifier
  cfg_enc :: Sband_Encoder

record Sband_FirmwareV =
  fw_firmware :: u16
  fw_others :: bytes

record Sband_Housekeeping =
  Output_Power :: u32
  PA_Temp :: u32
  Top_Temp :: u32
  Bottom_Temp :: u32
  Bat_Current :: u32
  Bat_Voltage :: u32
  PA_Current :: u32
  PA_Voltage :: u32
  shk_others :: bytes

record Sband_Full_Status =
  fs_status :: bytes
  fs_firmware :: Sband_FirmwareV
  fs_transmit :: bytes
  fs_HK :: Sband_Housekeeping
  fs_buffer :: "u16 list"

record UHF_configStruct =
  cs_len :: byte
  cs_message :: bytes

record UHF_framStruct =
  fram_addr :: u32
  fram_data :: bytes

record UHF_Status =
  us_scw :: bytes
  us_freq :: u32
  us_pipe_t :: u32
  us_beacon_t :: u32
  us_audio_t :: u32
  us_uptime :: u32
  us_pckts_out :: u32
  us_pckts_in :: u32
  us_pckts_in_crc16 :: u32
  us_temperature :: u32

subsection \<open>Drivers\<close>

type_synonym ('w, 'a) getter = "'w \<Rightarrow> (i8 \<times> 'a) \<times> 'w"
type_synonym ('w, 'a) setter = "'a \<Rightarrow> 'w \<Rightarrow> i8 \<times> 'w"

record 'w sband_ops =
  HAL_S_getFreq :: "('w, u32) getter"
  HAL_S_getControl :: "('w, Sband_PowerAmplifier) getter"
  HAL_S_getEncoder :: "('w, Sband_Encoder) getter"
  HAL_S_getPAPower :: "('w, byte) getter"
  HAL_S_getStatus :: "('w, bytes) getter"
  HAL_S_getFirmwareV :: "('w, Sband_FirmwareV) getter"
  HAL_S_getTR :: "('w, bytes) getter"
  S_getHK :: "('w, Sband_Housekeeping) getter"
  HAL_S_getBuffer :: "nat \<Rightarrow> u16 list \<Rightarrow> ('w, u16 list) getter"
  HAL_S_softResetFPGA :: "'w \<Rightarrow> i8 \<times> 'w"
  HAL_S_setFreq :: "('w, u32) setter"
  HAL_S_setPAPower :: "('w, byte) setter"
  HAL_S_setControl :: "('w, Sband_PowerAmplifier) setter"
  HAL_S_setEncoder :: "('w, Sband_Encoder) setter"

record 'w uhf_ops =
  HAL_UHF_setSCW :: "('w, bytes) setter"
  HAL_UHF_getSCW :: "('w, bytes) getter"
  HAL_UHF_setFreq :: "('w, u32) setter"
  HAL_UHF_setPipeT :: "('w, u32) setter"
  HAL_UHF_setBeaconT :: "('w, u32) setter"
  HAL_UHF_setAudioT :: "('w, u32) setter"
  HAL_UHF_restore :: "('w, byte) setter"
  HAL_UHF_lowPwr :: "('w, byte) setter"
  HAL_UHF_setDestination :: "('w, UHF_configStruct) setter"
  HAL_UHF_setSource :: "('w, UHF_configStruct) setter"
  HAL_UHF_setMorse :: "('w, UHF_configStruct) setter"
  HAL_UHF_setMIDI :: "('w, UHF_configStruct) setter"
  HAL_UHF_setBeaconMsg :: "('w, UHF_configStruct) setter"
  HAL_UHF_setI2C :: "('w, byte) setter"
  HAL_UHF_setFRAM :: "('w, UHF_framStruct) setter"
  HAL_UHF_secure :: "('w, byte) setter"
  HAL_UHF_getFreq :: "('w, u32) getter"
  HAL_UHF_getUptime :: "('w, u32) getter"
  HAL_UHF_getPcktsOut :: "('w, u32) getter"
  HAL_UHF_getPcktsIn :: "('w, u32) getter"
  HAL_UHF_getPcktsInCRC16 :: "('w, u32) getter"
  HAL_UHF_getPipeT :: "('w, u32) getter"
  HAL_UHF_getBeaconT :: "('w, u32) getter"
  HAL_UHF_getAudioT :: "('w, u32) getter"
  HAL_UHF_getTemp :: "('w, u32) getter"
  HAL_UHF_getDestination :: "('w, UHF_configStruct) getter"
  HAL_UHF_getSource :: "('w, UHF_configStruct) getter"
  HAL_UHF_getMorse :: "('w, UHF_configStruct) getter"
  HAL_UHF_getMIDI :: "('w, UHF_configStruct) getter"
  HAL_UHF_getBeaconMsg :: "('w, UHF_configStruct) getter"
  HAL_UHF_getFRAM :: "UHF_framStruct \<Rightarrow> ('w, UHF_framStruct) getter"
  HAL_UHF_getSecureKey :: "('w, u32) getter"

record 'w comm_env =
  cm_s :: "'w sband_ops"
  cm_u :: "'w uhf_ops"
  cm_ce :: csp_endian
  csp_buffer_data_size :: nat
  SCW_LEN :: nat
  U_GOOD_CONFIG :: i8
  U_BAD_PARAM :: i8
  pa_repr :: "Sband_PowerAmplifier \<Rightarrow> bytes"
  enc_repr :: "Sband_Encoder \<Rightarrow> bytes"
  cfg_repr :: "Sband_config \<Rightarrow> bytes"
  fw_repr :: "Sband_FirmwareV \<Rightarrow> bytes"
  shk_repr :: "Sband_Housekeeping \<Rightarrow> bytes"
  full_repr :: "Sband_Full_Status \<Rightarrow> bytes"
  buffer_sizeof :: nat
  stat_repr :: "UHF_Status \<Rightarrow> bytes"
  junk_buffer :: "u16 list"
  junk_message :: bytes
  junk_fram :: bytes

definition CALLSIGN_LEN :: nat where [const_simps]: "CALLSIGN_LEN = 6"
definition MORSE_BEACON_MSG_LEN_MAX :: nat where [const_simps]: "MORSE_BEACON_MSG_LEN_MAX = 36"
definition BEACON_MSG_LEN_MAX :: nat where [const_simps]: "BEACON_MSG_LEN_MAX = 60"
definition FRAM_SIZE :: nat where [const_simps]: "FRAM_SIZE = 16"
definition SID_byte :: nat where [const_simps]: "SID_byte = 1"
definition SINGLE_NOTE_LEN :: nat where [const_simps]: "SINGLE_NOTE_LEN = 3"

datatype Sband_Subtype = S_GET_TEMP | S_GET_FREQ | S_GET_CONTROL | S_GET_ENCODER | S_GET_PA_POWER
  | S_GET_STATUS | S_GET_FW | S_GET_TR | S_GET_BUFFER | S_GET_HK | S_SOFT_RESET | S_GET_FULL_STATUS
  | S_SET_FREQ | S_SET_CONTROL | S_SET_ENCODER | S_SET_PA_POWER | S_GET_CONFIG | S_SET_CONFIG

datatype UHF_Subtype = UHF_SET_SCW | UHF_SET_FREQ | UHF_SET_PIPE_TIMEOUT | UHF_SET_BEACON_T | UHF_SET_AUDIO_T
  | UHF_SET_PARAMS | UHF_RESTORE_DEFAULT | UHF_LOW_PWR | UHF_SET_DEST | UHF_SET_SRC | UHF_SET_MORSE
  | UHF_SET_MIDI | UHF_SET_BEACON_MSG | UHF_SET_I2C | UHF_WRITE_FRAM | UHF_SECURE | UHF_GET_FULL_STAT
  | UHF_GET_CALL_SIGN | UHF_GET_MORSE | UHF_GET_MIDI | UHF_GET_BEACON_MSG | UHF_GET_FRAM | UHF_SET_ECHO
  | UHF_SET_BCN | UHF_SET_PIPE | UHF_GET_SECURE_KEY

definition sband_subtypes :: "Sband_Subtype list" where
  "sband_subtypes = [S_GET_TEMP, S_GET_FREQ, S_GET_CONTROL, S_GET_ENCODER, S_GET_PA_POWER, S_GET_STATUS, S_GET_FW,
     S_GET_TR, S_GET_BUFFER, S_GET_HK, S_SOFT_RESET, S_GET_FULL_STATUS, S_SET_FREQ, S_SET_CONTROL, S_SET_ENCODER,
     S_SET_PA_POWER, S_GET_CONFIG, S_SET_CONFIG]"

definition uhf_subtypes :: "UHF_Subtype list" where
  "uhf_subtypes = [UHF_SET_SCW, UHF_SET_FREQ, UHF_SET_PIPE_TIMEOUT, UHF_SET_BEACON_T, UHF_SET_AUDIO_T, UHF_SET_PARAMS,
     UHF_RESTORE_DEFAULT, UHF_LOW_PWR, UHF_SET_DEST, UHF_SET_SRC, UHF_SET_MORSE, UHF_SET_MIDI, UHF_SET_BEACON_MSG,
     UHF_SET_I2C, UHF_WRITE_FRAM, UHF_SECURE, UHF_GET_FULL_STAT, UHF_GET_CALL_SIGN, UHF_GET_MORSE, UHF_GET_MIDI,
     UHF_GET_BEACON_MSG, UHF_GET_FRAM, UHF_SET_ECHO, UHF_SET_BCN, UHF_SET_PIPE, UHF_GET_SECURE_KEY]"

datatype comm_request = Sband Sband_Subtype | Uhf UHF_Subtype

definition comm_subtype :: "byte \<Rightarrow> comm_request option" where
  "comm_subtype b =
     (if unat b < length sband_subtypes then Some (Sband (sband_subtypes ! unat b))
      else if 20 \<le> unat b \<and> unat b < 20 + length uhf_subtypes then Some (Uhf (uhf_subtypes ! (unat b - 20)))
      else None)"

subsection \<open>Replies\<close>

definition get_reply :: "'w comm_env \<Rightarrow> nat \<Rightarrow> i8 \<Rightarrow> bytes \<Rightarrow> ('w hst, SAT_returnState) prog" where
  "get_reply E checked status bs = checked_reply (csp_buffer_data_size E) checked status bs"

text \<open>\<^verbatim>\<open>status = f + g\<close> for two drivers.\<close>

definition sum_status :: "('w \<Rightarrow> i8 \<times> 'w) \<Rightarrow> ('w \<Rightarrow> i8 \<times> 'w) \<Rightarrow> 'w \<Rightarrow> i8 \<times> 'w" where
  "sum_status f g w = (case f w of (a, w1) \<Rightarrow> case g w1 of (b, w2) \<Rightarrow> (a + b, w2))"

definition add_get :: "i8 \<Rightarrow> ('w, 'a) getter \<Rightarrow> ('w hst, i8 \<times> 'a) prog" where
  "add_get status g = bnd (hal g) (\<lambda>(st, x). ret (status + st, x))"

definition arr_get :: "'a list \<Rightarrow> nat \<Rightarrow> ('s, 'a) prog" where
  "arr_get xs i = (if i < length xs then ret (xs ! i) else fault OutOfBounds)"

definition arr_set :: "'a list \<Rightarrow> nat \<Rightarrow> 'a \<Rightarrow> ('s, 'a list) prog" where
  "arr_set xs i x = (if i < length xs then ret (xs[i := x]) else fault OutOfBounds)"

subsection \<open>S-band\<close>

definition shk_hton :: "csp_endian \<Rightarrow> Sband_Housekeeping \<Rightarrow> Sband_Housekeeping" where
  "shk_hton ce HK = (let c = csp_htonflt ce in HK\<lparr>Output_Power := c (Output_Power HK), PA_Temp := c (PA_Temp HK),
     Top_Temp := c (Top_Temp HK), Bottom_Temp := c (Bottom_Temp HK), Bat_Current := c (Bat_Current HK),
     Bat_Voltage := c (Bat_Voltage HK), PA_Current := c (PA_Current HK), PA_Voltage := c (PA_Voltage HK)\<rparr>)"

definition get_config :: "'w comm_env \<Rightarrow> ('w hst, SAT_returnState) prog" where
  "get_config E =
     bnd (hal (HAL_S_getFreq (cm_s E))) (\<lambda>(st, freq).
     bnd (add_get st (HAL_S_getPAPower (cm_s E))) (\<lambda>(st, power).
     bnd (add_get st (HAL_S_getControl (cm_s E))) (\<lambda>(st, pa).
     bnd (add_get st (HAL_S_getEncoder (cm_s E))) (\<lambda>(st, enc).
     let bs = cfg_repr E \<lparr>cfg_freq = csp_htonflt (cm_ce E) freq, cfg_PA_Power = power, cfg_PA = pa, cfg_enc = enc\<rparr> in
     get_reply E (length bs) st bs))))"

definition get_full_status :: "'w comm_env \<Rightarrow> ('w hst, SAT_returnState) prog" where
  "get_full_status E =
     (let ops = cm_s E in
     bnd (hal (HAL_S_getStatus ops)) (\<lambda>(st, status).
     bnd (add_get st (HAL_S_getFirmwareV ops)) (\<lambda>(st, fw).
     bnd (add_get st (HAL_S_getTR ops)) (\<lambda>(st, tr).
     bnd (add_get st (S_getHK ops)) (\<lambda>(st, HK).
     bnd (add_get st (HAL_S_getBuffer ops 0 (junk_buffer E))) (\<lambda>(st, b0).
     bnd (add_get st (HAL_S_getBuffer ops 1 b0)) (\<lambda>(st, b1).
     bnd (add_get st (HAL_S_getBuffer ops 2 b1)) (\<lambda>(st, b2).
     bnd (arr_get b2 2) (\<lambda>_.
     let buf = map (csp_hton16 (cm_ce E)) (take 3 b2) @ drop 3 b2;
         bs = full_repr E \<lparr>fs_status = status, fs_firmware = fw, fs_transmit = tr, fs_HK = shk_hton (cm_ce E) HK,
           fs_buffer = buf\<rparr> in
     get_reply E (length bs) st bs)))))))))"

definition get_buffer_pointer :: "'w comm_env \<Rightarrow> ('w hst, SAT_returnState) prog" where
  "get_buffer_pointer E =
     bnd (pkt_byte SID_byte) (\<lambda>SID.
     if unat SID > 2 then ret SATR_PKT_ILLEGAL_SUBSERVICE
     else
       bnd (hal (HAL_S_getBuffer (cm_s E) (unat SID) (junk_buffer E))) (\<lambda>(status, buffer).
       bnd (arr_get buffer (unat SID)) (\<lambda>p.
       get_reply E (buffer_sizeof E) status (to_bytes (host (cm_ce E)) 2 (csp_hton16 (cm_ce E) p)))))"

definition read_pa :: "nat \<Rightarrow> ('w hst, Sband_PowerAmplifier) prog" where
  "read_pa off =
     bnd (pkt_byte off) (\<lambda>s. bnd (pkt_byte (off + 1)) (\<lambda>m. ret \<lparr>pa_status = s, pa_mode = m\<rparr>))"

definition read_enc :: "nat \<Rightarrow> ('w hst, Sband_Encoder) prog" where
  "read_enc off =
     bnd (pkt_byte off) (\<lambda>s. bnd (pkt_byte (off + 1)) (\<lambda>f. bnd (pkt_byte (off + 2)) (\<lambda>m.
     bnd (pkt_byte (off + 3)) (\<lambda>r.
     ret \<lparr>enc_scrambler = s, enc_filter = f, enc_modulation = m, enc_rate = r\<rparr>))))"

definition read_float :: "csp_endian \<Rightarrow> nat \<Rightarrow> ('w hst, u32) prog" where
  "read_float ce off = bnd (pkt_read off 4) (\<lambda>bs. ret (csp_ntohflt ce (cnv8_F (host ce) bs)))"

definition set_config :: "'w comm_env \<Rightarrow> ('w hst, SAT_returnState) prog" where
  "set_config E =
     bnd (read_float (cm_ce E) IN_DATA_BYTE) (\<lambda>freq.
     bnd (pkt_byte (IN_DATA_BYTE + 4)) (\<lambda>power.
     bnd (read_pa (IN_DATA_BYTE + 5)) (\<lambda>pa.
     bnd (read_enc (IN_DATA_BYTE + 7)) (\<lambda>enc.
     set_reply (sum_status (sum_status (sum_status (HAL_S_setFreq (cm_s E) freq) (HAL_S_setPAPower (cm_s E) power))
       (HAL_S_setControl (cm_s E) pa)) (HAL_S_setEncoder (cm_s E) enc))))))"

definition sband_set_freq :: "'w comm_env \<Rightarrow> ('w hst, SAT_returnState) prog" where
  "sband_set_freq E = bnd (read_float (cm_ce E) IN_DATA_BYTE) (\<lambda>freq. set_reply (HAL_S_setFreq (cm_s E) freq))"

definition sband_set_power :: "'w comm_env \<Rightarrow> ('w hst, SAT_returnState) prog" where
  "sband_set_power E = bnd (pkt_byte IN_DATA_BYTE) (\<lambda>PA_Power. set_reply (HAL_S_setPAPower (cm_s E) PA_Power))"

definition sband_set_control :: "'w comm_env \<Rightarrow> ('w hst, SAT_returnState) prog" where
  "sband_set_control E = bnd (read_pa IN_DATA_BYTE) (\<lambda>PA. set_reply (HAL_S_setControl (cm_s E) PA))"

definition sband_set_encoder :: "'w comm_env \<Rightarrow> ('w hst, SAT_returnState) prog" where
  "sband_set_encoder E = bnd (read_enc IN_DATA_BYTE) (\<lambda>enc. set_reply (HAL_S_setEncoder (cm_s E) enc))"

lemmas sband_setters = sband_set_freq_def sband_set_power_def sband_set_control_def sband_set_encoder_def

definition sband_request :: "'w comm_env \<Rightarrow> Sband_Subtype \<Rightarrow> ('w hst, SAT_returnState) prog" where
  "sband_request E c =
     (let ops = cm_s E; ce = cm_ce E; e = host ce; reply = (\<lambda>st bs. get_reply E (length bs) st bs) in
     case c of
       S_GET_TEMP \<Rightarrow> ret SATR_PKT_ILLEGAL_SUBSERVICE
     | S_GET_FREQ \<Rightarrow> bnd (hal (HAL_S_getFreq ops)) (\<lambda>(st, freq). reply st (to_bytes e 4 (csp_htonflt ce freq)))
     | S_GET_CONTROL \<Rightarrow> bnd (hal (HAL_S_getControl ops)) (\<lambda>(st, PA). reply st (pa_repr E PA))
     | S_GET_ENCODER \<Rightarrow> bnd (hal (HAL_S_getEncoder ops)) (\<lambda>(st, enc). reply st (enc_repr E enc))
     | S_GET_PA_POWER \<Rightarrow> bnd (hal (HAL_S_getPAPower ops)) (\<lambda>(st, PA_Power). reply st [PA_Power])
     | S_GET_CONFIG \<Rightarrow> get_config E
     | S_GET_STATUS \<Rightarrow> bnd (hal (HAL_S_getStatus ops)) (\<lambda>(st, S_status). get_reply E 1 st S_status)
     | S_GET_FW \<Rightarrow> bnd (hal (HAL_S_getFirmwareV ops)) (\<lambda>(st, fw).
         reply st (fw_repr E (fw\<lparr>fw_firmware := csp_hton16 ce (fw_firmware fw)\<rparr>)))
     | S_GET_TR \<Rightarrow> bnd (hal (HAL_S_getTR ops)) (\<lambda>(st, transmit). reply st transmit)
     | S_GET_HK \<Rightarrow> bnd (hal (S_getHK ops)) (\<lambda>(st, HK). reply st (shk_repr E (shk_hton ce HK)))
     | S_GET_BUFFER \<Rightarrow> get_buffer_pointer E
     | S_SOFT_RESET \<Rightarrow> set_reply (HAL_S_softResetFPGA ops)
     | S_GET_FULL_STATUS \<Rightarrow> get_full_status E
     | S_SET_FREQ \<Rightarrow> sband_set_freq E
    | S_SET_PA_POWER \<Rightarrow> sband_set_power E
    | S_SET_CONTROL \<Rightarrow> sband_set_control E
    | S_SET_ENCODER \<Rightarrow> sband_set_encoder E
    | S_SET_CONFIG \<Rightarrow> set_config E)"

subsection \<open>UHF\<close>

text \<open>
  The loops that copy text. From the packet: up to \<open>n\<close> bytes, ending before a null byte, through \<open>f\<close>. To
  the reply: the first \<open>n\<close> bytes of a message.
\<close>

primrec copy_text ::
  "(byte \<Rightarrow> byte) \<Rightarrow> nat \<Rightarrow> nat \<Rightarrow> nat \<Rightarrow> bytes \<Rightarrow> ('w hst, nat \<times> bytes) prog" where
  "copy_text f off 0 i msg = ret (i, msg)"
| "copy_text f off (Suc n) i msg =
     bnd (pkt_byte (off + i)) (\<lambda>b.
     if b = 0 then ret (i, msg)
     else bnd (arr_set msg i (f b)) (\<lambda>msg'. copy_text f off n (Suc i) msg'))"

primrec copy_out :: "bytes \<Rightarrow> nat \<Rightarrow> nat \<Rightarrow> bytes \<Rightarrow> ('s, bytes) prog" where
  "copy_out src 0 i dst = ret dst"
| "copy_out src (Suc n) i dst =
     bnd (arr_get src i) (\<lambda>b. bnd (arr_set dst i b) (\<lambda>dst'. copy_out src n (Suc i) dst'))"

definition set_scw_entry :: "'w comm_env \<Rightarrow> nat \<Rightarrow> ('w hst, SAT_returnState) prog" where
  "set_scw_entry E i =
     bnd (hal (HAL_UHF_getSCW (cm_u E))) (\<lambda>(status, scw).
     if status = U_GOOD_CONFIG E then
       bnd (arr_set scw i 1) (\<lambda>scw'. set_reply (HAL_UHF_setSCW (cm_u E) scw'))
     else andthen (reply_status status) (ret SATR_OK))"

definition set_params :: "'w comm_env \<Rightarrow> ('w hst, SAT_returnState) prog" where
  "set_params E =
     bnd (read_u32 (cm_ce E) IN_DATA_BYTE) (\<lambda>freq.
     bnd (read_u32 (cm_ce E) (IN_DATA_BYTE + 4)) (\<lambda>pipe_t.
     bnd (read_u32 (cm_ce E) (IN_DATA_BYTE + 8)) (\<lambda>beacon_t.
     bnd (read_u32 (cm_ce E) (IN_DATA_BYTE + 12)) (\<lambda>audio_t.
     set_reply (sum_status (sum_status (sum_status (HAL_UHF_setFreq (cm_u E) freq) (HAL_UHF_setPipeT (cm_u E) pipe_t))
       (HAL_UHF_setBeaconT (cm_u E) beacon_t)) (HAL_UHF_setAudioT (cm_u E) audio_t))))))"

definition set_callsign :: "'w comm_env \<Rightarrow> ('w, UHF_configStruct) setter \<Rightarrow> ('w hst, SAT_returnState) prog" where
  "set_callsign E f =
     bnd (copy_text (\<lambda>b. b) IN_DATA_BYTE CALLSIGN_LEN 0 (junk_message E)) (\<lambda>(i, msg).
     set_reply (f \<lparr>cs_len = of_nat CALLSIGN_LEN, cs_message = msg\<rparr>))"

definition set_text ::
  "'w comm_env \<Rightarrow> (byte \<Rightarrow> byte) \<Rightarrow> nat \<Rightarrow> ('w, UHF_configStruct) setter \<Rightarrow> ('w hst, SAT_returnState) prog" where
  "set_text E tr n f =
     bnd (copy_text tr IN_DATA_BYTE n 0 (junk_message E)) (\<lambda>(i, msg).
     set_reply (f \<lparr>cs_len = of_nat i, cs_message = msg\<rparr>))"

text \<open>\<^verbatim>\<open>'|'\<close> stands for a space.\<close>

definition morse_char :: "byte \<Rightarrow> byte" where
  "morse_char b = (if b = 124 then 32 else b)"

definition set_midi :: "'w comm_env \<Rightarrow> ('w hst, SAT_returnState) prog" where
  "set_midi E =
     (let reject = andthen (reply_status (U_BAD_PARAM E)) (ret SATR_OK) in
     bnd (pkt_byte IN_DATA_BYTE) (\<lambda>M_char.
     if M_char \<noteq> 77 then reject
     else bnd (copy_text (\<lambda>b. b) (IN_DATA_BYTE + 1) BEACON_MSG_LEN_MAX 0 (junk_message E)) (\<lambda>(i, msg).
       if i mod SINGLE_NOTE_LEN \<noteq> 0 then reject
       else set_reply (HAL_UHF_setMIDI (cm_u E) \<lparr>cs_len = of_nat (i div SINGLE_NOTE_LEN), cs_message = msg\<rparr>))))"

definition set_i2c :: "'w comm_env \<Rightarrow> ('w hst, SAT_returnState) prog" where
  "set_i2c E =
     bnd (pkt_byte IN_DATA_BYTE) (\<lambda>b.
     let I2C_address = b + 12 in
     set_reply (HAL_UHF_setI2C (cm_u E) (ucast (csp_ntoh32 (cm_ce E) (ucast I2C_address)))))"

definition write_fram :: "'w comm_env \<Rightarrow> ('w hst, SAT_returnState) prog" where
  "write_fram E =
     bnd (pkt_read IN_DATA_BYTE 4) (\<lambda>a.
     bnd (pkt_read (IN_DATA_BYTE + 4) FRAM_SIZE) (\<lambda>bs.
     set_reply (HAL_UHF_setFRAM (cm_u E) \<lparr>fram_addr = cnv8_32 (host (cm_ce E)) a, fram_data = bs\<rparr>)))"

definition get_full_stat :: "'w comm_env \<Rightarrow> ('w hst, SAT_returnState) prog" where
  "get_full_stat E =
     (let ops = cm_u E; h = csp_hton32 (cm_ce E) in
     bnd (hal (HAL_UHF_getSCW ops)) (\<lambda>(st, scw).
     bnd (add_get st (HAL_UHF_getFreq ops)) (\<lambda>(st, freq).
     bnd (add_get st (HAL_UHF_getUptime ops)) (\<lambda>(st, uptime).
     bnd (add_get st (HAL_UHF_getPcktsOut ops)) (\<lambda>(st, pckts_out).
     bnd (add_get st (HAL_UHF_getPcktsIn ops)) (\<lambda>(st, pckts_in).
     bnd (add_get st (HAL_UHF_getPcktsInCRC16 ops)) (\<lambda>(st, crc16).
     bnd (add_get st (HAL_UHF_getPipeT ops)) (\<lambda>(st, pipe_t).
     bnd (add_get st (HAL_UHF_getBeaconT ops)) (\<lambda>(st, beacon_t).
     bnd (add_get st (HAL_UHF_getAudioT ops)) (\<lambda>(st, audio_t).
     bnd (add_get st (HAL_UHF_getTemp ops)) (\<lambda>(st, temperature).
     let bs = stat_repr E \<lparr>us_scw = scw, us_freq = h freq, us_pipe_t = h pipe_t, us_beacon_t = h beacon_t,
           us_audio_t = h audio_t, us_uptime = h uptime, us_pckts_out = h pckts_out, us_pckts_in = h pckts_in,
           us_pckts_in_crc16 = h crc16, us_temperature = csp_htonflt (cm_ce E) temperature\<rparr> in
     get_reply E (length bs) st bs)))))))))))"

definition get_call_sign :: "'w comm_env \<Rightarrow> ('w hst, SAT_returnState) prog" where
  "get_call_sign E =
     bnd (hal (HAL_UHF_getDestination (cm_u E))) (\<lambda>(st, dest).
     bnd (add_get st (HAL_UHF_getSource (cm_u E))) (\<lambda>(st, src).
     bnd (copy_out (cs_message dest) CALLSIGN_LEN 0 (replicate CALLSIGN_LEN 0)) (\<lambda>d.
     bnd (copy_out (cs_message src) CALLSIGN_LEN 0 (replicate CALLSIGN_LEN 0)) (\<lambda>s.
     get_reply E (2 * CALLSIGN_LEN) st (d @ s)))))"

text \<open>\<^verbatim>\<open>uhf_struct_len\<close> has eight bits; \<open>k\<close> is what the length is multiplied by.\<close>

definition get_text :: "'w comm_env \<Rightarrow> nat \<Rightarrow> byte \<Rightarrow> ('w, UHF_configStruct) getter \<Rightarrow> ('w hst, SAT_returnState) prog" where
  "get_text E n k g =
     bnd (hal g) (\<lambda>(status, c).
     bnd (copy_out (cs_message c) (unat (cs_len c * k)) 0 (replicate n 0)) (\<lambda>bs.
     get_reply E n status bs))"

definition get_fram :: "'w comm_env \<Rightarrow> ('w hst, SAT_returnState) prog" where
  "get_fram E =
     bnd (pkt_read IN_DATA_BYTE 4) (\<lambda>a.
     bnd (hal (HAL_UHF_getFRAM (cm_u E) \<lparr>fram_addr = cnv8_32 (host (cm_ce E)) a, fram_data = junk_fram E\<rparr>)) (\<lambda>(status, fram).
     bnd (copy_out (fram_data fram) FRAM_SIZE 0 (replicate FRAM_SIZE 0)) (\<lambda>bs.
     get_reply E FRAM_SIZE status bs)))"

definition uhf_secure :: "'w comm_env \<Rightarrow> ('w hst, SAT_returnState) prog" where
  "uhf_secure E = bnd (pkt_byte IN_DATA_BYTE) (\<lambda>confirm. set_reply (HAL_UHF_secure (cm_u E) confirm))"

definition get_secure_key :: "'w comm_env \<Rightarrow> ('w hst, SAT_returnState) prog" where
  "get_secure_key E = bnd (hal (HAL_UHF_getSecureKey (cm_u E))) (\<lambda>(st, key).
     get_reply E 4 st (to_bytes (host (cm_ce E)) 4 (csp_hton32 (cm_ce E) key)))"

definition uhf_request :: "'w comm_env \<Rightarrow> UHF_Subtype \<Rightarrow> ('w hst, SAT_returnState) prog" where
  "uhf_request E c =
     (let ops = cm_u E; ce = cm_ce E; confirm = (\<lambda>f. bnd (pkt_byte IN_DATA_BYTE) (\<lambda>b. set_reply (f b)));
          set_u32 = (\<lambda>f. bnd (read_u32 ce IN_DATA_BYTE) (\<lambda>x. set_reply (f x))) in
     case c of
       UHF_SET_SCW \<Rightarrow> bnd (pkt_read IN_DATA_BYTE (SCW_LEN E)) (\<lambda>scw. set_reply (HAL_UHF_setSCW ops scw))
     | UHF_SET_ECHO \<Rightarrow> set_scw_entry E 4
     | UHF_SET_BCN \<Rightarrow> set_scw_entry E 5
     | UHF_SET_PIPE \<Rightarrow> set_scw_entry E 6
     | UHF_SET_FREQ \<Rightarrow> set_u32 (HAL_UHF_setFreq ops)
     | UHF_SET_PIPE_TIMEOUT \<Rightarrow> set_u32 (HAL_UHF_setPipeT ops)
     | UHF_SET_BEACON_T \<Rightarrow> set_u32 (HAL_UHF_setBeaconT ops)
     | UHF_SET_AUDIO_T \<Rightarrow> set_u32 (HAL_UHF_setAudioT ops)
     | UHF_SET_PARAMS \<Rightarrow> set_params E
     | UHF_RESTORE_DEFAULT \<Rightarrow> confirm (HAL_UHF_restore ops)
     | UHF_LOW_PWR \<Rightarrow> confirm (HAL_UHF_lowPwr ops)
     | UHF_SET_DEST \<Rightarrow> set_callsign E (HAL_UHF_setDestination ops)
     | UHF_SET_SRC \<Rightarrow> set_callsign E (HAL_UHF_setSource ops)
     | UHF_SET_MORSE \<Rightarrow> set_text E morse_char MORSE_BEACON_MSG_LEN_MAX (HAL_UHF_setMorse ops)
     | UHF_SET_MIDI \<Rightarrow> set_midi E
     | UHF_SET_BEACON_MSG \<Rightarrow> set_text E (\<lambda>b. b) BEACON_MSG_LEN_MAX (HAL_UHF_setBeaconMsg ops)
     | UHF_SET_I2C \<Rightarrow> set_i2c E
     | UHF_WRITE_FRAM \<Rightarrow> write_fram E
     | UHF_SECURE \<Rightarrow> uhf_secure E
     | UHF_GET_FULL_STAT \<Rightarrow> get_full_stat E
     | UHF_GET_CALL_SIGN \<Rightarrow> get_call_sign E
     | UHF_GET_MORSE \<Rightarrow> get_text E MORSE_BEACON_MSG_LEN_MAX 1 (HAL_UHF_getMorse ops)
     | UHF_GET_MIDI \<Rightarrow> get_text E BEACON_MSG_LEN_MAX 3 (HAL_UHF_getMIDI ops)
     | UHF_GET_BEACON_MSG \<Rightarrow> get_text E BEACON_MSG_LEN_MAX 1 (HAL_UHF_getBeaconMsg ops)
     | UHF_GET_FRAM \<Rightarrow> get_fram E
     | UHF_GET_SECURE_KEY \<Rightarrow> get_secure_key E)"

subsection \<open>The handler and its task\<close>

definition communication_service_app :: "'w comm_env \<Rightarrow> ('w hst, SAT_returnState) prog" where
  "communication_service_app E =
     bnd (pkt_byte SUBSERVICE_BYTE) (\<lambda>ser_subtype.
     case comm_subtype ser_subtype of
       None \<Rightarrow> ret SATR_PKT_ILLEGAL_SUBSERVICE
     | Some (Sband c) \<Rightarrow> sband_request E c
     | Some (Uhf c) \<Rightarrow> uhf_request E c)"

definition communication_kicks :: kicks where
  "communication_kicks = \<lparr>k_init = 1, k_iter = 0, k_timeout = 1, k_accept = 1\<rparr>"

definition communication_service :: "'w csp_ops \<Rightarrow> 'w comm_env \<Rightarrow> accept list \<Rightarrow> ('w pool, unit) prog" where
  "communication_service ops E = service_task communication_kicks (reply_step ops (communication_service_app E))"

subsection \<open>Loops over text\<close>

lemma arr_get_run [prog_simps]: "arr_get xs i s = (if i < length xs then Inr (xs ! i, s) else Inl OutOfBounds)"
  by (simp add: arr_get_def prog_simps)

lemma arr_set_run [prog_simps]: "arr_set xs i x s = (if i < length xs then Inr (xs[i := x], s) else Inl OutOfBounds)"
  by (simp add: arr_set_def prog_simps)

lemma overlay_Cons: "i < length msg \<Longrightarrow> overlay (Suc i) ys (msg[i := x]) = overlay i (x # ys) msg"
  by (simp add: overlay_def take_Suc_conv_app_nth)

text \<open>The text in a packet: at most \<open>n\<close> bytes, ending before a null byte.\<close>

definition text_at :: "nat \<Rightarrow> nat \<Rightarrow> bytes \<Rightarrow> bytes" where
  "text_at off n d = takeWhile (\<lambda>b. b \<noteq> 0) (take n (drop off d))"

lemma text_at_Suc:
  "off < length d \<Longrightarrow> text_at off (Suc n) d = (if d ! off = 0 then [] else d ! off # text_at (Suc off) n d)"
  by (simp add: text_at_def Cons_nth_drop_Suc [symmetric])

lemma length_text_at: "length (text_at off n d) \<le> n"
  using length_takeWhile_le [of "\<lambda>b. b \<noteq> 0" "take n (drop off d)"] by (simp add: text_at_def)

lemma copy_text_run:
  assumes "off + i + n \<le> length (data s)" and "i + n \<le> length msg"
  shows "copy_text f off n i msg s = Inr ((i + length (text_at (off + i) n (data s)),
    overlay i (map f (text_at (off + i) n (data s))) msg), s)"
  using assms
proof (induction n arbitrary: i msg)
  case 0
  then show ?case by (simp add: prog_simps text_at_def overlay_def)
next
  case (Suc n)
  then show ?case
    using Suc.IH [of "Suc i" "msg[i := f (data s ! (off + i))]"]
    by (simp add: prog_simps text_at_Suc overlay_Cons) (simp add: overlay_def)
qed

lemma copy_out_run:
  assumes "i + n \<le> length src" and "i + n \<le> length dst"
  shows "copy_out src n i dst s = Inr (overlay i (take n (drop i src)) dst, s)"
  using assms
proof (induction n arbitrary: i dst)
  case 0
  then show ?case by (simp add: prog_simps overlay_def)
next
  case (Suc n)
  then show ?case
    using Suc.IH [of "Suc i" "dst[i := src ! i]"]
    by (simp add: prog_simps overlay_Cons Cons_nth_drop_Suc [symmetric] del: drop_Suc)
qed

text \<open>A message longer than the buffer of the reply is copied past the end of that buffer.\<close>

lemma copy_out_overruns:
  assumes "length dst < i + n" and "i \<le> length dst"
  shows "copy_out src n i dst s = Inl OutOfBounds"
  using assms
proof (induction n arbitrary: i dst)
  case 0
  then show ?case by simp
next
  case (Suc n)
  then show ?case
    using Suc.IH [of "dst[i := src ! i]" "Suc i"] by (auto simp: prog_simps)
qed

subsection \<open>Which requests are answered\<close>

text \<open>
  The sizes of the structures and arrays of the drivers. Nothing is said of the lengths that the radio
  reports: \<open>comm_fault\<close> tells for which of them a request ends in a fault.
\<close>

definition comm_env_ok :: "'w comm_env \<Rightarrow> bool" where
  "comm_env_ok E \<longleftrightarrow>
     (\<forall>x. length (pa_repr E x) \<le> 200) \<and> (\<forall>x. length (enc_repr E x) \<le> 200) \<and> (\<forall>x. length (cfg_repr E x) \<le> 200) \<and>
     (\<forall>x. length (fw_repr E x) \<le> 200) \<and> (\<forall>x. length (shk_repr E x) \<le> 200) \<and> (\<forall>x. length (full_repr E x) \<le> 200) \<and>
     (\<forall>x. length (stat_repr E x) \<le> 200) \<and> 7 \<le> SCW_LEN E \<and> SCW_LEN E \<le> 200 \<and>
     (\<forall>w. length (snd (fst (HAL_S_getStatus (cm_s E) w))) \<le> 200) \<and>
     (\<forall>w. length (snd (fst (HAL_S_getTR (cm_s E) w))) \<le> 200) \<and>
     3 \<le> length (junk_buffer E) \<and> 60 \<le> length (junk_message E) \<and>
     (\<forall>i b w. length (snd (fst (HAL_S_getBuffer (cm_s E) i b w))) = length b) \<and>
     (\<forall>w. length (snd (fst (HAL_UHF_getSCW (cm_u E) w))) = SCW_LEN E) \<and>
     (\<forall>w. 6 \<le> length (cs_message (snd (fst (HAL_UHF_getDestination (cm_u E) w))))) \<and>
     (\<forall>w. 6 \<le> length (cs_message (snd (fst (HAL_UHF_getSource (cm_u E) w))))) \<and>
     (\<forall>w. 36 \<le> length (cs_message (snd (fst (HAL_UHF_getMorse (cm_u E) w))))) \<and>
     (\<forall>w. 60 \<le> length (cs_message (snd (fst (HAL_UHF_getMIDI (cm_u E) w))))) \<and>
     (\<forall>w. 60 \<le> length (cs_message (snd (fst (HAL_UHF_getBeaconMsg (cm_u E) w))))) \<and>
     (\<forall>f w. 16 \<le> length (fram_data (snd (fst (HAL_UHF_getFRAM (cm_u E) f w)))))"

lemma safe_bnd_run:
  "(\<And>s. n \<le> length (data s) \<Longrightarrow> m s = Inr (x s, s) \<and> safe n (k (x s))) \<Longrightarrow> safe n (bnd m k)"
  by (simp add: safe_def prog_simps)

lemma safe_arr_get: "i < length xs \<Longrightarrow> safe n (k (xs ! i)) \<Longrightarrow> safe n (bnd (arr_get xs i) k)"
  by (simp add: safe_def prog_simps)

lemma safe_arr_set: "i < length xs \<Longrightarrow> safe n (k (xs[i := x])) \<Longrightarrow> safe n (bnd (arr_set xs i x) k)"
  by (simp add: safe_def prog_simps)

lemma safe_copy_text:
  "off + i + k \<le> n \<Longrightarrow> i + k \<le> length msg \<Longrightarrow> safe n (copy_text f off k i msg)"
  by (rule safeI) (simp add: copy_text_run)

lemma safe_copy_out:
  "i + k \<le> length src \<Longrightarrow> i + k \<le> length dst \<Longrightarrow> safe n (c (overlay i (take k (drop i src)) dst)) \<Longrightarrow>
   safe n (bnd (copy_out src k i dst) c)"
  by (simp add: safe_def prog_simps copy_out_run)

lemma safe_get_reply [safe_intros]: "length bs + 2 \<le> n \<Longrightarrow> safe n (get_reply E k st bs)"
  unfolding get_reply_def by (intro safe_intros)

lemma safe_add_get:
  assumes "\<And>w. safe n (k (st + fst (fst (g w)), snd (fst (g w))))"
  shows "safe n (bnd (add_get st g) k)"
proof (rule safeI)
  fix s :: "'a hst" assume "n \<le> length (data s)"
  then show "\<exists>a s'. bnd (add_get st g) k s = Inr (a, s') \<and> length (data s') = length (data s) \<and> data s' ! 0 = data s ! 0"
    using safeD [OF assms, of "s\<lparr>world := snd (g (world s))\<rparr>" "world s"]
    by (simp add: add_get_def prog_simps case_prod_beta)
qed

lemma safe_reads [safe_intros]:
  "off + 2 \<le> n \<Longrightarrow> safe n (read_pa off)" "off + 4 \<le> n \<Longrightarrow> safe n (read_enc off)"
  "off + 4 \<le> n \<Longrightarrow> safe n (read_float ce off)"
  unfolding read_pa_def read_enc_def read_float_def by (intro safe_intros; simp)+

text \<open>
  The three requests for a text: how long an array they copy into, and by what the reported length is
  multiplied.
\<close>

definition text_request :: "'w comm_env \<Rightarrow> byte \<Rightarrow> (nat \<times> byte \<times> ('w, UHF_configStruct) getter) option" where
  "text_request E b =
     (if comm_subtype b = Some (Uhf UHF_GET_MORSE) then Some (36, 1, HAL_UHF_getMorse (cm_u E))
      else if comm_subtype b = Some (Uhf UHF_GET_MIDI) then Some (60, 3, HAL_UHF_getMIDI (cm_u E))
      else if comm_subtype b = Some (Uhf UHF_GET_BEACON_MSG) then Some (60, 1, HAL_UHF_getBeaconMsg (cm_u E))
      else None)"

definition comm_fault :: "'w comm_env \<Rightarrow> 'w hst \<Rightarrow> fault option" where
  "comm_fault E s = (case text_request E (data s ! 0) of
     None \<Rightarrow> None
   | Some (n, k, g) \<Rightarrow>
       (if n < unat (cs_len (snd (fst (g (world s)))) * k) then Some OutOfBounds else None))"

definition radio_text :: "csp_packet \<Rightarrow> bool" where
  "radio_text p \<longleftrightarrow> comm_subtype (pkt_data p ! 0) \<in>
     {Some (Uhf UHF_GET_MORSE), Some (Uhf UHF_GET_MIDI), Some (Uhf UHF_GET_BEACON_MSG)}"

definition radio_faults :: "csp_packet \<Rightarrow> fault set" where
  "radio_faults p = (if radio_text p then {OutOfBounds} else {})"

lemma comm_fault_kinds: "comm_fault E s = Some f \<Longrightarrow> f \<in> radio_faults (packet s)"
  by (auto simp: comm_fault_def text_request_def radio_faults_def radio_text_def split: if_splits)

lemma get_text_faults:
  assumes "m < unat (cs_len (snd (fst (g (world s)))) * k)"
  shows "get_text E m k g s = Inl OutOfBounds"
proof -
  have "copy_out (cs_message (snd (fst (g (world s))))) (unat (cs_len (snd (fst (g (world s)))) * k)) 0 (replicate m 0)
      (s\<lparr>world := snd (g (world s))\<rparr>) = Inl OutOfBounds"
    using assms by (intro copy_out_overruns) simp_all
  then show ?thesis by (simp add: get_text_def prog_simps case_prod_beta)
qed

lemma get_text_run:
  assumes "unat (cs_len (snd (fst (g (world s)))) * k) \<le> m" and "m \<le> length (cs_message (snd (fst (g (world s)))))"
    and "m + 2 \<le> length (data s)"
  shows "\<exists>a s'. get_text E m k g s = Inr (a, s') \<and> length (data s') = length (data s) \<and> data s' ! 0 = data s ! 0"
proof -
  let ?c = "snd (fst (g (world s)))" and ?s = "s\<lparr>world := snd (g (world s))\<rparr>"
  have "safe (m + 2) (bnd (copy_out (cs_message ?c) (unat (cs_len ?c * k)) 0 (replicate m 0))
      (\<lambda>bs. get_reply E m (fst (fst (g (world s)))) bs))"
    using assms(1,2) by (intro safe_copy_out safe_intros) auto
  from safeD [OF this, of ?s] assms(3) show ?thesis
    by (simp add: get_text_def prog_simps case_prod_beta)
qed

lemma safe_hal_reply:
  "(\<And>w. length (r (snd (fst (g w)))) + 2 \<le> n) \<Longrightarrow> safe n (bnd (hal g) (\<lambda>(st, x). get_reply E (c x) st (r x)))"
  by (intro safe_bnd_hal) (simp add: case_prod_beta safe_get_reply)

lemmas safe_steps = safe_bnd_hal safe_add_get safe_arr_get safe_arr_set

lemma safe_get_config: "comm_env_ok E \<Longrightarrow> safe 202 (get_config E)"
  unfolding get_config_def case_prod_beta Let_def
  by (intro safe_steps safe_get_reply) (simp add: comm_env_ok_def case_prod_beta)

lemma safe_get_full_status: "comm_env_ok E \<Longrightarrow> safe 202 (get_full_status E)"
  unfolding get_full_status_def case_prod_beta Let_def
  by (intro safe_steps safe_get_reply) (auto simp add: comm_env_ok_def case_prod_beta)

lemma safe_get_full_stat: "comm_env_ok E \<Longrightarrow> safe 202 (get_full_stat E)"
  unfolding get_full_stat_def case_prod_beta Let_def
  by (intro safe_steps safe_get_reply) (simp add: comm_env_ok_def case_prod_beta)

lemma safe_get_buffer_pointer:
  assumes ok: "comm_env_ok E"
  shows "safe 202 (get_buffer_pointer E)"
proof -
  have "safe 202 (bnd (hal (HAL_S_getBuffer (cm_s E) (unat SID) (junk_buffer E))) (\<lambda>r.
      bnd (arr_get (snd r) (unat SID)) (\<lambda>p.
      get_reply E (buffer_sizeof E) (fst r) (to_bytes (host (cm_ce E)) 2 (csp_hton16 (cm_ce E) p)))))"
    if "\<not> 2 < unat SID" for SID :: byte
    using ok that by (intro safe_bnd_hal safe_arr_get safe_intros) (simp_all add: comm_env_ok_def)
  then show ?thesis
    unfolding get_buffer_pointer_def case_prod_beta
    by (intro safe_bnd [OF safe_pkt_byte] safe_if safe_ret) (simp_all add: const_simps)
qed

lemma safe_set_config: "safe 202 (set_config E)"
  unfolding set_config_def by (intro safe_intros) (simp_all add: const_simps)

lemma safe_sband_request:
  assumes ok: "comm_env_ok E"
  shows "safe 202 (sband_request E c)"
proof -
  note q = ok [unfolded comm_env_ok_def]
  have get: "safe 202 (sband_request E c)"
    if "c \<in> {S_GET_FREQ, S_GET_CONTROL, S_GET_ENCODER, S_GET_PA_POWER, S_GET_STATUS, S_GET_FW, S_GET_TR, S_GET_HK}"
    using that q by (auto simp: sband_request_def Let_def intro!: safe_hal_reply)
  have set: "safe 202 (sband_request E c)" if "c \<in> {S_SET_FREQ, S_SET_PA_POWER, S_SET_CONTROL, S_SET_ENCODER}"
    using that by (auto simp: sband_request_def sband_setters Let_def const_simps intro!: safe_intros)
  show ?thesis
    by (cases c) (use get set in \<open>simp_all add: sband_request_def safe_get_config [OF ok] safe_get_full_status [OF ok]
      safe_get_buffer_pointer [OF ok] safe_set_config safe_ret safe_set_reply\<close>)
qed

lemma safe_set_scw_entry: "comm_env_ok E \<Longrightarrow> i < 7 \<Longrightarrow> safe 202 (set_scw_entry E i)"
  unfolding set_scw_entry_def case_prod_beta
  by (intro safe_bnd_hal safe_if safe_arr_set safe_intros) (auto simp: comm_env_ok_def intro: less_le_trans)

lemma safe_texts:
  assumes ok: "comm_env_ok E"
  shows "safe 202 (set_callsign E f)" "k \<le> 60 \<Longrightarrow> safe 202 (set_text E tr k f)" "safe 202 (set_midi E)"
proof -
  have m: "60 \<le> length (junk_message E)" using ok by (simp add: comm_env_ok_def)
  show "safe 202 (set_callsign E f)"
    unfolding set_callsign_def case_prod_beta
    by (intro safe_bnd [OF safe_copy_text] safe_intros) (use m in \<open>simp_all add: const_simps\<close>)
  show "safe 202 (set_text E tr k f)" if "k \<le> 60"
    unfolding set_text_def case_prod_beta
    by (intro safe_bnd [OF safe_copy_text] safe_intros) (use m that in \<open>simp_all add: const_simps\<close>)
  have t: "safe 202 (copy_text (\<lambda>b. b) (IN_DATA_BYTE + 1) BEACON_MSG_LEN_MAX 0 (junk_message E))"
    by (rule safe_copy_text) (use m in \<open>simp_all add: const_simps\<close>)
  show "safe 202 (set_midi E)"
    unfolding set_midi_def case_prod_beta Let_def
    by (intro safe_bnd [OF safe_pkt_byte] safe_bnd [OF t] safe_if safe_andthen safe_reply_status safe_ret safe_set_reply)
      (simp_all add: const_simps)
qed

lemma safe_get_call_sign: "comm_env_ok E \<Longrightarrow> safe 202 (get_call_sign E)"
  unfolding get_call_sign_def case_prod_beta
  by (intro safe_bnd_hal safe_add_get safe_copy_out safe_get_reply) (simp_all add: comm_env_ok_def const_simps)

lemma safe_get_fram:
  assumes ok: "comm_env_ok E"
  shows "safe 202 (get_fram E)"
proof -
  have "safe 202 (bnd (hal (HAL_UHF_getFRAM (cm_u E) f)) (\<lambda>r.
      bnd (copy_out (fram_data (snd r)) FRAM_SIZE 0 (replicate FRAM_SIZE 0)) (\<lambda>bs. get_reply E FRAM_SIZE (fst r) bs)))" for f
    using ok by (intro safe_bnd_hal safe_copy_out safe_get_reply) (simp_all add: comm_env_ok_def const_simps)
  then show ?thesis
    unfolding get_fram_def case_prod_beta by (intro safe_bnd [OF safe_pkt_read]) (simp_all add: const_simps)
qed

lemma safe_uhf_request:
  assumes ok: "comm_env_ok E"
    and c: "c \<notin> {UHF_GET_MORSE, UHF_GET_MIDI, UHF_GET_BEACON_MSG}"
  shows "safe 202 (uhf_request E c)"
proof -
  note q = ok [unfolded comm_env_ok_def Let_def]
  have key: "safe 202 (uhf_request E UHF_GET_SECURE_KEY)"
    by (auto simp: uhf_request_def get_secure_key_def Let_def intro!: safe_hal_reply)
  have set: "safe 202 (uhf_request E c)"
    if "c \<in> {UHF_SET_SCW, UHF_SET_FREQ, UHF_SET_PIPE_TIMEOUT, UHF_SET_BEACON_T, UHF_SET_AUDIO_T, UHF_SET_PARAMS,
      UHF_RESTORE_DEFAULT, UHF_LOW_PWR, UHF_SECURE, UHF_SET_I2C, UHF_WRITE_FRAM}"
    using that q by (auto simp: uhf_request_def uhf_secure_def Let_def set_params_def set_i2c_def write_fram_def const_simps intro!: safe_intros)
  show ?thesis
    by (cases c) (use key set c in \<open>simp_all add: uhf_request_def safe_set_scw_entry [OF ok] safe_texts [OF ok]
      safe_get_call_sign [OF ok] safe_get_fram [OF ok] safe_get_full_stat [OF ok] const_simps\<close>)
qed

lemma comm_app_text:
  assumes "data s \<noteq> []" and "text_request E (data s ! 0) = Some (n, k, g)"
  shows "communication_service_app E s = get_text E n k g s"
  using assms
  by (auto simp: text_request_def communication_service_app_def uhf_request_def prog_simps const_simps split: if_splits)

lemma comm_app_safe_but:
  assumes ok: "comm_env_ok E"
  shows "safe_but 202 (comm_fault E) (communication_service_app E)"
proof (rule safe_butI)
  fix s :: "'a hst" and f
  assume len: "202 \<le> length (data s)" and "comm_fault E s = Some f"
  then obtain n k g where t: "text_request E (data s ! 0) = Some (n, k, g)"
    and "n < unat (cs_len (snd (fst (g (world s)))) * k)" "f = OutOfBounds"
    by (auto simp: comm_fault_def split: option.splits if_splits)
  moreover have "data s \<noteq> []" using len by auto
  ultimately show "communication_service_app E s = Inl f"
    by (simp add: comm_app_text get_text_faults)
next
  fix s :: "'a hst"
  assume len: "202 \<le> length (data s)" and fine: "comm_fault E s = None"
  have ne: "data s \<noteq> []" using len by auto
  show "\<exists>a s'. communication_service_app E s = Inr (a, s') \<and> length (data s') = length (data s) \<and> data s' ! 0 = data s ! 0"
  proof (cases "text_request E (data s ! 0)")
    case (Some r)
    obtain n k g where r: "r = (n, k, g)" by (metis prod.collapse)
    have "unat (cs_len (snd (fst (g (world s)))) * k) \<le> n" using fine Some r
      by (auto simp: comm_fault_def split: if_splits)
    moreover have "n \<le> length (cs_message (snd (fst (g (world s)))))" "n \<le> 60"
      using Some r ok by (auto simp: text_request_def comm_env_ok_def split: if_splits)
    ultimately show ?thesis
      unfolding comm_app_text [OF ne Some [unfolded r]] using len by (intro get_text_run) simp_all
  next
    case None
    then have c: "c \<notin> {UHF_GET_MORSE, UHF_GET_MIDI, UHF_GET_BEACON_MSG}" if "comm_subtype (data s ! 0) = Some (Uhf c)" for c
      using that by (auto simp: text_request_def)
    have "communication_service_app E s = (case comm_subtype (data s ! 0) of
        None \<Rightarrow> ret SATR_PKT_ILLEGAL_SUBSERVICE | Some (Sband c) \<Rightarrow> sband_request E c | Some (Uhf c) \<Rightarrow> uhf_request E c) s"
      using ne by (simp add: communication_service_app_def prog_simps const_simps)
    moreover have "safe 202 (case comm_subtype (data s ! 0) of
        None \<Rightarrow> ret SATR_PKT_ILLEGAL_SUBSERVICE | Some (Sband c) \<Rightarrow> sband_request E c | Some (Uhf c) \<Rightarrow> uhf_request E c)"
      using c by (auto split: option.split comm_request.split intro: safe_ret safe_sband_request [OF ok] safe_uhf_request [OF ok])
    ultimately show ?thesis using safeD len by metis
  qed
qed

interpretation communication:
  packet_app_but communication_service_app comm_env_ok "\<lambda>_. 202" comm_fault radio_faults
  by unfold_locales (rule comm_app_safe_but, assumption, rule comm_fault_kinds)

subsection \<open>What the requests do\<close>

lemma comm_subtype_uhf:
  "comm_subtype 21 = Some (Uhf UHF_SET_FREQ)" "comm_subtype 22 = Some (Uhf UHF_SET_PIPE_TIMEOUT)"
  "comm_subtype 23 = Some (Uhf UHF_SET_BEACON_T)" "comm_subtype 24 = Some (Uhf UHF_SET_AUDIO_T)"
  "comm_subtype 25 = Some (Uhf UHF_SET_PARAMS)" "comm_subtype 30 = Some (Uhf UHF_SET_MORSE)"
  "comm_subtype 31 = Some (Uhf UHF_SET_MIDI)" "comm_subtype 33 = Some (Uhf UHF_SET_I2C)"
  "comm_subtype 38 = Some (Uhf UHF_GET_MORSE)" "comm_subtype 42 = Some (Uhf UHF_SET_ECHO)"
  "comm_subtype 43 = Some (Uhf UHF_SET_BCN)" "comm_subtype 44 = Some (Uhf UHF_SET_PIPE)"
  by (simp_all add: comm_subtype_def sband_subtypes_def uhf_subtypes_def nth_Cons_numeral)

lemma comm_app_uhf:
  "data s \<noteq> [] \<Longrightarrow> comm_subtype (data s ! 0) = Some (Uhf c) \<Longrightarrow> communication_service_app E s = uhf_request E c s"
  by (simp add: communication_service_app_def prog_simps const_simps)

lemma ntoh32_byte:
  assumes "csp_endian_ok ce" and "host ce = SYS_LITTLE_ENDIAN"
  shows "(ucast (csp_ntoh32 ce (ucast (b :: byte))) :: byte) = 0"
proof -
  have n: "net_order SYS_LITTLE_ENDIAN 4 (csp_hton32 ce) (csp_ntoh32 ce)" using assms by (simp add: csp_endian_ok_def)
  have "to_bytes SYS_LITTLE_ENDIAN 4 (ucast b :: u32) = [b, 0, 0, 0]"
    by (simp add: to_bytes_def eval_nat_numeral) (intro conjI bit_word_eqI; auto simp: bit_simps dest: bit_imp_le_length)
  then have "csp_ntoh32 ce (ucast b) = of_bytes SYS_BIG_ENDIAN [b, 0, 0, 0]"
    using net_order.ntoh_of_bytes [OF n, of "ucast b"] by simp
  also have "(ucast \<dots> :: byte) = 0"
    by (rule bit_word_eqI) (auto simp: of_bytes_def bit_simps)
  finally show ?thesis .
qed

text \<open>C28: On a little-endian host UHF_SET_I2C sets the address to zero whatever address was requested: the
  byte is converted as the low byte of a 32-bit number and cut off again.\<close>

theorem uhf_set_i2c_zero:
  assumes ce: "csp_endian_ok (cm_ce E)" "host (cm_ce E) = SYS_LITTLE_ENDIAN"
    and p: "data s ! 0 = 33" "2 \<le> length (data s)"
    and h: "HAL_UHF_setI2C (cm_u E) 0 (world s) = (st, w)"
  shows "communication_service_app E s = Inr (SATR_OK, s\<lparr>world := w, packet := status_packet st (packet s)\<rparr>)"
proof -
  have "data s \<noteq> []" "Suc 0 < length (data s)" using p(2) by auto
  then show ?thesis
    using p h by (simp add: comm_app_uhf comm_subtype_uhf uhf_request_def set_i2c_def prog_simps const_simps Let_def
        ntoh32_byte [OF ce])
qed

text \<open>UHF_SET_ECHO, UHF_SET_BCN and UHF_SET_PIPE read the status control word, set its entry 4, 5 or 6
  to one and write it back.\<close>

theorem uhf_scw_entry:
  assumes p: "data s ! 0 \<in> {42, 43, 44}" "2 \<le> length (data s)" and i: "i = unat (data s ! 0) - 38"
    and g: "HAL_UHF_getSCW (cm_u E) (world s) = ((U_GOOD_CONFIG E, scw), w)" "7 \<le> length scw"
    and h: "HAL_UHF_setSCW (cm_u E) (scw[i := 1]) w = (st, w')"
  shows "communication_service_app E s = Inr (SATR_OK, s\<lparr>world := w', packet := status_packet st (packet s)\<rparr>)"
proof -
  have "data s \<noteq> []" using p(2) by auto
  then show ?thesis
    using p i g h by (auto simp: comm_app_uhf comm_subtype_uhf uhf_request_def set_scw_entry_def prog_simps Let_def)
qed

theorem uhf_set_morse:
  assumes p: "data s ! 0 = 30" "37 \<le> length (data s)" and j: "36 \<le> length (junk_message E)"
    and t: "chars = text_at 1 36 (data s)"
    and h: "HAL_UHF_setMorse (cm_u E) \<lparr>cs_len = of_nat (length chars),
      cs_message = overlay 0 (map morse_char chars) (junk_message E)\<rparr> (world s) = (st, w)"
  shows "communication_service_app E s = Inr (SATR_OK, s\<lparr>world := w, packet := status_packet st (packet s)\<rparr>)"
proof -
  have "data s \<noteq> []" using p(2) by auto
  then show ?thesis
    using p j t h by (simp add: comm_app_uhf comm_subtype_uhf uhf_request_def set_text_def prog_simps const_simps Let_def
        copy_text_run)
qed

text \<open>UHF_SET_MIDI hands the radio the notes of a request that starts with M and holds a multiple of
  three bytes; any other request is answered with the status for a bad parameter and no call of
  the driver.\<close>

theorem uhf_set_midi:
  assumes p: "data s ! 0 = 31" "62 \<le> length (data s)" and j: "60 \<le> length (junk_message E)"
    and t: "chars = text_at 2 60 (data s)"
    and h: "HAL_UHF_setMIDI (cm_u E) \<lparr>cs_len = of_nat (length chars div 3),
      cs_message = overlay 0 chars (junk_message E)\<rparr> (world s) = (st, w)"
  shows "communication_service_app E s = Inr (SATR_OK,
    if data s ! 1 = 77 \<and> length chars mod 3 = 0 then s\<lparr>world := w, packet := status_packet st (packet s)\<rparr>
    else s\<lparr>packet := status_packet (U_BAD_PARAM E) (packet s)\<rparr>)"
proof -
  have "data s \<noteq> []" "Suc 0 < length (data s)" using p(2) by auto
  then show ?thesis
    using p j t h by (simp add: comm_app_uhf comm_subtype_uhf uhf_request_def set_midi_def prog_simps const_simps Let_def
        copy_text_run flip: numeral_2_eq_2)
qed

text \<open>C29: UHF_GET_MORSE writes past its array of 36 bytes when the radio reports a longer text.\<close>

theorem uhf_get_morse_overruns:
  assumes p: "data s ! 0 = 38" "data s \<noteq> []" and g: "HAL_UHF_getMorse (cm_u E) (world s) = ((st, c), w)"
    and long: "36 < unat (cs_len c)"
  shows "communication_service_app E s = Inl OutOfBounds"
proof -
  have "copy_out (cs_message c) (unat (cs_len c)) 0 (replicate 36 0) (s\<lparr>world := w\<rparr>) = Inl OutOfBounds"
    using long by (intro copy_out_overruns) simp_all
  then show ?thesis
    using p g by (simp add: comm_app_uhf comm_subtype_uhf uhf_request_def get_text_def prog_simps const_simps Let_def)
qed

end
