(* ===== verification/Comm_Properties.thy ===== *)
theory Comm_Properties
  imports Communication Service_Properties
begin

text \<open>
  A property of the communication service that relates several of its requests, a radio that
  remembers what it was told, and the instances of the properties on it.
\<close>

subsection \<open>One request for four parameters\<close>

definition request :: "byte \<Rightarrow> bytes \<Rightarrow> 'w \<Rightarrow> 'w hst" where
  "request c bs w = \<lparr>packet = packet_of (c # bs), world = w\<rparr>"

lemma request_sel: "data (request c bs w) = c # bs" "world (request c bs w) = w"
  by (simp_all add: request_def packet_of_def)

lemma request_packet: "packet (request c bs w) = packet_of (c # bs)" "pkt_data (packet_of bs) = bs"
  by (simp_all add: request_def packet_of_def)

lemma status_byte: "2 \<le> length (pkt_data p) \<Longrightarrow> pkt_data (status_packet st p) ! Suc 0 = st"
  by (simp add: status_packet_def nth_overlay_inside)

lemma set_u32_run:
  assumes "length bs = 4"
    and "(c, f) \<in> {(21, HAL_UHF_setFreq (cm_u E)), (22, HAL_UHF_setPipeT (cm_u E)),
      (23, HAL_UHF_setBeaconT (cm_u E)), (24, HAL_UHF_setAudioT (cm_u E))}"
  shows "\<exists>t. communication_service_app E (request c bs w) = Inr (SATR_OK, t) \<and>
    (data t ! 1, world t) = f (csp_ntoh32 (cm_ce E) (cnv8_32 (host (cm_ce E)) bs)) w"
proof -
  have "2 \<le> length (data (request c bs w))" using assms(1) by (simp add: request_sel)
  then show ?thesis
    using assms by (auto simp: comm_app_uhf comm_subtype_uhf uhf_request_def prog_simps const_simps Let_def request_sel
        status_byte)
qed

lemma set_params_run:
  assumes "length bf = 4" "length bp = 4" "length bb = 4" "length ba = 4"
    and dec_def: "dec = (\<lambda>bs. csp_ntoh32 (cm_ce E) (cnv8_32 (host (cm_ce E)) bs))"
  shows "\<exists>t. communication_service_app E (request 25 (bf @ bp @ bb @ ba) w) = Inr (SATR_OK, t) \<and>
    (data t ! 1, world t) = sum_status (sum_status (sum_status (HAL_UHF_setFreq (cm_u E) (dec bf))
      (HAL_UHF_setPipeT (cm_u E) (dec bp))) (HAL_UHF_setBeaconT (cm_u E) (dec bb))) (HAL_UHF_setAudioT (cm_u E) (dec ba)) w"
proof -
  have "2 \<le> length (data (request 25 (bf @ bp @ bb @ ba) w))" using assms(1) by (simp add: request_sel)
  then show ?thesis
    using assms(1-4) by (simp add: comm_app_uhf comm_subtype_uhf uhf_request_def set_params_def prog_simps const_simps Let_def
        request_sel status_byte dec_def)
qed

text \<open>C27: One UHF_SET_PARAMS request does what the four requests for the frequency and the three times do
  one after the other, and replies the sum of their four statuses.\<close>

theorem uhf_params_as_four:
  assumes len: "length bf = 4" "length bp = 4" "length bb = 4" "length ba = 4"
  shows "\<exists>s1 s2 s3 s4 t. communication_service_app E (request 21 bf w) = Inr (SATR_OK, s1) \<and>
    communication_service_app E (request 22 bp (world s1)) = Inr (SATR_OK, s2) \<and>
    communication_service_app E (request 23 bb (world s2)) = Inr (SATR_OK, s3) \<and>
    communication_service_app E (request 24 ba (world s3)) = Inr (SATR_OK, s4) \<and>
    communication_service_app E (request 25 (bf @ bp @ bb @ ba) w) = Inr (SATR_OK, t) \<and>
    world t = world s4 \<and> data t ! 1 = data s1 ! 1 + data s2 ! 1 + data s3 ! 1 + data s4 ! 1"
proof -
  let ?dec = "\<lambda>bs. csp_ntoh32 (cm_ce E) (cnv8_32 (host (cm_ce E)) bs)"
  obtain s1 where 1: "communication_service_app E (request 21 bf w) = Inr (SATR_OK, s1)"
    "HAL_UHF_setFreq (cm_u E) (?dec bf) w = (data s1 ! 1, world s1)"
    using set_u32_run [OF len(1), of 21 _ E w] by fastforce
  obtain s2 where 2: "communication_service_app E (request 22 bp (world s1)) = Inr (SATR_OK, s2)"
    "HAL_UHF_setPipeT (cm_u E) (?dec bp) (world s1) = (data s2 ! 1, world s2)"
    using set_u32_run [OF len(2), of 22 _ E "world s1"] by fastforce
  obtain s3 where 3: "communication_service_app E (request 23 bb (world s2)) = Inr (SATR_OK, s3)"
    "HAL_UHF_setBeaconT (cm_u E) (?dec bb) (world s2) = (data s3 ! 1, world s3)"
    using set_u32_run [OF len(3), of 23 _ E "world s2"] by fastforce
  obtain s4 where 4: "communication_service_app E (request 24 ba (world s3)) = Inr (SATR_OK, s4)"
    "HAL_UHF_setAudioT (cm_u E) (?dec ba) (world s3) = (data s4 ! 1, world s4)"
    using set_u32_run [OF len(4), of 24 _ E "world s3"] by fastforce
  obtain t where 5: "communication_service_app E (request 25 (bf @ bp @ bb @ ba) w) = Inr (SATR_OK, t)"
    "(data t ! 1, world t) = (data s1 ! 1 + data s2 ! 1 + data s3 ! 1 + data s4 ! 1, world s4)"
    using set_params_run [OF len refl, of E w] by (auto simp: sum_status_def 1(2) 2(2) 3(2) 4(2))
  show ?thesis using 1(1) 2(1) 3(1) 4(1) 5 by blast
qed

subsection \<open>A radio\<close>

text \<open>Its world is the list of what it was told.\<close>

definition tell :: "'a \<Rightarrow> 'a list \<Rightarrow> i8 \<times> 'a list" where
  "tell x w = (0, w @ [x])"

definition board_sband :: "bytes list sband_ops" where
  "board_sband = \<lparr>HAL_S_getFreq = (\<lambda>w. ((0, 2200), w)), HAL_S_getControl = (\<lambda>w. ((0, \<lparr>pa_status = 1, pa_mode = 2\<rparr>), w)),
     HAL_S_getEncoder = (\<lambda>w. ((0, \<lparr>enc_scrambler = 1, enc_filter = 2, enc_modulation = 3, enc_rate = 4\<rparr>), w)),
     HAL_S_getPAPower = (\<lambda>w. ((0, 24), w)), HAL_S_getStatus = (\<lambda>w. ((0, [1]), w)),
     HAL_S_getFirmwareV = (\<lambda>w. ((0, \<lparr>fw_firmware = 7, fw_others = []\<rparr>), w)), HAL_S_getTR = (\<lambda>w. ((0, [0]), w)),
     S_getHK = (\<lambda>w. ((0, \<lparr>Output_Power = 1, PA_Temp = 2, Top_Temp = 3, Bottom_Temp = 4, Bat_Current = 5, Bat_Voltage = 6,
       PA_Current = 7, PA_Voltage = 8, shk_others = []\<rparr>), w)),
     HAL_S_getBuffer = (\<lambda>i b w. ((0, b), w)), HAL_S_softResetFPGA = tell [10], HAL_S_setFreq = (\<lambda>f. tell (to_bytes SYS_BIG_ENDIAN 4 f)),
     HAL_S_setPAPower = (\<lambda>p. tell [p]), HAL_S_setControl = (\<lambda>p. tell [pa_status p, pa_mode p]),
     HAL_S_setEncoder = (\<lambda>e. tell [enc_scrambler e, enc_filter e, enc_modulation e, enc_rate e])\<rparr>"

definition board_uhf :: "byte \<Rightarrow> bytes list uhf_ops" where
  "board_uhf n = (let c = (\<lambda>w. ((0, \<lparr>cs_len = n, cs_message = replicate 60 65\<rparr>), w)); u = (\<lambda>w. ((0, 5), w));
       set = (\<lambda>x. tell (to_bytes SYS_BIG_ENDIAN 4 x)); text = (\<lambda>c. tell (cs_len c # cs_message c)) in
     \<lparr>HAL_UHF_setSCW = tell, HAL_UHF_getSCW = (\<lambda>w. ((0, replicate 12 0), w)), HAL_UHF_setFreq = set, HAL_UHF_setPipeT = set,
      HAL_UHF_setBeaconT = set, HAL_UHF_setAudioT = set, HAL_UHF_restore = (\<lambda>b. tell [b]), HAL_UHF_lowPwr = (\<lambda>b. tell [b]),
      HAL_UHF_setDestination = text, HAL_UHF_setSource = text, HAL_UHF_setMorse = text, HAL_UHF_setMIDI = text,
      HAL_UHF_setBeaconMsg = text, HAL_UHF_setI2C = (\<lambda>b. tell [b]), HAL_UHF_setFRAM = (\<lambda>f. tell (fram_data f)),
      HAL_UHF_secure = (\<lambda>b. tell [b]), HAL_UHF_getFreq = u, HAL_UHF_getUptime = u, HAL_UHF_getPcktsOut = u,
      HAL_UHF_getPcktsIn = u, HAL_UHF_getPcktsInCRC16 = u, HAL_UHF_getPipeT = u, HAL_UHF_getBeaconT = u, HAL_UHF_getAudioT = u,
      HAL_UHF_getTemp = u, HAL_UHF_getDestination = c, HAL_UHF_getSource = c, HAL_UHF_getMorse = c, HAL_UHF_getMIDI = c,
      HAL_UHF_getBeaconMsg = c, HAL_UHF_getFRAM = (\<lambda>f w. ((0, f\<lparr>fram_data := replicate 16 9\<rparr>), w)), HAL_UHF_getSecureKey = u\<rparr>)"

definition board_comm :: "byte \<Rightarrow> bytes list comm_env" where
  "board_comm n = \<lparr>cm_s = board_sband, cm_u = board_uhf n, cm_ce = le_host, csp_buffer_data_size = 256, SCW_LEN = 12,
     U_GOOD_CONFIG = 0, U_BAD_PARAM = -2, pa_repr = (\<lambda>p. [pa_status p, pa_mode p]), enc_repr = (\<lambda>e. [enc_rate e]),
     cfg_repr = (\<lambda>c. to_bytes SYS_LITTLE_ENDIAN 4 (cfg_freq c)), fw_repr = (\<lambda>f. to_bytes SYS_LITTLE_ENDIAN 2 (fw_firmware f)),
     shk_repr = (\<lambda>h. to_bytes SYS_LITTLE_ENDIAN 4 (Output_Power h)), full_repr = (\<lambda>f. []),
     buffer_sizeof = 6, stat_repr = (\<lambda>s. to_bytes SYS_LITTLE_ENDIAN 4 (us_freq s)),
     junk_buffer = [1, 2, 3], junk_message = replicate 60 35, junk_fram = replicate 16 0\<rparr>"

lemma board_comm_ok: "comm_env_ok (board_comm n)"
  by (simp add: comm_env_ok_def board_comm_def board_sband_def board_uhf_def Let_def)

lemma board_comm_sel: "cm_ce (board_comm n) = le_host" "cm_u (board_comm n) = board_uhf n" "host le_host = SYS_LITTLE_ENDIAN"
  "junk_message (board_comm n) = replicate 60 35" "U_GOOD_CONFIG (board_comm n) = 0" "U_BAD_PARAM (board_comm n) = -2"
  by (simp_all add: board_comm_def le_host_def)

subsection \<open>Instances\<close>

theorem uhf_params_as_four_instance:
  "\<exists>s1 s2 s3 s4 t. communication_service_app (board_comm 3) (request 21 [0, 6, 0, 0] []) = Inr (SATR_OK, s1) \<and>
    communication_service_app (board_comm 3) (request 22 [0, 0, 0, 10] (world s1)) = Inr (SATR_OK, s2) \<and>
    communication_service_app (board_comm 3) (request 23 [0, 0, 0, 60] (world s2)) = Inr (SATR_OK, s3) \<and>
    communication_service_app (board_comm 3) (request 24 [0, 0, 0, 0] (world s3)) = Inr (SATR_OK, s4) \<and>
    communication_service_app (board_comm 3) (request 25 ([0, 6, 0, 0] @ [0, 0, 0, 10] @ [0, 0, 0, 60] @ [0, 0, 0, 0]) []) =
      Inr (SATR_OK, t) \<and>
    world t = world s4 \<and> data t ! 1 = data s1 ! 1 + data s2 ! 1 + data s3 ! 1 + data s4 ! 1"
  by (rule uhf_params_as_four) simp_all

theorem uhf_set_i2c_zero_instance:
  "communication_service_app (board_comm 3) (request 33 [22] []) =
    Inr (SATR_OK, (request 33 [22] [])\<lparr>world := [[0]], packet := status_packet 0 (packet_of [33, 22])\<rparr>)"
  using uhf_set_i2c_zero [of "board_comm 3" "request 33 [22] []" 0 "[[0]]"]
  by (simp add: board_comm_sel le_host_ok request_sel request_packet board_uhf_def tell_def Let_def)

theorem uhf_scw_entry_instance:
  "communication_service_app (board_comm 3) (request 43 [0] []) =
    Inr (SATR_OK, (request 43 [0] [])\<lparr>world := [(replicate 12 0)[5 := 1]], packet := status_packet 0 (packet_of [43, 0])\<rparr>)"
  using uhf_scw_entry [of "request 43 [0] []" 5 "board_comm 3" "replicate 12 0" "[]" 0 "[(replicate 12 0)[5 := 1]]"]
  by (simp add: board_comm_sel request_sel request_packet board_uhf_def tell_def Let_def)

theorem uhf_set_morse_instance:
  "communication_service_app (board_comm 3) (request 30 ([79, 124, 75] @ replicate 40 0) []) =
    Inr (SATR_OK, (request 30 ([79, 124, 75] @ replicate 40 0) [])\<lparr>world := [3 # [79, 32, 75] @ replicate 57 35],
      packet := status_packet 0 (packet_of ([30, 79, 124, 75] @ replicate 40 0))\<rparr>)"
  using uhf_set_morse [of "request 30 ([79, 124, 75] @ replicate 40 0) []" "board_comm 3" "[79, 124, 75]" 0
      "[3 # [79, 32, 75] @ replicate 57 35]"]
  by (simp add: board_comm_sel request_sel request_packet board_uhf_def tell_def text_at_def morse_char_def overlay_def Let_def)

theorem uhf_set_midi_instance:
  "communication_service_app (board_comm 3) (request 31 ([77, 60, 61, 62, 63] @ replicate 60 0) []) =
    Inr (SATR_OK, (request 31 ([77, 60, 61, 62, 63] @ replicate 60 0) [])\<lparr>
      packet := status_packet (-2) (packet_of ([31, 77, 60, 61, 62, 63] @ replicate 60 0))\<rparr>)"
  using uhf_set_midi [of "request 31 ([77, 60, 61, 62, 63] @ replicate 60 0) []" "board_comm 3" "[60, 61, 62, 63]" 0
      "[1 # [60, 61, 62, 63] @ replicate 56 35]"]
  by (simp add: board_comm_sel request_sel request_packet board_uhf_def tell_def text_at_def overlay_def Let_def)

theorem uhf_get_morse_overruns_instance:
  "communication_service_app (board_comm 40) (request 38 [0] []) = Inl OutOfBounds"
  using uhf_get_morse_overruns [of "request 38 [0] []" "board_comm 40" 0 "\<lparr>cs_len = 40, cs_message = replicate 60 65\<rparr>" "[]"]
  by (simp add: board_comm_sel request_sel request_packet board_uhf_def Let_def)

end
