(* ===== verification/Adcs.thy ===== *)
theory Adcs
  imports Utilities Service_Loop
begin

text \<open>
  \<^verbatim>\<open>Services/source/adcs/adcs_service.c\<close>: the requests to the attitude determination and control
  system. The drivers (\<^verbatim>\<open>adcs.h\<close>) are parameters, one per kind of result; which function is called,
  and with what, is a datatype with one constructor per driver function. A structure that the code
  only passes on is its bytes. A structure whose members the code converts is a map from the names
  of its members to their values, each with its C type, and its object representation is
  a parameter, as are the sizes of structures.

  The switch is a table of subservices and their cases, in the order of the code.
\<close>

subsection \<open>Subservices\<close>

definition ADCS_RESET :: byte where [const_simps]: "ADCS_RESET = 0"
definition ADCS_RESET_LOG_POINTER :: byte where [const_simps]: "ADCS_RESET_LOG_POINTER = 1"
definition ADCS_ADVANCE_LOG_POINTER :: byte where [const_simps]: "ADCS_ADVANCE_LOG_POINTER = 2"
definition ADCS_RESET_BOOT_REGISTERS :: byte where [const_simps]: "ADCS_RESET_BOOT_REGISTERS = 3"
definition ADCS_FORMAT_SD_CARD :: byte where [const_simps]: "ADCS_FORMAT_SD_CARD = 4"
definition ADCS_ERASE_FILE :: byte where [const_simps]: "ADCS_ERASE_FILE = 5"
definition ADCS_LOAD_FILE_DOWNLOAD_BLOCK :: byte where [const_simps]: "ADCS_LOAD_FILE_DOWNLOAD_BLOCK = 6"
definition ADCS_ADVANCE_FILE_LIST_READ_POINTER :: byte where [const_simps]: "ADCS_ADVANCE_FILE_LIST_READ_POINTER = 7"
definition ADCS_INITIATE_FILE_UPLOAD :: byte where [const_simps]: "ADCS_INITIATE_FILE_UPLOAD = 8"
definition ADCS_FILE_UPLOAD_PACKET :: byte where [const_simps]: "ADCS_FILE_UPLOAD_PACKET = 9"
definition ADCS_FINALIZE_UPLOAD_BLOCK :: byte where [const_simps]: "ADCS_FINALIZE_UPLOAD_BLOCK = 10"
definition ADCS_RESET_UPLOAD_BLOCK :: byte where [const_simps]: "ADCS_RESET_UPLOAD_BLOCK = 11"
definition ADCS_RESET_FILE_LIST_READ_POINTER :: byte where [const_simps]: "ADCS_RESET_FILE_LIST_READ_POINTER = 12"
definition ADCS_INITIATE_DOWNLOAD_BURST :: byte where [const_simps]: "ADCS_INITIATE_DOWNLOAD_BURST = 13"
definition ADCS_GET_NODE_IDENTIFICATION :: byte where [const_simps]: "ADCS_GET_NODE_IDENTIFICATION = 14"
definition ADCS_GET_BOOT_PROGRAM_STAT :: byte where [const_simps]: "ADCS_GET_BOOT_PROGRAM_STAT = 15"
definition ADCS_GET_BOOT_INDEX :: byte where [const_simps]: "ADCS_GET_BOOT_INDEX = 16"
definition ADCS_GET_LAST_LOGGED_EVENT :: byte where [const_simps]: "ADCS_GET_LAST_LOGGED_EVENT = 17"
definition ADCS_GET_SD_FORMAT_PROCESS :: byte where [const_simps]: "ADCS_GET_SD_FORMAT_PROCESS = 18"
definition ADCS_GET_TC_ACK :: byte where [const_simps]: "ADCS_GET_TC_ACK = 19"
definition ADCS_GET_FILE_DOWNLOAD_BUFFER :: byte where [const_simps]: "ADCS_GET_FILE_DOWNLOAD_BUFFER = 20"
definition ADCS_GET_FILE_DOWNLOAD_BLOCK_STAT :: byte where [const_simps]: "ADCS_GET_FILE_DOWNLOAD_BLOCK_STAT = 21"
definition ADCS_GET_FILE_INFO :: byte where [const_simps]: "ADCS_GET_FILE_INFO = 22"
definition ADCS_GET_INIT_UPLOAD_STAT :: byte where [const_simps]: "ADCS_GET_INIT_UPLOAD_STAT = 23"
definition ADCS_GET_FINALIZE_UPLOAD_STAT :: byte where [const_simps]: "ADCS_GET_FINALIZE_UPLOAD_STAT = 24"
definition ADCS_GET_UPLOAD_CRC16_CHECKSUM :: byte where [const_simps]: "ADCS_GET_UPLOAD_CRC16_CHECKSUM = 25"
definition ADCS_GET_SRAM_LATCHUP_COUNT :: byte where [const_simps]: "ADCS_GET_SRAM_LATCHUP_COUNT = 26"
definition ADCS_GET_EDAC_ERR_COUNT :: byte where [const_simps]: "ADCS_GET_EDAC_ERR_COUNT = 27"
definition ADCS_GET_COMMS_STAT :: byte where [const_simps]: "ADCS_GET_COMMS_STAT = 28"
definition ADCS_SET_CACHE_EN_STATE :: byte where [const_simps]: "ADCS_SET_CACHE_EN_STATE = 29"
definition ADCS_SET_SRAM_SCRUB_SIZE :: byte where [const_simps]: "ADCS_SET_SRAM_SCRUB_SIZE = 30"
definition ADCS_SET_UNIXTIME_SAVE_CONFIG :: byte where [const_simps]: "ADCS_SET_UNIXTIME_SAVE_CONFIG = 31"
definition ADCS_SET_HOLE_MAP :: byte where [const_simps]: "ADCS_SET_HOLE_MAP = 32"
definition ADCS_SET_UNIX_T :: byte where [const_simps]: "ADCS_SET_UNIX_T = 33"
definition ADCS_GET_CACHE_EN_STATE :: byte where [const_simps]: "ADCS_GET_CACHE_EN_STATE = 34"
definition ADCS_GET_SRAM_SCRUB_SIZE :: byte where [const_simps]: "ADCS_GET_SRAM_SCRUB_SIZE = 35"
definition ADCS_GET_UNIXTIME_SAVE_CONFIG :: byte where [const_simps]: "ADCS_GET_UNIXTIME_SAVE_CONFIG = 36"
definition ADCS_GET_HOLE_MAP :: byte where [const_simps]: "ADCS_GET_HOLE_MAP = 37"
definition ADCS_GET_UNIX_T :: byte where [const_simps]: "ADCS_GET_UNIX_T = 38"
definition ADCS_CLEAR_ERR_FLAGS :: byte where [const_simps]: "ADCS_CLEAR_ERR_FLAGS = 39"
definition ADCS_SET_BOOT_INDEX :: byte where [const_simps]: "ADCS_SET_BOOT_INDEX = 40"
definition ADCS_RUN_SELECTED_PROGRAM :: byte where [const_simps]: "ADCS_RUN_SELECTED_PROGRAM = 41"
definition ADCS_READ_PROGRAM_INFO :: byte where [const_simps]: "ADCS_READ_PROGRAM_INFO = 42"
definition ADCS_COPY_PROGRAM_INTERNAL_FLASH :: byte where [const_simps]: "ADCS_COPY_PROGRAM_INTERNAL_FLASH = 43"
definition ADCS_GET_BOOTLOADER_STATE :: byte where [const_simps]: "ADCS_GET_BOOTLOADER_STATE = 44"
definition ADCS_GET_PROGRAM_INFO :: byte where [const_simps]: "ADCS_GET_PROGRAM_INFO = 45"
definition ADCS_COPY_INTERNAL_FLASH_PROGRESS :: byte where [const_simps]: "ADCS_COPY_INTERNAL_FLASH_PROGRESS = 46"
definition ADCS_DEPLOY_MAGNETOMETER_BOOM :: byte where [const_simps]: "ADCS_DEPLOY_MAGNETOMETER_BOOM = 47"
definition ADCS_SET_ENABLED_STATE :: byte where [const_simps]: "ADCS_SET_ENABLED_STATE = 48"
definition ADCS_CLEAR_LATCHED_ERRS :: byte where [const_simps]: "ADCS_CLEAR_LATCHED_ERRS = 49"
definition ADCS_SET_ATTITUDE_CTR_MODE :: byte where [const_simps]: "ADCS_SET_ATTITUDE_CTR_MODE = 50"
definition ADCS_SET_ATTITUDE_ESTIMATE_MODE :: byte where [const_simps]: "ADCS_SET_ATTITUDE_ESTIMATE_MODE = 51"
definition ADCS_TRIGGER_ADCS_LOOP :: byte where [const_simps]: "ADCS_TRIGGER_ADCS_LOOP = 52"
definition ADCS_TRIGGER_ADCS_LOOP_SIM :: byte where [const_simps]: "ADCS_TRIGGER_ADCS_LOOP_SIM = 53"
definition ADCS_SET_ASGP4_RUNE_MODE :: byte where [const_simps]: "ADCS_SET_ASGP4_RUNE_MODE = 54"
definition ADCS_TRIGGER_ASGP4 :: byte where [const_simps]: "ADCS_TRIGGER_ASGP4 = 55"
definition ADCS_SET_MTM_OP_MODE :: byte where [const_simps]: "ADCS_SET_MTM_OP_MODE = 56"
definition ADCS_CNV2JPG :: byte where [const_simps]: "ADCS_CNV2JPG = 57"
definition ADCS_SAVE_IMG :: byte where [const_simps]: "ADCS_SAVE_IMG = 58"
definition ADCS_SET_MAGNETORQUER_OUTPUT :: byte where [const_simps]: "ADCS_SET_MAGNETORQUER_OUTPUT = 59"
definition ADCS_SET_WHEEL_SPEED :: byte where [const_simps]: "ADCS_SET_WHEEL_SPEED = 60"
definition ADCS_SAVE_CONFIG :: byte where [const_simps]: "ADCS_SAVE_CONFIG = 61"
definition ADCS_SAVE_ORBIT_PARAMS :: byte where [const_simps]: "ADCS_SAVE_ORBIT_PARAMS = 62"
definition ADCS_GET_CURRENT_STATE :: byte where [const_simps]: "ADCS_GET_CURRENT_STATE = 63"
definition ADCS_GET_JPG_CNV_PROGESS :: byte where [const_simps]: "ADCS_GET_JPG_CNV_PROGESS = 64"
definition ADCS_GET_CUBEACP_STATE :: byte where [const_simps]: "ADCS_GET_CUBEACP_STATE = 65"
definition ADCS_GET_SAT_POS_LLH :: byte where [const_simps]: "ADCS_GET_SAT_POS_LLH = 66"
definition ADCS_GET_EXECUTION_TIMES :: byte where [const_simps]: "ADCS_GET_EXECUTION_TIMES = 67"
definition ADCS_GET_ACP_LOOP_STAT :: byte where [const_simps]: "ADCS_GET_ACP_LOOP_STAT = 68"
definition ADCS_GET_IMG_SAVE_PROGRESS :: byte where [const_simps]: "ADCS_GET_IMG_SAVE_PROGRESS = 69"
definition ADCS_GET_MEASUREMENTS :: byte where [const_simps]: "ADCS_GET_MEASUREMENTS = 70"
definition ADCS_GET_ACTUATOR :: byte where [const_simps]: "ADCS_GET_ACTUATOR = 71"
definition ADCS_GET_ESTIMATION :: byte where [const_simps]: "ADCS_GET_ESTIMATION = 72"
definition ADCS_GET_ASGP4 :: byte where [const_simps]: "ADCS_GET_ASGP4 = 73"
definition ADCS_GET_RAW_SENSOR :: byte where [const_simps]: "ADCS_GET_RAW_SENSOR = 74"
definition ADCS_GET_RAW_GPS :: byte where [const_simps]: "ADCS_GET_RAW_GPS = 75"
definition ADCS_GET_STAR_TRACKER :: byte where [const_simps]: "ADCS_GET_STAR_TRACKER = 76"
definition ADCS_GET_MTM2_MEASUREMENTS :: byte where [const_simps]: "ADCS_GET_MTM2_MEASUREMENTS = 77"
definition ADCS_GET_POWER_TEMP :: byte where [const_simps]: "ADCS_GET_POWER_TEMP = 78"
definition ADCS_SET_POWER_CONTROL :: byte where [const_simps]: "ADCS_SET_POWER_CONTROL = 79"
definition ADCS_GET_POWER_CONTROL :: byte where [const_simps]: "ADCS_GET_POWER_CONTROL = 80"
definition ADCS_SET_ATTITUDE_ANGLE :: byte where [const_simps]: "ADCS_SET_ATTITUDE_ANGLE = 81"
definition ADCS_GET_ATTITUDE_ANGLE :: byte where [const_simps]: "ADCS_GET_ATTITUDE_ANGLE = 82"
definition ADCS_SET_TRACK_CONTROLLER :: byte where [const_simps]: "ADCS_SET_TRACK_CONTROLLER = 83"
definition ADCS_GET_TRACK_CONTROLLER :: byte where [const_simps]: "ADCS_GET_TRACK_CONTROLLER = 84"
definition ADCS_SET_LOG_CONFIG :: byte where [const_simps]: "ADCS_SET_LOG_CONFIG = 85"
definition ADCS_GET_LOG_CONFIG :: byte where [const_simps]: "ADCS_GET_LOG_CONFIG = 86"
definition ADCS_SET_INERTIAL_REF :: byte where [const_simps]: "ADCS_SET_INERTIAL_REF = 87"
definition ADCS_GET_INERTIAL_REF :: byte where [const_simps]: "ADCS_GET_INERTIAL_REF = 88"
definition ADCS_SET_SGP4_ORBIT_PARAMS :: byte where [const_simps]: "ADCS_SET_SGP4_ORBIT_PARAMS = 89"
definition ADCS_GET_SGP4_ORBIT_PARAMS :: byte where [const_simps]: "ADCS_GET_SGP4_ORBIT_PARAMS = 90"
definition ADCS_SET_SYSTEM_CONFIG :: byte where [const_simps]: "ADCS_SET_SYSTEM_CONFIG = 91"
definition ADCS_GET_SYSTEM_CONFIG :: byte where [const_simps]: "ADCS_GET_SYSTEM_CONFIG = 92"
definition ADCS_SET_MTQ_CONFIG :: byte where [const_simps]: "ADCS_SET_MTQ_CONFIG = 93"
definition ADCS_SET_RW_CONFIG :: byte where [const_simps]: "ADCS_SET_RW_CONFIG = 94"
definition ADCS_SET_RATE_GYRO :: byte where [const_simps]: "ADCS_SET_RATE_GYRO = 95"
definition ADCS_SET_CSS_CONFIG :: byte where [const_simps]: "ADCS_SET_CSS_CONFIG = 96"
definition ADCS_SET_STAR_TRACK_CONFIG :: byte where [const_simps]: "ADCS_SET_STAR_TRACK_CONFIG = 97"
definition ADCS_SET_CUBESENSE_CONFIG :: byte where [const_simps]: "ADCS_SET_CUBESENSE_CONFIG = 98"
definition ADCS_SET_MTM_CONFIG :: byte where [const_simps]: "ADCS_SET_MTM_CONFIG = 99"
definition ADCS_SET_DETUMBLE_CONFIG :: byte where [const_simps]: "ADCS_SET_DETUMBLE_CONFIG = 100"
definition ADCS_SET_YWHEEL_CONFIG :: byte where [const_simps]: "ADCS_SET_YWHEEL_CONFIG = 101"
definition ADCS_SET_TRACKING_CONFIG :: byte where [const_simps]: "ADCS_SET_TRACKING_CONFIG = 102"
definition ADCS_SET_MOI_MAT :: byte where [const_simps]: "ADCS_SET_MOI_MAT = 103"
definition ADCS_SET_ESTIMATION_CONFIG :: byte where [const_simps]: "ADCS_SET_ESTIMATION_CONFIG = 104"
definition ADCS_SET_USERCODED_SETTING :: byte where [const_simps]: "ADCS_SET_USERCODED_SETTING = 105"
definition ADCS_SET_ASGP4_SETTING :: byte where [const_simps]: "ADCS_SET_ASGP4_SETTING = 106"
definition ADCS_GET_FULL_CONFIG :: byte where [const_simps]: "ADCS_GET_FULL_CONFIG = 107"

subsection \<open>Members of structures\<close>

text \<open>Integer types by their width in bits. The value is the zero-extended object representation.\<close>

datatype ctype = CBool | CUnsigned nat | CSigned nat

record member =
  m_type :: ctype
  m_val :: u32

type_synonym cstruct = "string \<Rightarrow> member"

text \<open>The cast \<^verbatim>\<open>(uint32_t)x\<close>, the assignment to a member, and \<^verbatim>\<open>x = csp_hton32((uint32_t)x)\<close>.\<close>

definition to_uint32 :: "member \<Rightarrow> u32" where
  "to_uint32 m = (case m_type m of CSigned n \<Rightarrow> signed_take_bit (n - 1) (m_val m) | _ \<Rightarrow> m_val m)"

definition assign :: "ctype \<Rightarrow> u32 \<Rightarrow> u32" where
  "assign t v = (case t of CBool \<Rightarrow> (if v = 0 then 0 else 1) | CUnsigned n \<Rightarrow> take_bit n v | CSigned n \<Rightarrow> take_bit n v)"

definition hton_member :: "csp_endian \<Rightarrow> member \<Rightarrow> member" where
  "hton_member ce m = m\<lparr>m_val := assign (m_type m) (csp_hton32 ce (to_uint32 m))\<rparr>"

definition hton_members :: "csp_endian \<Rightarrow> string list \<Rightarrow> cstruct \<Rightarrow> cstruct" where
  "hton_members ce names x = foldl (\<lambda>x n. x(n := hton_member ce (x n))) x names"

text \<open>The same assignment to variables of type \<^verbatim>\<open>bool\<close>, \<^verbatim>\<open>uint16_t\<close> and \<^verbatim>\<open>uint8_t\<close>.\<close>

definition hton_bool :: "csp_endian \<Rightarrow> bool \<Rightarrow> bool" where
  "hton_bool ce b \<longleftrightarrow> csp_hton32 ce (if b then 1 else 0) \<noteq> 0"

definition hton_u16 :: "csp_endian \<Rightarrow> u16 \<Rightarrow> u16" where
  "hton_u16 ce x = ucast (csp_hton32 ce (ucast x))"

definition hton_u8 :: "csp_endian \<Rightarrow> byte \<Rightarrow> byte" where
  "hton_u8 ce x = ucast (csp_hton32 ce (ucast x))"

subsection \<open>Drivers\<close>

text \<open>Functions that return a status only. A structure argument is its bytes.\<close>

datatype (plugins only: ) adcs_command = HAL_ADCS_reset | HAL_ADCS_reset_log_pointer | HAL_ADCS_advance_log_pointer
  | HAL_ADCS_reset_boot_registers | HAL_ADCS_format_sd_card | HAL_ADCS_erase_file byte byte byte
  | HAL_ADCS_load_file_download_block byte byte u32 u16 | HAL_ADCS_advance_file_list_read_pointer
  | HAL_ADCS_initiate_file_upload byte byte | HAL_ADCS_finalize_upload_block byte u32 u16
  | HAL_ADCS_reset_upload_block | HAL_ADCS_reset_file_list_read_pointer | HAL_ADCS_initiate_download_burst byte bool
  | HAL_ADCS_set_cache_en_state bool | HAL_ADCS_set_sram_scrub_size u16 | HAL_ADCS_set_UnixTime_save_config byte byte
  | HAL_ADCS_set_unix_t u32 u16 | HAL_ADCS_clear_err_flags | HAL_ADCS_set_boot_index byte | HAL_ADCS_run_selected_program
  | HAL_ADCS_read_program_info byte | HAL_ADCS_copy_program_internal_flash byte byte | HAL_ADCS_deploy_magnetometer_boom byte
  | HAL_ADCS_set_enabled_state byte | HAL_ADCS_clear_latched_errs byte byte | HAL_ADCS_set_attitude_ctrl_mode byte u16
  | HAL_ADCS_set_attitude_estimate_mode byte | HAL_ADCS_trigger_adcs_loop | HAL_ADCS_trigger_adcs_loop_sim bytes
  | HAL_ADCS_set_ASGP4_rune_mode byte | HAL_ADCS_trigger_ASGP4 | HAL_ADCS_set_MTM_op_mode byte | HAL_ADCS_cnv2jpg byte byte byte
  | HAL_ADCS_save_img byte byte | HAL_ADCS_set_magnetorquer_output bytes | HAL_ADCS_set_wheel_speed bytes
  | HAL_ADCS_save_config | HAL_ADCS_save_orbit_params | Set_attitude_angle bytes | Set_track_controller bytes
  | Set_inertial_ref bytes | Set_sgp4_orbit_params bytes | Set_system_config bytes | Set_MTQ_config bytes | Set_rate_gyro bytes
  | Set_css_config bytes | Set_star_track_config bytes | Set_cubesense_config bytes | Set_mtm_config bytes byte
  | Set_detumble_config bytes | Set_ywheel_config bytes | Set_tracking_config bytes | Set_MoI_mat bytes
  | Set_estimation_config bytes | Set_usercoded_setting bytes | Set_asgp4_setting bytes

text \<open>Functions that fill a structure which is passed on, and one which is converted.\<close>

datatype (plugins only: ) adcs_query = HAL_ADCS_get_file_download_buffer | HAL_ADCS_get_current_state | HAL_ADCS_get_sat_pos_LLH
  | HAL_ADCS_get_measurements | HAL_ADCS_get_actuator | HAL_ADCS_get_estimation | HAL_ADCS_get_raw_sensor
  | HAL_ADCS_get_raw_GPS | HAL_ADCS_get_star_tracker | HAL_ADCS_get_MTM2_measurements | HAL_ADCS_get_power_temp
  | HAL_ADCS_get_attitude_angle | HAL_ADCS_get_track_controller | HAL_ADCS_get_inertial_ref | HAL_ADCS_get_sgp4_orbit_params
  | HAL_ADCS_get_system_config | HAL_ADCS_get_full_config

datatype (plugins only: ) adcs_struct = HAL_ADCS_get_node_identification | HAL_ADCS_get_boot_program_stat | HAL_ADCS_get_boot_index
  | HAL_ADCS_get_last_logged_event | HAL_ADCS_get_TC_ack | HAL_ADCS_get_file_download_block_stat | HAL_ADCS_get_file_info
  | HAL_ADCS_get_SRAM_latchup_count | HAL_ADCS_get_EDAC_err_count | HAL_ADCS_get_UnixTime_save_config | HAL_ADCS_get_unix_t
  | HAL_ADCS_get_bootloader_state | HAL_ADCS_get_program_info | HAL_ADCS_get_jpg_cnv_progress | HAL_ADCS_get_execution_times
  | HAL_ADCS_get_ACP_loop_stat | HAL_ADCS_get_img_save_progress

text \<open>Functions with one or two results of a scalar type; a pointer argument is given its contents.\<close>

datatype adcs_flags = HAL_ADCS_get_SD_format_progress | HAL_ADCS_get_finalize_upload_stat | HAL_ADCS_copy_internal_flash_progress
datatype adcs_flag = HAL_ADCS_get_init_upload_stat | HAL_ADCS_get_cache_en_state
datatype adcs_u16 = HAL_ADCS_get_upload_crc16_checksum | HAL_ADCS_get_comms_stat | HAL_ADCS_get_sram_scrub_size
datatype adcs_u8 = HAL_ADCS_file_upload_packet u16 byte | HAL_ADCS_set_hole_map byte byte | HAL_ADCS_get_hole_map byte
  | HAL_ADCS_get_cubeACP_state | HAL_ADCS_set_power_control byte | HAL_ADCS_get_power_control | HAL_ADCS_set_RW_config byte

datatype adcs_arg = Sim_sensor_data | Xyz16 | Xyz | Adcs_sgp4 | Adcs_sysConfig | Xyzu8 | Rate_gyro_config | Css_config
  | Cubestar_config | Cubesense_config | Mtm_config | Detumble_config | Ywheel_ctrl_config | Track_ctrl_config
  | Moment_inertia_config | Estimation_config | Usercoded_setting | Aspg4_setting

text \<open>\<open>largest\<close> is a bound on the sizes of the structures; \<open>junk_char\<close> an indeterminate variable.\<close>

record 'w adcs_env =
  adcs_command :: "adcs_command \<Rightarrow> 'w \<Rightarrow> i8 \<times> 'w"
  adcs_query :: "adcs_query \<Rightarrow> 'w \<Rightarrow> (i8 \<times> bytes) \<times> 'w"
  adcs_struct :: "adcs_struct \<Rightarrow> 'w \<Rightarrow> (i8 \<times> cstruct) \<times> 'w"
  adcs_flags :: "adcs_flags \<Rightarrow> 'w \<Rightarrow> (i8 \<times> bool \<times> bool) \<times> 'w"
  adcs_flag :: "adcs_flag \<Rightarrow> 'w \<Rightarrow> (i8 \<times> bool) \<times> 'w"
  adcs_u16 :: "adcs_u16 \<Rightarrow> 'w \<Rightarrow> (i8 \<times> u16) \<times> 'w"
  adcs_u8 :: "adcs_u8 \<Rightarrow> 'w \<Rightarrow> (i8 \<times> byte) \<times> 'w"
  HAL_ADCS_get_ASGP4 :: "'w \<Rightarrow> (i8 \<times> bool \<times> byte \<times> bytes) \<times> 'w"
  HAL_ADCS_set_log_config :: "bytes \<Rightarrow> u16 \<Rightarrow> byte \<Rightarrow> byte \<Rightarrow> 'w \<Rightarrow> (i8 \<times> bytes) \<times> 'w"
  HAL_ADCS_get_log_config :: "byte \<Rightarrow> 'w \<Rightarrow> (i8 \<times> bytes \<times> u16 \<times> byte) \<times> 'w"
  struct_repr :: "adcs_struct \<Rightarrow> cstruct \<Rightarrow> bytes"
  arg_sizeof :: "adcs_arg \<Rightarrow> nat"
  adcs_ce :: csp_endian
  adcs_buffer_size :: nat
  junk_char :: byte
  largest :: nat

subsection \<open>Kinds of requests\<close>

type_synonym 'w request = "('w hst, SAT_returnState) prog"

definition command0 :: "'w adcs_env \<Rightarrow> adcs_command \<Rightarrow> 'w request" where
  "command0 E c = set_reply (adcs_command E c)"

definition command1 :: "'w adcs_env \<Rightarrow> (byte \<Rightarrow> adcs_command) \<Rightarrow> 'w request" where
  "command1 E f = bnd (pkt_byte IN_DATA_BYTE) (\<lambda>a. command0 E (f a))"

definition command2 :: "'w adcs_env \<Rightarrow> (byte \<Rightarrow> byte \<Rightarrow> adcs_command) \<Rightarrow> 'w request" where
  "command2 E f = bnd (pkt_byte IN_DATA_BYTE) (\<lambda>a. bnd (pkt_byte (IN_DATA_BYTE + 1)) (\<lambda>b. command0 E (f a b)))"

definition command3 :: "'w adcs_env \<Rightarrow> (byte \<Rightarrow> byte \<Rightarrow> byte \<Rightarrow> adcs_command) \<Rightarrow> 'w request" where
  "command3 E f = bnd (pkt_byte IN_DATA_BYTE) (\<lambda>a. bnd (pkt_byte (IN_DATA_BYTE + 1)) (\<lambda>b.
     bnd (pkt_byte (IN_DATA_BYTE + 2)) (\<lambda>c. command0 E (f a b c))))"

definition command_struct :: "'w adcs_env \<Rightarrow> adcs_arg \<Rightarrow> (bytes \<Rightarrow> adcs_command) \<Rightarrow> 'w request" where
  "command_struct E t f = bnd (pkt_read IN_DATA_BYTE (arg_sizeof E t)) (\<lambda>x. command0 E (f x))"

definition sized_reply :: "'w adcs_env \<Rightarrow> i8 \<Rightarrow> bytes \<Rightarrow> 'w request" where
  "sized_reply E status bs = checked_reply (adcs_buffer_size E) (length bs) status bs"

definition query :: "'w adcs_env \<Rightarrow> adcs_query \<Rightarrow> 'w request" where
  "query E q = bnd (hal (adcs_query E q)) (\<lambda>(status, x). sized_reply E status x)"

definition query_unchecked :: "'w adcs_env \<Rightarrow> adcs_query \<Rightarrow> 'w request" where
  "query_unchecked E q = bnd (hal (adcs_query E q)) (\<lambda>(status, x). andthen (reply_data status x) (ret SATR_OK))"

definition query_struct :: "'w adcs_env \<Rightarrow> adcs_struct \<Rightarrow> string list \<Rightarrow> 'w request" where
  "query_struct E q names = bnd (hal (adcs_struct E q)) (\<lambda>(status, x).
     sized_reply E status (struct_repr E q (hton_members (adcs_ce E) names x)))"

definition bool_byte :: "bool \<Rightarrow> byte" where "bool_byte b = (if b then 1 else 0)"

definition query_flags :: "'w adcs_env \<Rightarrow> adcs_flags \<Rightarrow> 'w request" where
  "query_flags E q = bnd (hal (adcs_flags E q)) (\<lambda>(status, a, b).
     sized_reply E status [bool_byte (hton_bool (adcs_ce E) a), bool_byte (hton_bool (adcs_ce E) b)])"

text \<open>A reply whose datum is written only when the status is \<^verbatim>\<open>SATR_OK\<close>.\<close>

definition reply_if_ok :: "'w adcs_env \<Rightarrow> i8 \<Rightarrow> bytes \<Rightarrow> 'w request" where
  "reply_if_ok E status bs =
     andthen (pkt_write STATUS_BYTE [status])
    (andthen (if status = 0 then pkt_write OUT_DATA_BYTE bs else ret ())
    (andthen (set_packet_length (length bs + 1 + 1))
             (ret (if length bs + 1 > adcs_buffer_size E then SATR_ERROR else SATR_OK))))"

definition query_flag :: "'w adcs_env \<Rightarrow> adcs_flag \<Rightarrow> 'w request" where
  "query_flag E q = bnd (hal (adcs_flag E q)) (\<lambda>(status, b). reply_if_ok E status [bool_byte (hton_bool (adcs_ce E) b)])"

definition u16_bytes :: "'w adcs_env \<Rightarrow> u16 \<Rightarrow> bytes" where
  "u16_bytes E x = to_bytes (host (adcs_ce E)) 2 (hton_u16 (adcs_ce E) x)"

definition query_u16 :: "'w adcs_env \<Rightarrow> adcs_u16 \<Rightarrow> 'w request" where
  "query_u16 E q = bnd (hal (adcs_u16 E q)) (\<lambda>(status, x). reply_if_ok E status (u16_bytes E x))"

definition query_u8 :: "'w adcs_env \<Rightarrow> adcs_u8 \<Rightarrow> (byte \<Rightarrow> byte) \<Rightarrow> 'w request" where
  "query_u8 E q f = bnd (hal (adcs_u8 E q)) (\<lambda>(status, x). sized_reply E status [f x])"

subsection \<open>The cases\<close>

definition load_file_download_block :: "'w adcs_env \<Rightarrow> 'w request" where
  "load_file_download_block E =
     bnd (pkt_byte IN_DATA_BYTE) (\<lambda>file_type.
     bnd (pkt_byte (IN_DATA_BYTE + 1)) (\<lambda>counter.
     bnd (read_u32 (adcs_ce E) (IN_DATA_BYTE + 2)) (\<lambda>offset.
     bnd (read_u16 (adcs_ce E) (IN_DATA_BYTE + 6)) (\<lambda>block_length.
     command0 E (HAL_ADCS_load_file_download_block file_type counter offset block_length)))))"

definition file_upload_packet :: "'w adcs_env \<Rightarrow> 'w request" where
  "file_upload_packet E =
     bnd (read_u16 (adcs_ce E) IN_DATA_BYTE) (\<lambda>packet_number.
     bnd (hal (adcs_u8 E (HAL_ADCS_file_upload_packet packet_number (junk_char E)))) (\<lambda>(status, file_bytes).
     andthen (reply_data status [file_bytes]) (ret SATR_OK)))"

definition finalize_upload_block :: "'w adcs_env \<Rightarrow> 'w request" where
  "finalize_upload_block E =
     bnd (pkt_byte IN_DATA_BYTE) (\<lambda>file_dest.
     bnd (read_u32 (adcs_ce E) (IN_DATA_BYTE + 1)) (\<lambda>offset.
     bnd (read_u16 (adcs_ce E) (IN_DATA_BYTE + 5)) (\<lambda>block_length.
     command0 E (HAL_ADCS_finalize_upload_block file_dest offset block_length))))"

definition set_hole_map :: "'w adcs_env \<Rightarrow> 'w request" where
  "set_hole_map E =
     bnd (pkt_byte IN_DATA_BYTE) (\<lambda>hole_map.
     bnd (pkt_byte (IN_DATA_BYTE + 1)) (\<lambda>num.
     bnd (hal (adcs_u8 E (HAL_ADCS_set_hole_map hole_map num))) (\<lambda>(status, hole_map').
     andthen (pkt_write STATUS_BYTE [status])
    (andthen (pkt_write OUT_DATA_BYTE [hole_map'])
    (andthen (set_packet_length (1 + 1)) (ret SATR_OK))))))"

definition set_unix_t :: "'w adcs_env \<Rightarrow> 'w request" where
  "set_unix_t E =
     bnd (read_u32 (adcs_ce E) IN_DATA_BYTE) (\<lambda>unix_t.
     bnd (read_u16 (adcs_ce E) (IN_DATA_BYTE + 4)) (\<lambda>count_ms.
     command0 E (HAL_ADCS_set_unix_t unix_t count_ms)))"

definition set_attitude_ctr_mode :: "'w adcs_env \<Rightarrow> 'w request" where
  "set_attitude_ctr_mode E =
     bnd (pkt_byte IN_DATA_BYTE) (\<lambda>ctrl_mode.
     bnd (read_u16 (adcs_ce E) (IN_DATA_BYTE + 1)) (\<lambda>timeout.
     command0 E (HAL_ADCS_set_attitude_ctrl_mode ctrl_mode timeout)))"

definition get_asgp4 :: "'w adcs_env \<Rightarrow> 'w request" where
  "get_asgp4 E = bnd (hal (HAL_ADCS_get_ASGP4 E)) (\<lambda>(status, complete, err, asgp4).
     sized_reply E status (bool_byte complete # err # asgp4))"

definition set_log_config :: "'w adcs_env \<Rightarrow> 'w request" where
  "set_log_config E =
     bnd (pkt_read IN_DATA_BYTE 10) (\<lambda>flags_arr.
     bnd (read_u16 (adcs_ce E) (IN_DATA_BYTE + 1)) (\<lambda>period.
     bnd (pkt_byte (IN_DATA_BYTE + 2)) (\<lambda>dest.
     bnd (pkt_byte (IN_DATA_BYTE + 3)) (\<lambda>log.
     bnd (hal (HAL_ADCS_set_log_config E flags_arr period dest log)) (\<lambda>(status, flags_arr').
     sized_reply E status flags_arr')))))"

definition get_log_config :: "'w adcs_env \<Rightarrow> 'w request" where
  "get_log_config E =
     (let log = 0 in
     bnd (hal (HAL_ADCS_get_log_config E log)) (\<lambda>(status, flags_arr, period, dest).
     andthen (pkt_write STATUS_BYTE [status])
    (andthen (pkt_write OUT_DATA_BYTE flags_arr)
    (andthen (pkt_write (OUT_DATA_BYTE + 1) (to_bytes (host (adcs_ce E)) 2 period))
    (andthen (pkt_write (OUT_DATA_BYTE + 3) [dest])
    (andthen (pkt_write (OUT_DATA_BYTE + 4) [log])
    (andthen (set_packet_length (10 + 2 + 1 + 1 + 1 + 1))
             (ret (if 10 + 2 + 1 + 1 + 1 > adcs_buffer_size E then SATR_ERROR else SATR_OK)))))))))"

definition set_mtm_config :: "'w adcs_env \<Rightarrow> 'w request" where
  "set_mtm_config E =
     bnd (pkt_read IN_DATA_BYTE (arg_sizeof E Mtm_config)) (\<lambda>config.
     bnd (pkt_byte (IN_DATA_BYTE + arg_sizeof E Mtm_config)) (\<lambda>mtm.
     command0 E (Set_mtm_config config mtm)))"

text \<open>The switch, in the order of its cases.\<close>

definition adcs_upload_requests :: "'w adcs_env \<Rightarrow> (byte \<times> 'w request) list" where
  "adcs_upload_requests E =
    [(ADCS_RESET, command0 E HAL_ADCS_reset),
     (ADCS_RESET_LOG_POINTER, command0 E HAL_ADCS_reset_log_pointer),
     (ADCS_ADVANCE_LOG_POINTER, command0 E HAL_ADCS_advance_log_pointer),
     (ADCS_RESET_BOOT_REGISTERS, command0 E HAL_ADCS_reset_boot_registers),
     (ADCS_FORMAT_SD_CARD, command0 E HAL_ADCS_format_sd_card),
     (ADCS_ERASE_FILE, command3 E HAL_ADCS_erase_file),
     (ADCS_LOAD_FILE_DOWNLOAD_BLOCK, load_file_download_block E),
     (ADCS_ADVANCE_FILE_LIST_READ_POINTER, command0 E HAL_ADCS_advance_file_list_read_pointer),
     (ADCS_INITIATE_FILE_UPLOAD, command2 E HAL_ADCS_initiate_file_upload),
     (ADCS_FILE_UPLOAD_PACKET, file_upload_packet E),
     (ADCS_FINALIZE_UPLOAD_BLOCK, finalize_upload_block E),
     (ADCS_RESET_UPLOAD_BLOCK, command0 E HAL_ADCS_reset_upload_block),
     (ADCS_RESET_FILE_LIST_READ_POINTER, command0 E HAL_ADCS_reset_file_list_read_pointer),
     (ADCS_INITIATE_DOWNLOAD_BURST, command2 E (\<lambda>n b. HAL_ADCS_initiate_download_burst n (b \<noteq> 0)))]"

definition adcs_boot_requests :: "'w adcs_env \<Rightarrow> (byte \<times> 'w request) list" where
  "adcs_boot_requests E =
    [(ADCS_GET_NODE_IDENTIFICATION, query_struct E HAL_ADCS_get_node_identification
        [''node_type'', ''interface_ver'', ''major_firm_ver'', ''minor_firm_ver'', ''runtime_s'', ''runtime_ms'']),
     (ADCS_GET_BOOT_PROGRAM_STAT, query_struct E HAL_ADCS_get_boot_program_stat
        [''mcu_reset_cause'', ''boot_cause'', ''boot_count'', ''boot_idx'']),
     (ADCS_GET_BOOT_INDEX, query_struct E HAL_ADCS_get_boot_index [''program_idx'', ''boot_stat'']),
     (ADCS_GET_LAST_LOGGED_EVENT, query_struct E HAL_ADCS_get_last_logged_event [''time'', ''event_id'', ''event_param'']),
     (ADCS_GET_SD_FORMAT_PROCESS, query_flags E HAL_ADCS_get_SD_format_progress),
     (ADCS_GET_TC_ACK, query_struct E HAL_ADCS_get_TC_ack [''last_tc_id'', ''tc_processed'', ''tc_err_idx'']),
     (ADCS_GET_FILE_DOWNLOAD_BUFFER, query E HAL_ADCS_get_file_download_buffer)]"

definition adcs_file_requests :: "'w adcs_env \<Rightarrow> (byte \<times> 'w request) list" where
  "adcs_file_requests E =
    [(ADCS_GET_FILE_DOWNLOAD_BLOCK_STAT, query_struct E HAL_ADCS_get_file_download_block_stat
        [''ready'', ''param_err'', ''crc16_checksum'', ''length'']),
     (ADCS_GET_FILE_INFO, query_struct E HAL_ADCS_get_file_info
        [''type'', ''updating'', ''counter'', ''size'', ''time'', ''crc16_checksum'']),
     (ADCS_GET_INIT_UPLOAD_STAT, query_flag E HAL_ADCS_get_init_upload_stat),
     (ADCS_GET_FINALIZE_UPLOAD_STAT, query_flags E HAL_ADCS_get_finalize_upload_stat),
     (ADCS_GET_UPLOAD_CRC16_CHECKSUM, bnd (hal (adcs_u16 E HAL_ADCS_get_upload_crc16_checksum)) (\<lambda>(status, checksum).
        sized_reply E status (u16_bytes E checksum))),
     (ADCS_GET_SRAM_LATCHUP_COUNT, query_struct E HAL_ADCS_get_SRAM_latchup_count [''sram1'', ''sram2'']),
     (ADCS_GET_EDAC_ERR_COUNT, query_struct E HAL_ADCS_get_EDAC_err_count [''single_sram'', ''double_sram'', ''multi_sram'']),
     (ADCS_GET_COMMS_STAT, query_u16 E HAL_ADCS_get_comms_stat)]"

definition adcs_memory_requests :: "'w adcs_env \<Rightarrow> (byte \<times> 'w request) list" where
  "adcs_memory_requests E =
    [(ADCS_SET_CACHE_EN_STATE, command1 E (\<lambda>b. HAL_ADCS_set_cache_en_state (b \<noteq> 0))),
     (ADCS_SET_SRAM_SCRUB_SIZE, bnd (pkt_read IN_DATA_BYTE 2) (\<lambda>bs.
        command0 E (HAL_ADCS_set_sram_scrub_size (cnv8_16 (host (adcs_ce E)) bs)))),
     (ADCS_SET_UNIXTIME_SAVE_CONFIG, command2 E HAL_ADCS_set_UnixTime_save_config),
     (ADCS_SET_HOLE_MAP, set_hole_map E),
     (ADCS_SET_UNIX_T, set_unix_t E),
     (ADCS_GET_CACHE_EN_STATE, query_flag E HAL_ADCS_get_cache_en_state),
     (ADCS_GET_SRAM_SCRUB_SIZE, query_u16 E HAL_ADCS_get_sram_scrub_size),
     (ADCS_GET_UNIXTIME_SAVE_CONFIG, query_struct E HAL_ADCS_get_UnixTime_save_config [''when'', ''period'']),
     (ADCS_GET_HOLE_MAP, bnd (pkt_byte IN_DATA_BYTE) (\<lambda>num. query_u8 E (HAL_ADCS_get_hole_map num) (\<lambda>x. x))),
     (ADCS_GET_UNIX_T, query_struct E HAL_ADCS_get_unix_t [''unix_t'', ''count_ms'']),
     (ADCS_CLEAR_ERR_FLAGS, command0 E HAL_ADCS_clear_err_flags),
     (ADCS_SET_BOOT_INDEX, command1 E HAL_ADCS_set_boot_index)]"

definition adcs_program_requests :: "'w adcs_env \<Rightarrow> (byte \<times> 'w request) list" where
  "adcs_program_requests E =
    [(ADCS_RUN_SELECTED_PROGRAM, command0 E HAL_ADCS_run_selected_program),
     (ADCS_READ_PROGRAM_INFO, command1 E HAL_ADCS_read_program_info),
     (ADCS_COPY_PROGRAM_INTERNAL_FLASH, command2 E HAL_ADCS_copy_program_internal_flash),
     (ADCS_GET_BOOTLOADER_STATE, query_struct E HAL_ADCS_get_bootloader_state [''uptime'', ''flags_arr'']),
     (ADCS_GET_PROGRAM_INFO, query_struct E HAL_ADCS_get_program_info [''index'', ''busy'', ''file_size'', ''crc16_checksum'']),
     (ADCS_COPY_INTERNAL_FLASH_PROGRESS, query_flags E HAL_ADCS_copy_internal_flash_progress),
     (ADCS_DEPLOY_MAGNETOMETER_BOOM, command1 E HAL_ADCS_deploy_magnetometer_boom),
     (ADCS_SET_ENABLED_STATE, command1 E HAL_ADCS_set_enabled_state),
     (ADCS_CLEAR_LATCHED_ERRS, command2 E HAL_ADCS_clear_latched_errs),
     (ADCS_SET_ATTITUDE_CTR_MODE, set_attitude_ctr_mode E),
     (ADCS_SET_ATTITUDE_ESTIMATE_MODE, command1 E HAL_ADCS_set_attitude_estimate_mode),
     (ADCS_TRIGGER_ADCS_LOOP, command0 E HAL_ADCS_trigger_adcs_loop),
     (ADCS_TRIGGER_ADCS_LOOP_SIM, command_struct E Sim_sensor_data HAL_ADCS_trigger_adcs_loop_sim)]"

definition adcs_mode_requests :: "'w adcs_env \<Rightarrow> (byte \<times> 'w request) list" where
  "adcs_mode_requests E =
    [(ADCS_SET_ASGP4_RUNE_MODE, command1 E HAL_ADCS_set_ASGP4_rune_mode),
     (ADCS_TRIGGER_ASGP4, command0 E HAL_ADCS_trigger_ASGP4),
     (ADCS_SET_MTM_OP_MODE, command1 E HAL_ADCS_set_MTM_op_mode),
     (ADCS_CNV2JPG, command3 E HAL_ADCS_cnv2jpg),
     (ADCS_SAVE_IMG, command2 E HAL_ADCS_save_img),
     (ADCS_SET_MAGNETORQUER_OUTPUT, command_struct E Xyz16 HAL_ADCS_set_magnetorquer_output),
     (ADCS_SET_WHEEL_SPEED, command_struct E Xyz16 HAL_ADCS_set_wheel_speed),
     (ADCS_SAVE_CONFIG, command0 E HAL_ADCS_save_config),
     (ADCS_SAVE_ORBIT_PARAMS, command0 E HAL_ADCS_save_orbit_params),
     (ADCS_GET_CURRENT_STATE, query_unchecked E HAL_ADCS_get_current_state),
     (ADCS_GET_JPG_CNV_PROGESS, query_struct E HAL_ADCS_get_jpg_cnv_progress [''percentage'', ''result'', ''file_counter'']),
     (ADCS_GET_CUBEACP_STATE, query_u8 E HAL_ADCS_get_cubeACP_state (\<lambda>x. x)),
     (ADCS_GET_SAT_POS_LLH, query_unchecked E HAL_ADCS_get_sat_pos_LLH),
     (ADCS_GET_EXECUTION_TIMES, query_struct E HAL_ADCS_get_execution_times
        [''adcs_update'', ''sensor_comms'', ''sgp4_propag'', ''igrf_model''])]"

definition adcs_measurement_requests :: "'w adcs_env \<Rightarrow> (byte \<times> 'w request) list" where
  "adcs_measurement_requests E =
    [(ADCS_GET_ACP_LOOP_STAT, query_struct E HAL_ADCS_get_ACP_loop_stat [''time'', ''execution_point'']),
     (ADCS_GET_IMG_SAVE_PROGRESS, query_struct E HAL_ADCS_get_img_save_progress [''percentage'', ''status'']),
     (ADCS_GET_MEASUREMENTS, query E HAL_ADCS_get_measurements),
     (ADCS_GET_ACTUATOR, query E HAL_ADCS_get_actuator),
     (ADCS_GET_ESTIMATION, query E HAL_ADCS_get_estimation),
     (ADCS_GET_ASGP4, get_asgp4 E),
     (ADCS_GET_RAW_SENSOR, query E HAL_ADCS_get_raw_sensor),
     (ADCS_GET_RAW_GPS, query E HAL_ADCS_get_raw_GPS),
     (ADCS_GET_STAR_TRACKER, query E HAL_ADCS_get_star_tracker),
     (ADCS_GET_MTM2_MEASUREMENTS, query E HAL_ADCS_get_MTM2_measurements),
     (ADCS_GET_POWER_TEMP, query E HAL_ADCS_get_power_temp)]"

definition adcs_control_requests :: "'w adcs_env \<Rightarrow> (byte \<times> 'w request) list" where
  "adcs_control_requests E =
    [(ADCS_SET_POWER_CONTROL, bnd (pkt_byte IN_DATA_BYTE) (\<lambda>control.
        query_u8 E (HAL_ADCS_set_power_control control) (hton_u8 (adcs_ce E)))),
     (ADCS_GET_POWER_CONTROL, query_u8 E HAL_ADCS_get_power_control (hton_u8 (adcs_ce E))),
     (ADCS_SET_ATTITUDE_ANGLE, command_struct E Xyz Set_attitude_angle),
     (ADCS_GET_ATTITUDE_ANGLE, query E HAL_ADCS_get_attitude_angle),
     (ADCS_SET_TRACK_CONTROLLER, command_struct E Xyz Set_track_controller),
     (ADCS_GET_TRACK_CONTROLLER, query E HAL_ADCS_get_track_controller),
     (ADCS_SET_LOG_CONFIG, set_log_config E),
     (ADCS_GET_LOG_CONFIG, get_log_config E),
     (ADCS_SET_INERTIAL_REF, command_struct E Xyz Set_inertial_ref),
     (ADCS_GET_INERTIAL_REF, query E HAL_ADCS_get_inertial_ref)]"

definition adcs_config_requests :: "'w adcs_env \<Rightarrow> (byte \<times> 'w request) list" where
  "adcs_config_requests E =
    [(ADCS_SET_SGP4_ORBIT_PARAMS, command_struct E Adcs_sgp4 Set_sgp4_orbit_params),
     (ADCS_GET_SGP4_ORBIT_PARAMS, query E HAL_ADCS_get_sgp4_orbit_params),
     (ADCS_SET_SYSTEM_CONFIG, command_struct E Adcs_sysConfig Set_system_config),
     (ADCS_GET_SYSTEM_CONFIG, query E HAL_ADCS_get_system_config),
     (ADCS_SET_MTQ_CONFIG, command_struct E Xyzu8 Set_MTQ_config),
     (ADCS_SET_RW_CONFIG, bnd (pkt_byte IN_DATA_BYTE) (\<lambda>RW. query_u8 E (HAL_ADCS_set_RW_config RW) (\<lambda>x. x))),
     (ADCS_SET_RATE_GYRO, command_struct E Rate_gyro_config Set_rate_gyro),
     (ADCS_SET_CSS_CONFIG, command_struct E Css_config Set_css_config),
     (ADCS_SET_STAR_TRACK_CONFIG, command_struct E Cubestar_config Set_star_track_config),
     (ADCS_SET_CUBESENSE_CONFIG, command_struct E Cubesense_config Set_cubesense_config),
     (ADCS_SET_MTM_CONFIG, set_mtm_config E),
     (ADCS_SET_DETUMBLE_CONFIG, command_struct E Detumble_config Set_detumble_config),
     (ADCS_SET_YWHEEL_CONFIG, command_struct E Ywheel_ctrl_config Set_ywheel_config),
     (ADCS_SET_TRACKING_CONFIG, command_struct E Track_ctrl_config Set_tracking_config),
     (ADCS_SET_MOI_MAT, command_struct E Moment_inertia_config Set_MoI_mat)]"

definition adcs_setting_requests :: "'w adcs_env \<Rightarrow> (byte \<times> 'w request) list" where
  "adcs_setting_requests E =
    [(ADCS_SET_ESTIMATION_CONFIG, command_struct E Estimation_config Set_estimation_config),
     (ADCS_SET_USERCODED_SETTING, command_struct E Usercoded_setting Set_usercoded_setting),
     (ADCS_SET_ASGP4_SETTING, command_struct E Aspg4_setting Set_asgp4_setting),
     (ADCS_GET_FULL_CONFIG, query E HAL_ADCS_get_full_config)]"

definition adcs_requests :: "'w adcs_env \<Rightarrow> (byte \<times> 'w request) list" where
  "adcs_requests E = adcs_upload_requests E @ adcs_boot_requests E @ adcs_file_requests E @ adcs_memory_requests E @
     adcs_program_requests E @ adcs_mode_requests E @ adcs_measurement_requests E @ adcs_control_requests E @
     adcs_config_requests E @ adcs_setting_requests E"

text \<open>The default case does nothing and leaves the result \<^verbatim>\<open>SATR_OK\<close>.\<close>

definition adcs_service_app :: "'w adcs_env \<Rightarrow> ('w hst, SAT_returnState) prog" where
  "adcs_service_app E =
     bnd (pkt_byte SUBSERVICE_BYTE) (\<lambda>ser_subtype.
     case map_of (adcs_requests E) ser_subtype of None \<Rightarrow> ret SATR_OK | Some request \<Rightarrow> request)"

definition adcs_kicks :: kicks where
  "adcs_kicks = \<lparr>k_init = 0, k_iter = 1, k_timeout = 1, k_accept = 1\<rparr>"

definition adcs_service :: "'w csp_ops \<Rightarrow> 'w adcs_env \<Rightarrow> accept list \<Rightarrow> ('w pool, unit) prog" where
  "adcs_service ops E = service_task adcs_kicks (reply_step ops (adcs_service_app E))"

subsection \<open>The contract of the service\<close>

definition adcs_env_ok :: "'w adcs_env \<Rightarrow> bool" where
  "adcs_env_ok E \<longleftrightarrow>
     (\<forall>t. arg_sizeof E t \<le> largest E) \<and>
     (\<forall>q w. length (snd (fst (adcs_query E q w))) \<le> largest E) \<and>
     (\<forall>q x. length (struct_repr E q x) \<le> largest E) \<and>
     (\<forall>w. length (snd (snd (snd (fst (HAL_ADCS_get_ASGP4 E w))))) \<le> largest E) \<and>
     (\<forall>f p d l w. length (snd (fst (HAL_ADCS_set_log_config E f p d l w))) = 10) \<and>
     (\<forall>l w. length (fst (snd (fst (HAL_ADCS_get_log_config E l w)))) = 10)"

lemma adcs_env_okD:
  assumes "adcs_env_ok E"
  shows "arg_sizeof E t \<le> largest E" "length (snd (fst (adcs_query E q w))) \<le> largest E"
    "length (struct_repr E r x) \<le> largest E" "length (snd (snd (snd (fst (HAL_ADCS_get_ASGP4 E w))))) \<le> largest E"
    "length (snd (fst (HAL_ADCS_set_log_config E f p d l w))) = 10"
    "length (fst (snd (fst (HAL_ADCS_get_log_config E l w)))) = 10"
  using assms by (simp_all add: adcs_env_ok_def)

abbreviation adcs_room :: "'w adcs_env \<Rightarrow> nat" where "adcs_room E \<equiv> largest E + 14"

lemma safe_command0: "2 \<le> n \<Longrightarrow> safe n (command0 E c)"
  unfolding command0_def by (rule safe_set_reply)

lemma safe_sized_reply: "length bs + 2 \<le> n \<Longrightarrow> safe n (sized_reply E st bs)"
  unfolding sized_reply_def by (rule safe_checked_reply)

lemma safe_commands: "5 \<le> n \<Longrightarrow> safe n (command0 E c)" "5 \<le> n \<Longrightarrow> safe n (command1 E f1)" "5 \<le> n \<Longrightarrow> safe n (command2 E f2)"
  "5 \<le> n \<Longrightarrow> safe n (command3 E f3)" "arg_sizeof E t + 2 \<le> n \<Longrightarrow> safe n (command_struct E t f)"
  unfolding command1_def command2_def command3_def command_struct_def
  by (intro safe_bnd safe_pkt_byte safe_pkt_read safe_command0; simp add: const_simps)+

lemma safe_reply_if_ok: "length bs + 2 \<le> n \<Longrightarrow> safe n (reply_if_ok E st bs)"
  unfolding reply_if_ok_def by (intro safe_andthen safe_if safe_intros) (simp_all add: const_simps)

lemma safe_scalar_queries:
  "4 \<le> n \<Longrightarrow> safe n (query_flags E q1)" "4 \<le> n \<Longrightarrow> safe n (query_flag E q2)" "4 \<le> n \<Longrightarrow> safe n (query_u16 E q3)"
  "4 \<le> n \<Longrightarrow> safe n (query_u8 E q4 g)"
  unfolding query_flags_def query_flag_def query_u16_def query_u8_def case_prod_beta
  by (intro safe_bnd_hal safe_sized_reply safe_reply_if_ok; simp add: u16_bytes_def)+

lemmas adcs_roomy = adcs_env_okD(1,2,3,4) [THEN trans_le_add2]

lemma safe_struct_queries:
  assumes ok: "adcs_env_ok E"
  shows "safe (adcs_room E) (query E q)" "safe (adcs_room E) (query_unchecked E q)" "safe (adcs_room E) (query_struct E r names)"
  unfolding query_def query_unchecked_def query_struct_def case_prod_beta
  by (intro safe_bnd_hal safe_sized_reply safe_andthen safe_reply_data safe_ret; simp add: adcs_roomy [OF ok])+

lemma safe_special:
  assumes ok: "adcs_env_ok E"
  shows "safe (adcs_room E) (load_file_download_block E)" "safe (adcs_room E) (file_upload_packet E)"
    "safe (adcs_room E) (finalize_upload_block E)" "safe (adcs_room E) (set_hole_map E)" "safe (adcs_room E) (set_unix_t E)"
    "safe (adcs_room E) (set_attitude_ctr_mode E)" "safe (adcs_room E) (set_mtm_config E)"
  unfolding load_file_download_block_def file_upload_packet_def finalize_upload_block_def set_hole_map_def set_unix_t_def
    set_attitude_ctr_mode_def set_mtm_config_def case_prod_beta
  by (intro safe_bnd_hal safe_intros safe_command0;
      simp add: const_simps adcs_roomy [OF ok] le_imp_less_Suc less_Suc_eq_le le_less_trans [OF adcs_env_okD(1) [OF ok]])+

lemma safe_special_sized:
  assumes ok: "adcs_env_ok E"
  shows "safe (adcs_room E) (get_asgp4 E)" "safe (adcs_room E) (set_log_config E)" "safe (adcs_room E) (get_log_config E)"
proof -
  note L = adcs_env_okD [OF ok]
  show "safe (adcs_room E) (get_asgp4 E)"
    unfolding get_asgp4_def case_prod_beta by (intro safe_bnd_hal safe_sized_reply) (simp add: adcs_roomy [OF ok])
  have "safe (adcs_room E) (bnd (hal (HAL_ADCS_set_log_config E f p d l)) (\<lambda>r. sized_reply E (fst r) (snd r)))" for f p d l
    by (intro safe_bnd_hal safe_sized_reply) (simp add: L(5))
  then show "safe (adcs_room E) (set_log_config E)"
    unfolding set_log_config_def case_prod_beta by (intro safe_bnd [OF safe_pkt_read] safe_bnd [OF safe_read_word(2)]
        safe_bnd [OF safe_pkt_byte]) (simp_all add: const_simps)
  show "safe (adcs_room E) (get_log_config E)"
    unfolding get_log_config_def case_prod_beta Let_def
    by (intro safe_bnd_hal safe_intros) (simp_all add: const_simps L(6))
qed

text \<open>Every case of the switch.\<close>

definition all_safe :: "nat \<Rightarrow> (byte \<times> 'w request) list \<Rightarrow> bool" where
  "all_safe n rs \<longleftrightarrow> list_all (\<lambda>(_, request). safe n request) rs"

lemma all_safe_simps:
  "all_safe n []" "all_safe n ((c, request) # rs) \<longleftrightarrow> safe n request \<and> all_safe n rs"
  "all_safe n (rs @ qs) \<longleftrightarrow> all_safe n rs \<and> all_safe n qs"
  by (simp_all add: all_safe_def)

lemma all_safe_map_of: "all_safe n rs \<Longrightarrow> map_of rs c = Some request \<Longrightarrow> safe n request"
  unfolding all_safe_def list_all_iff by (drule map_of_SomeD) fastforce

lemma safe_u16_checksum: "4 \<le> n \<Longrightarrow> safe n (bnd (hal (adcs_u16 E q)) (\<lambda>(status, checksum). sized_reply E status (u16_bytes E checksum)))"
  unfolding case_prod_beta by (intro safe_bnd_hal safe_sized_reply) (simp add: u16_bytes_def)

lemma safe_struct_command: "adcs_env_ok E \<Longrightarrow> safe (adcs_room E) (command_struct E t f)"
  using adcs_roomy(1) by (intro safe_commands(5)) simp

lemma safe_byte_query: "4 \<le> n \<Longrightarrow> safe n (bnd (pkt_byte IN_DATA_BYTE) (\<lambda>a. query_u8 E (f a) g))"
  by (intro safe_bnd [OF safe_pkt_byte] safe_scalar_queries) (simp_all add: const_simps)

lemma safe_scrub_size:
  "4 \<le> n \<Longrightarrow> safe n (bnd (pkt_read IN_DATA_BYTE 2) (\<lambda>bs. command0 E (f bs)))"
  by (intro safe_bnd [OF safe_pkt_read] safe_command0) (simp_all add: const_simps)

lemma adcs_requests_safe: "adcs_env_ok E \<Longrightarrow> all_safe (adcs_room E) (adcs_requests E)"
  unfolding adcs_requests_def adcs_upload_requests_def adcs_boot_requests_def adcs_file_requests_def adcs_memory_requests_def
    adcs_program_requests_def adcs_mode_requests_def adcs_measurement_requests_def adcs_control_requests_def
    adcs_config_requests_def adcs_setting_requests_def
  by (simp only: all_safe_simps safe_special safe_special_sized safe_struct_queries safe_commands(1,2,3,4) safe_scalar_queries
      safe_u16_checksum safe_struct_command safe_byte_query safe_scrub_size trans_le_add2 simp_thms numeral_le_iff semiring_norm order_refl)

interpretation adcs: packet_app adcs_service_app adcs_env_ok adcs_room
proof unfold_locales
  fix E :: "'w adcs_env" assume "adcs_env_ok E"
  then show "safe (adcs_room E) (adcs_service_app E)"
    unfolding adcs_service_app_def
    by (intro safe_bnd [OF safe_pkt_byte] safe_option safe_ret all_safe_map_of [OF adcs_requests_safe]) (simp_all add: const_simps)
qed

end
