(* ===== verification/Adcs_Properties.thy ===== *)
theory Adcs_Properties
  imports Adcs Comm_Properties
begin

text \<open>
  Properties of the requests to the attitude control system: how the switch dispatches, what the
  conversion of members to 32 bits does to narrower ones, how two-byte parameters are read, and
  which bytes of the logging configuration are returned. The instances use an attitude control
  system that remembers the last command.
\<close>

subsection \<open>The switch\<close>

lemma map_of_numbered:
  assumes "map fst rs = map of_nat [0..<n]" and "n \<le> 256"
  shows "map_of rs (c :: byte) = (if unat c < n then Some (snd (rs ! unat c)) else None)"
proof -
  have len: "length rs = n" using arg_cong [OF assms(1), of length] by simp
  have key: "fst (rs ! i) = of_nat i" if "i < n" for i
    using arg_cong [OF assms(1), of "\<lambda>xs. xs ! i"] that len by simp
  have d: "distinct (map fst rs)"
    unfolding assms(1) using assms(2)
    by (auto simp: distinct_map inj_on_def word_of_nat_eq_iff take_bit_nat_eq_self)
  show ?thesis
  proof (cases "unat c < n")
    case True
    then have "rs ! unat c = (c, snd (rs ! unat c))" using key [of "unat c"] by (simp add: prod_eq_iff)
    then have "(c, snd (rs ! unat c)) \<in> set rs" using True len by (metis nth_mem)
    with True show ?thesis using map_of_is_SomeI [OF d] by simp
  next
    case False
    have "c \<notin> set (map fst rs)"
      unfolding assms(1) using False assms(2) by (auto simp: unat_of_nat)
    then show ?thesis using False by (simp add: map_of_eq_None_iff)
  qed
qed

lemmas adcs_request_defs = adcs_upload_requests_def adcs_boot_requests_def adcs_file_requests_def adcs_memory_requests_def
  adcs_program_requests_def adcs_mode_requests_def adcs_measurement_requests_def adcs_control_requests_def
  adcs_config_requests_def adcs_setting_requests_def

lemma adcs_lengths:
  "length (adcs_upload_requests E) = 14" "length (adcs_boot_requests E) = 7" "length (adcs_file_requests E) = 8"
  "length (adcs_memory_requests E) = 12" "length (adcs_program_requests E) = 13" "length (adcs_mode_requests E) = 14"
  "length (adcs_measurement_requests E) = 11" "length (adcs_control_requests E) = 10" "length (adcs_config_requests E) = 15"
  "length (adcs_setting_requests E) = 4"
  by (simp_all add: adcs_request_defs)

lemma upt_join: "i \<le> j \<Longrightarrow> j \<le> k \<Longrightarrow> [i..<j] @ [j..<k] = [i..<k]"
  using upt_add_eq_append [of i j "k - j"] by simp

lemma upt_108: "map of_nat [0..<108] = (map of_nat [0..<14] @ map of_nat [14..<21] @ map of_nat [21..<29] @ map of_nat [29..<41] @
    map of_nat [41..<54] @ map of_nat [54..<68] @ map of_nat [68..<79] @ map of_nat [79..<89] @ map of_nat [89..<104] @
    map of_nat [104..<108] :: byte list)"
  by (simp del: map_append upt_rec_numeral add: map_append [symmetric] upt_join)

lemma adcs_keys: "map fst (adcs_requests E) = map of_nat [0..<108]"
  unfolding upt_108 adcs_requests_def map_append
  by (intro arg_cong2 [where f = append]) (simp_all add: adcs_request_defs const_simps upt_rec)

lemma adcs_switch:
  assumes "data s \<noteq> []"
  shows "adcs_service_app E s =
    (if unat (data s ! 0) < 108 then snd (adcs_requests E ! unat (data s ! 0)) s else Inr (SATR_OK, s))"
  using assms by (simp add: adcs_service_app_def prog_simps const_simps map_of_numbered [OF adcs_keys])

text \<open>C30: The switch of the attitude control service has a case for each of the 108 subservices, in their
  order; every other request is left as it is and answered with SATR_OK, so that it is sent back
  unchanged.\<close>

theorem adcs_dispatch:
  assumes "data s \<noteq> []"
  shows "adcs_service_app E s =
    (if unat (data s ! 0) < 108 then snd (adcs_requests E ! unat (data s ! 0)) s else Inr (SATR_OK, s))"
  using assms by (rule adcs_switch)

subsection \<open>Members of structures\<close>

definition fits :: "member \<Rightarrow> bool" where
  "fits m \<longleftrightarrow> assign (m_type m) (m_val m) = m_val m"

lemma hton_members_at:
  "distinct names \<Longrightarrow> hton_members ce names x n = (if n \<in> set names then hton_member ce (x n) else x n)"
  unfolding hton_members_def by (induction names arbitrary: x) auto

lemma hton32_word:
  assumes "csp_endian_ok ce"
  shows "csp_hton32 ce v = (case host ce of SYS_BIG_ENDIAN \<Rightarrow> v
    | SYS_LITTLE_ENDIAN \<Rightarrow> of_bytes SYS_LITTLE_ENDIAN (to_bytes SYS_BIG_ENDIAN 4 v))"
proof -
  have "net_order (host ce) 4 (csp_hton32 ce) (csp_ntoh32 ce)" using assms by (simp add: csp_endian_ok_def)
  from net_order.hton_of_bytes [OF this, of v] show ?thesis by (cases "host ce") simp_all
qed

lemma hton32_zero: "csp_endian_ok ce \<Longrightarrow> csp_hton32 ce v = 0 \<longleftrightarrow> v = 0"
proof -
  assume ce: "csp_endian_ok ce"
  then have n: "net_order (host ce) 4 (csp_hton32 ce) (csp_ntoh32 ce)" by (simp add: csp_endian_ok_def)
  have "csp_hton32 ce 0 = 0"
    by (cases "host ce") (simp_all add: hton32_word [OF ce] of_bytes_def to_bytes_def eval_nat_numeral)
  then show "csp_hton32 ce v = 0 \<longleftrightarrow> v = 0" using net_order.hton_inj [OF n, of v 0] by simp
qed

lemma to_bytes_4: "to_bytes SYS_BIG_ENDIAN 4 (v :: u32) = [ucast (drop_bit 24 v), ucast (drop_bit 16 v), ucast (drop_bit 8 v), ucast v]"
  by (simp add: to_bytes_def eval_nat_numeral)

lemma bit_swapped:
  "i < 16 \<Longrightarrow> bit (of_bytes SYS_LITTLE_ENDIAN (to_bytes SYS_BIG_ENDIAN 4 (v :: u32)) :: u32) i \<longleftrightarrow>
    bit v (if i < 8 then 24 + i else 8 + i)"
  unfolding to_bytes_4 of_bytes_def by (auto simp: bit_simps add.commute dest: bit_imp_le_length)

lemma swapped_low:
  assumes hi: "\<And>i. 16 \<le> i \<Longrightarrow> i < 32 \<Longrightarrow> bit (v :: u32) i \<longleftrightarrow> b" and n: "n \<le> 16"
  shows "take_bit n (of_bytes SYS_LITTLE_ENDIAN (to_bytes SYS_BIG_ENDIAN 4 v) :: u32) = (if b then mask n else 0)"
proof (rule bit_word_eqI)
  fix i assume "i < LENGTH(32)"
  show "bit (take_bit n (of_bytes SYS_LITTLE_ENDIAN (to_bytes SYS_BIG_ENDIAN 4 v) :: u32)) i \<longleftrightarrow> bit (if b then mask n else 0 :: u32) i"
    using hi [of "if i < 8 then 24 + i else 8 + i"] n by (auto simp: bit_take_bit_iff bit_mask_iff bit_swapped)
qed

text \<open>C31: The conversion of the members of a structure: on a little-endian host a truth value survives, a
  32-bit member is put into network order, an unsigned member of at most 16 bits becomes zero
  whatever it was and a signed one keeps its sign only; on a big-endian host no member changes.\<close>

theorem adcs_members_on_wire:
  assumes ce: "csp_endian_ok ce" and d: "distinct names" and n: "n \<in> set names" and v: "fits (x n)"
    and t: "m_type (x n) \<in> {CBool, CUnsigned 8, CUnsigned 16, CUnsigned 32, CSigned 8, CSigned 16, CSigned 32}"
  shows "m_val (hton_members ce names x n) =
    (case host ce of SYS_BIG_ENDIAN \<Rightarrow> m_val (x n)
     | SYS_LITTLE_ENDIAN \<Rightarrow> (case m_type (x n) of CBool \<Rightarrow> m_val (x n)
        | CUnsigned k \<Rightarrow> if k = 32 then of_bytes SYS_LITTLE_ENDIAN (to_bytes SYS_BIG_ENDIAN 4 (m_val (x n))) else 0
        | CSigned k \<Rightarrow> if k = 32 then of_bytes SYS_LITTLE_ENDIAN (to_bytes SYS_BIG_ENDIAN 4 (m_val (x n)))
            else if bit (m_val (x n)) (k - 1) then mask k else 0))"
    (is "?l = ?r")
proof -
  let ?v = "m_val (x n)"
  have l: "?l = assign (m_type (x n)) (csp_hton32 ce (to_uint32 (x n)))"
    by (simp add: hton_members_at [OF d] n hton_member_def)
  have fit: "take_bit k ?v = ?v" if "m_type (x n) = CUnsigned k \<or> m_type (x n) = CSigned k" for k
    using v that by (auto simp: fits_def assign_def)
  have small: "take_bit k (of_bytes SYS_LITTLE_ENDIAN (to_bytes SYS_BIG_ENDIAN 4 ?v) :: u32) = 0"
    if "m_type (x n) = CUnsigned k" "k \<le> 16" for k
  proof -
    have "\<not> bit ?v i" if "16 \<le> i" for i
      using fit [of k] that \<open>m_type (x n) = CUnsigned k\<close> \<open>k \<le> 16\<close> by (metis bit_take_bit_iff leD le_trans)
    then show ?thesis using swapped_low [of ?v False k] that(2) by simp
  qed
  have sign: "take_bit k (of_bytes SYS_LITTLE_ENDIAN (to_bytes SYS_BIG_ENDIAN 4 (signed_take_bit (k - 1) ?v)) :: u32) =
      (if bit ?v (k - 1) then mask k else 0)" if "0 < k" "k \<le> 16" for k
    using that by (intro swapped_low) (auto simp: bit_simps min_def)
  have restored: "take_bit k (signed_take_bit (k - 1) ?v) = ?v" if "m_type (x n) = CSigned k" "0 < k" for k
    using fit [of k] that by (simp add: take_bit_signed_take_bit)
  have whole: "take_bit 32 w = w" "signed_take_bit 31 w = w" for w :: u32
  proof -
    show "take_bit 32 w = w" by (simp add: take_bit_word_eq_self)
    have "min i 31 = i" if "i < 32" for i :: nat using that by simp
    then show "signed_take_bit 31 w = w" by (intro bit_word_eqI) (simp add: bit_signed_take_bit_iff)
  qed
  show ?thesis
  proof (cases "host ce")
    case SYS_BIG_ENDIAN
    then show ?thesis
      using v t restored [of 8] restored [of 16] by (elim insertE emptyE)
        (simp_all add: l hton32_word [OF ce] to_uint32_def fits_def assign_def whole)
  next
    case SYS_LITTLE_ENDIAN
    then show ?thesis
      using v t small [of 8] small [of 16] sign [of 8] sign [of 16] hton32_zero [OF ce, of ?v] by (elim insertE emptyE)
        (simp_all add: l hton32_word [OF ce] to_uint32_def fits_def assign_def whole split: if_splits)
  qed
qed

subsection \<open>Parameters and replies\<close>

lemma adcs_request_nth:
  "adcs_requests E ! 6 = (ADCS_LOAD_FILE_DOWNLOAD_BLOCK, load_file_download_block E)"
  "adcs_requests E ! 25 = (ADCS_GET_UPLOAD_CRC16_CHECKSUM, bnd (hal (adcs_u16 E HAL_ADCS_get_upload_crc16_checksum))
      (\<lambda>(status, checksum). sized_reply E status (u16_bytes E checksum)))"
  "adcs_requests E ! 86 = (ADCS_GET_LOG_CONFIG, get_log_config E)"
  unfolding adcs_requests_def
  by (simp_all only: nth_append adcs_lengths length_append) (simp_all add: adcs_request_defs nth_Cons_numeral)

lemma adcs_case:
  assumes "data s \<noteq> []" "data s ! 0 = c" "unat c < 108" "adcs_requests E ! unat c = (c', m)"
  shows "adcs_service_app E s = m s"
  using assms by (simp add: adcs_switch)

lemma read_u32_value:
  "csp_endian_ok ce \<Longrightarrow> length bs = 4 \<Longrightarrow> csp_ntoh32 ce (cnv8_32 (host ce) bs) = of_bytes SYS_BIG_ENDIAN bs"
  using net_order.ntoh_decode [of "host ce" 4 "csp_hton32 ce" "csp_ntoh32 ce" bs]
  by (simp add: csp_endian_ok_def cnv_of_bytes)

lemma read_u16_value:
  "csp_endian_ok ce \<Longrightarrow> length bs = 2 \<Longrightarrow> csp_ntoh16 ce (cnv8_16 (host ce) bs) = of_bytes SYS_LITTLE_ENDIAN bs"
  using net_order.ntoh_decode [of "host ce" 2 "csp_hton16 ce" "csp_ntoh16 ce" "rev bs"]
  by (simp add: csp_endian_ok_def cnv8_16_of_bytes of_bytes_rev)

text \<open>C32: LOAD_FILE_DOWNLOAD_BLOCK reads its offset as a big-endian and its length as a little-endian
  number, on a host of either byte order.\<close>

theorem adcs_load_block:
  assumes ce: "csp_endian_ok (adcs_ce E)" and p: "data s = [6, file_type, counter] @ off @ len @ rest"
    and len: "length off = 4" "length len = 2"
    and h: "adcs_command E (HAL_ADCS_load_file_download_block file_type counter (of_bytes SYS_BIG_ENDIAN off)
      (of_bytes SYS_LITTLE_ENDIAN len)) (world s) = (status, w)"
  shows "adcs_service_app E s = Inr (SATR_OK, s\<lparr>world := w, packet := status_packet status (packet s)\<rparr>)"
proof -
  have "data s \<noteq> []" "data s ! 0 = 6" "unat (6 :: byte) = 6" using p by simp_all
  then have "adcs_service_app E s = load_file_download_block E s"
    using adcs_case [of s 6 E] adcs_request_nth(1) [of E] by simp
  also have "\<dots> = Inr (SATR_OK, s\<lparr>world := w, packet := status_packet status (packet s)\<rparr>)"
    using h len by (simp add: load_file_download_block_def command0_def prog_simps const_simps p
        read_u32_value [OF ce] read_u16_value [OF ce])
  finally show ?thesis .
qed

lemma adcs_checksum_zero:
  assumes ce: "csp_endian_ok (adcs_ce E)" "host (adcs_ce E) = SYS_LITTLE_ENDIAN"
    and p: "data s ! 0 = 25" "4 \<le> length (data s)"
    and h: "adcs_u16 E HAL_ADCS_get_upload_crc16_checksum (world s) = ((status, checksum), w)"
  shows "adcs_service_app E s = Inr (if 2 + 1 > adcs_buffer_size E then SATR_ERROR else SATR_OK,
    s\<lparr>world := w, packet := data_packet status [0, 0] (packet s)\<rparr>)"
proof -
  have z: "hton_u16 (adcs_ce E) checksum = 0"
  proof (rule bit_word_eqI)
    fix i assume "i < LENGTH(16)"
    then show "bit (hton_u16 (adcs_ce E) checksum) i \<longleftrightarrow> bit (0 :: u16) i"
      using bit_swapped [of i "ucast checksum"]
      by (auto simp: hton_u16_def hton32_word [OF ce(1)] ce(2) bit_simps dest: bit_imp_le_length)
  qed
  have "data s \<noteq> []" "unat (25 :: byte) = 25" using p by auto
  then have "adcs_service_app E s =
      bnd (hal (adcs_u16 E HAL_ADCS_get_upload_crc16_checksum)) (\<lambda>(status, checksum). sized_reply E status (u16_bytes E checksum)) s"
    using adcs_case [of s 25 E] adcs_request_nth(2) [of E] p(1) by simp
  then show ?thesis
    using p(2) h by (simp add: prog_simps sized_reply_def u16_bytes_def z ce(2) to_bytes_2)
qed

lemma overlay_inside:
  "i + length ys \<le> length xs \<Longrightarrow> k + length xs \<le> length bs \<Longrightarrow>
    overlay (k + i) ys (overlay k xs bs) = overlay k (overlay i ys xs) bs"
  by (rule nth_equalityI) (auto simp: nth_overlay)

text \<open>C33: The reply to GET_LOG_CONFIG holds the period, the destination and the log number in the place of
  the flags 1 to 4: six of the ten flags arrive, and the last four of its bytes are those of the
  request.\<close>

theorem adcs_log_config_overlaps:
  assumes p: "data s ! 0 = 86" "16 \<le> length (data s)" and f: "length flags = 10"
    and h: "HAL_ADCS_get_log_config E 0 (world s) = ((status, flags, period, dest), w)"
  shows "adcs_service_app E s = Inr (if 15 > adcs_buffer_size E then SATR_ERROR else SATR_OK, s\<lparr>world := w, packet :=
    \<lparr>pkt_length = 16, pkt_data = overlay 1
      ([status, flags ! 0] @ to_bytes (host (adcs_ce E)) 2 period @ [dest, 0] @ drop 5 flags) (data s)\<rparr>\<rparr>)"
proof -
  let ?pd = "to_bytes (host (adcs_ce E)) 2 period"
  have "data s \<noteq> []" "unat (86 :: byte) = 86" using p by auto
  then have "adcs_service_app E s = get_log_config E s"
    using adcs_case [of s 86 E] adcs_request_nth(3) [of E] p(1) by simp
  moreover obtain f0 f1 f2 f3 f4 f5 where fl: "flags = [f0, f1, f2, f3, f4] @ f5"
    using f by (auto simp: eval_nat_numeral length_Suc_conv)
  then have f5: "length f5 = 5" using f by simp
  obtain p0 p1 where pd: "?pd = [p0, p1]" by (cases "host (adcs_ce E)") (auto simp: to_bytes_2)
  have "overlay 6 [0] (overlay 5 [dest] (overlay 3 ?pd (overlay 2 flags (overlay 1 [status] (data s))))) =
      overlay 1 ([status, flags ! 0] @ ?pd @ [dest, 0] @ drop 5 flags) (data s)"
  proof -
    have 1: "overlay 2 flags (overlay 1 [status] (data s)) = overlay 1 (status # flags) (data s)"
      using overlay_adjacent [of 1 "[status]" flags "data s"] p(2) f by (simp add: numeral_2_eq_2)
    have 2: "overlay 3 ?pd (overlay 1 (status # flags) (data s)) = overlay 1 (overlay 2 ?pd (status # flags)) (data s)"
      using overlay_inside [of 2 ?pd "status # flags" 1 "data s"] p(2) f by (simp add: numeral_3_eq_3)
    have 3: "overlay 5 [dest] (overlay 1 xs (data s)) = overlay 1 (overlay 4 [dest] xs) (data s)" if "length xs = 11" for xs
      using overlay_inside [of 4 "[dest]" xs 1 "data s"] p(2) that by simp
    have 4: "overlay 6 [0] (overlay 1 xs (data s)) = overlay 1 (overlay 5 [0] xs) (data s)" if "length xs = 11" for xs
      using overlay_inside [of 5 "[0]" xs 1 "data s"] p(2) that by simp
    have "overlay 5 [0] (overlay 4 [dest] (overlay 2 ?pd (status # flags))) = [status, flags ! 0] @ ?pd @ [dest, 0] @ drop 5 flags"
      using f5 by (simp add: fl pd overlay_def)
    then show ?thesis using f by (simp add: 1 [simplified] 2 [simplified] 3 [simplified] 4 [simplified])
  qed
  ultimately show ?thesis
    using p f h by (simp add: get_log_config_def prog_simps const_simps Let_def)
qed

subsection \<open>An attitude control system\<close>

text \<open>Its world is the list of the commands it was given.\<close>

definition board_adcs :: "adcs_command list adcs_env" where
  "board_adcs = \<lparr>adcs_command = (\<lambda>c w. (0, w @ [c])), adcs_query = (\<lambda>q w. ((0, [1, 2, 3]), w)),
     adcs_struct = (\<lambda>q w. ((0, (\<lambda>n. \<lparr>m_type = CUnsigned 16, m_val = 7\<rparr>)), w)), adcs_flags = (\<lambda>q w. ((0, True, False), w)),
     adcs_flag = (\<lambda>q w. ((0, True), w)), adcs_u16 = (\<lambda>q w. ((0, 7), w)), adcs_u8 = (\<lambda>q w. ((0, 7), w)),
     HAL_ADCS_get_ASGP4 = (\<lambda>w. ((0, True, 0, [1, 2]), w)), HAL_ADCS_set_log_config = (\<lambda>f p d l w. ((0, replicate 10 1), w)),
     HAL_ADCS_get_log_config = (\<lambda>l w. ((0, replicate 10 1, 18, 2), w)),
     struct_repr = (\<lambda>q x. to_bytes SYS_LITTLE_ENDIAN 2 (m_val (x ''boot_count''))), arg_sizeof = (\<lambda>t. 6),
     adcs_ce = le_host, adcs_buffer_size = 256, junk_char = 0, largest = 6\<rparr>"

lemma board_adcs_ok: "adcs_env_ok board_adcs"
  by (simp add: adcs_env_ok_def board_adcs_def)

lemma board_adcs_sel: "adcs_ce board_adcs = le_host" "adcs_buffer_size board_adcs = 256" "host le_host = SYS_LITTLE_ENDIAN"
  "largest board_adcs = 6" "HAL_ADCS_get_log_config board_adcs l w = ((0, replicate 10 1, 18, 2), w)"
  by (simp_all add: board_adcs_def le_host_def)

lemma adcs_dispatch_instance:
  "adcs_service_app board_adcs (request 200 [1, 2] []) = Inr (SATR_OK, request 200 [1, 2] [])"
  using adcs_dispatch [of "request 200 [1, 2] []" board_adcs] by (simp add: request_sel)

lemma adcs_members_on_wire_instance:
  "let x = (\<lambda>n. if n = ''boot_idx'' then \<lparr>m_type = CSigned 16, m_val = 0xFFF9\<rparr> else \<lparr>m_type = CUnsigned 16, m_val = 7\<rparr>) in
    m_val (hton_members le_host [''boot_count'', ''boot_idx''] x ''boot_count'') = 0 \<and>
    m_val (hton_members le_host [''boot_count'', ''boot_idx''] x ''boot_idx'') = mask 16"
  using adcs_members_on_wire [OF le_host_ok, of "[''boot_count'', ''boot_idx'']" "''boot_count''"
      "\<lambda>n. if n = ''boot_idx'' then \<lparr>m_type = CSigned 16, m_val = 0xFFF9\<rparr> else \<lparr>m_type = CUnsigned 16, m_val = 7\<rparr>"]
    adcs_members_on_wire [OF le_host_ok, of "[''boot_count'', ''boot_idx'']" "''boot_idx''"
      "\<lambda>n. if n = ''boot_idx'' then \<lparr>m_type = CSigned 16, m_val = 0xFFF9\<rparr> else \<lparr>m_type = CUnsigned 16, m_val = 7\<rparr>"]
  by (simp add: fits_def assign_def board_adcs_sel bit_numeral_word_iff)

lemma adcs_load_block_instance:
  "adcs_service_app board_adcs (request 6 ([1, 2] @ [0, 0, 1, 0] @ [0, 2] @ []) []) = Inr (SATR_OK,
    (request 6 ([1, 2] @ [0, 0, 1, 0] @ [0, 2] @ []) [])\<lparr>
      world := [HAL_ADCS_load_file_download_block 1 2 (of_bytes SYS_BIG_ENDIAN [0, 0, 1, 0]) (of_bytes SYS_LITTLE_ENDIAN [0, 2])],
      packet := status_packet 0 (packet_of [6, 1, 2, 0, 0, 1, 0, 0, 2])\<rparr>)"
  using adcs_load_block [of board_adcs "request 6 ([1, 2] @ [0, 0, 1, 0] @ [0, 2] @ []) []" 1 2 "[0, 0, 1, 0]" "[0, 2]" "[]" 0
      "[HAL_ADCS_load_file_download_block 1 2 (of_bytes SYS_BIG_ENDIAN [0, 0, 1, 0]) (of_bytes SYS_LITTLE_ENDIAN [0, 2])]"]
  by (simp add: board_adcs_sel le_host_ok request_sel request_packet board_adcs_def)

lemma adcs_log_config_overlaps_instance:
  "adcs_service_app board_adcs (request 86 (replicate 20 9) []) = Inr (SATR_OK, (request 86 (replicate 20 9) [])\<lparr>packet :=
    \<lparr>pkt_length = 16, pkt_data = 86 # [0, 1, 18, 0, 2, 0] @ replicate 5 1 @ replicate 9 9\<rparr>\<rparr>)"
  using adcs_log_config_overlaps [of "request 86 (replicate 20 9) []" "replicate 10 1" board_adcs 0 18 2 "[]"]
  by (simp add: board_adcs_sel request_sel to_bytes_2 overlay_def)

end
