(* ===== verification/Response.thy ===== *)
theory Response
  imports Startup
begin

text \<open>
  \<^verbatim>\<open>Services/source/response/service_response.c\<close>: the queue through which any task may hand over a
  packet, and the task that sends these packets back to their senders. The queue of FreeRTOS holds
  pointers to packets, here handles of buffers. A packet carries its identifier; what libcsp
  does on a connection, also on the one that is \<^verbatim>\<open>NULL\<close>, is a parameter.

  The tasks run side by side: \<open>response_run\<close> is the relation between a state and those that any
  interleaving of their steps leads to, with the buffers accepted and served on the way.
\<close>

subsection \<open>The queue and its task\<close>

definition RESPONSE_QUEUE_LEN :: nat where [const_simps]: "RESPONSE_QUEUE_LEN = 3"

record packet_id =
  id_src :: byte
  id_dport :: byte

record 'w response_env =
  csp_connect :: "byte \<Rightarrow> byte \<Rightarrow> 'w \<Rightarrow> nat option \<times> 'w"
  conn_ops :: "nat option \<Rightarrow> 'w csp_ops"
  csp_close :: "nat option \<Rightarrow> 'w \<Rightarrow> 'w"

record 'w response_state =
  response_queue :: "nat list"
  packet_ids :: "nat \<Rightarrow> packet_id"
  rpool :: "'w pool"

definition in_pool :: "('w pool, 'a) prog \<Rightarrow> ('w response_state, 'a) prog" where
  "in_pool m = (\<lambda>s. case m (rpool s) of Inl e \<Rightarrow> Inl e | Inr (a, p) \<Rightarrow> Inr (a, s\<lparr>rpool := p\<rparr>))"

definition packet_id_of :: "nat \<Rightarrow> ('w response_state, packet_id) prog" where
  "packet_id_of h = (\<lambda>s. if bufs (rpool s) h = None then Inl UseAfterFree else Inr (packet_ids s h, s))"

text \<open>
  A task waits for room in the queue, or for an item, for one tick; then the call fails.
\<close>

definition queue_response :: "nat \<Rightarrow> ('w response_state, SAT_returnState) prog" where
  "queue_response h = (\<lambda>s.
     if length (response_queue s) < RESPONSE_QUEUE_LEN
     then Inr (SATR_OK, s\<lparr>response_queue := response_queue s @ [h]\<rparr>)
     else Inr (SATR_ERROR, s))"

definition xQueueReceive :: "('w response_state, nat option) prog" where
  "xQueueReceive = (\<lambda>s. case response_queue s of
     [] \<Rightarrow> Inr (None, s)
   | h # q \<Rightarrow> Inr (Some h, s\<lparr>response_queue := q\<rparr>))"

text \<open>One iteration of \<^verbatim>\<open>service_response_task\<close>. A failed connection is only logged.\<close>

definition service_response_round :: "'w response_env \<Rightarrow> ('w response_state, unit) prog" where
  "service_response_round E =
     bnd xQueueReceive (\<lambda>r. case r of
       None \<Rightarrow> ret ()
     | Some h \<Rightarrow>
         bnd (packet_id_of h) (\<lambda>i.
         bnd (in_pool (on_world (\<lambda>w. Inr (csp_connect E (id_src i) (id_dport i) w)))) (\<lambda>conn.
         bnd (in_pool (csp_send (conn_ops E conn) h)) (\<lambda>ok.
         andthen (if \<not> ok then in_pool (csp_buffer_free h) else ret ())
                 (in_pool (on_world (\<lambda>w. Inr ((), csp_close E conn w))))))))"

primrec service_response_rounds :: "'w response_env \<Rightarrow> nat \<Rightarrow> ('w response_state, unit) prog" where
  "service_response_rounds E 0 = ret ()"
| "service_response_rounds E (Suc n) = andthen (service_response_round E) (service_response_rounds E n)"

text \<open>The start: the queue first, then the task, which is not registered with the task manager.\<close>

definition start_service_response ::
  "'w boot_env \<Rightarrow> (nat \<Rightarrow> 'w \<Rightarrow> bool \<times> 'w) \<Rightarrow> nat \<Rightarrow> ('w, SAT_returnState) prog" where
  "start_service_response E xQueueCreate configMAX_PRIORITIES =
     bnd (\<lambda>w. Inr (xQueueCreate RESPONSE_QUEUE_LEN w)) (\<lambda>made.
     if \<not> made then ret SATR_ERROR
     else bnd (create E \<lparr>t_code = Service_response_task, t_name = ''RESPONSE SERVER'', t_stack = 500,
         t_prio = configMAX_PRIORITIES - 1\<rparr>) (\<lambda>r.
       if r = None then ret SATR_ERROR else ret SATR_OK))"

subsection \<open>One round\<close>

lemma in_pool_run:
  "in_pool m s = (case m (rpool s) of Inl e \<Rightarrow> Inl e | Inr r \<Rightarrow> Inr (fst r, s\<lparr>rpool := snd r\<rparr>))"
  by (simp add: in_pool_def split: sum.splits prod.splits)

lemma round_empty: "response_queue s = [] \<Longrightarrow> service_response_round E s = Inr ((), s)"
  by (simp add: service_response_round_def xQueueReceive_def prog_simps)

lemma round_serves:
  assumes q: "response_queue s = h # q" and b: "bufs (rpool s) h = Some p"
  shows "\<exists>w. service_response_round E s = Inr ((), s\<lparr>response_queue := q,
    rpool := (rpool s)\<lparr>bufs := (bufs (rpool s))(h := None), pworld := w\<rparr>\<rparr>)"
proof -
  obtain conn w1 where c: "csp_connect E (id_src (packet_ids s h)) (id_dport (packet_ids s h)) (pworld (rpool s)) = (conn, w1)"
    by fastforce
  obtain ok w2 where o: "op_send (conn_ops E conn) p w1 = (ok, w2)" by fastforce
  show ?thesis
    using q b c o
    by (cases ok) (auto simp: service_response_round_def xQueueReceive_def packet_id_of_def in_pool_run on_world_def csp_send_def
        csp_buffer_free_def prog_simps)
qed

subsection \<open>All tasks together\<close>

text \<open>
  A service may receive a packet, keep it to itself, release it, or queue a buffer that it owns and
  has not queued before; the task for the responses may do a round at any time. Histories:
  the handles that \<open>queue_response\<close> has accepted, and those that have left the queue.
\<close>

inductive response_run ::
  "'w response_env \<Rightarrow> 'w response_state \<Rightarrow> nat list \<Rightarrow> nat list \<Rightarrow> 'w response_state \<Rightarrow> bool" for E s0 where
  begin_run: "response_run E s0 [] [] s0"
| receive: "response_run E s0 acc served s \<Longrightarrow> in_pool (own p) s = Inr (h, s') \<Longrightarrow> ids' = (packet_ids s')(h := i) \<Longrightarrow>
    response_run E s0 acc served (s'\<lparr>packet_ids := ids'\<rparr>)"
| release: "response_run E s0 acc served s \<Longrightarrow> h \<notin> set (response_queue s) \<Longrightarrow>
    in_pool (csp_buffer_free h) s = Inr ((), s') \<Longrightarrow> response_run E s0 acc served s'"
| accepted: "response_run E s0 acc served s \<Longrightarrow> bufs (rpool s) h \<noteq> None \<Longrightarrow> h \<notin> set (response_queue s) \<Longrightarrow>
    queue_response h s = Inr (SATR_OK, s') \<Longrightarrow> response_run E s0 (acc @ [h]) served s'"
| rejected: "response_run E s0 acc served s \<Longrightarrow> queue_response h s = Inr (SATR_ERROR, s') \<Longrightarrow>
    response_run E s0 acc served s'"
| served: "response_run E s0 acc served s \<Longrightarrow> service_response_round E s = Inr ((), s') \<Longrightarrow>
    response_run E s0 acc (served @ take 1 (response_queue s)) s'"

definition response_ok :: "'w response_state \<Rightarrow> bool" where
  "response_ok s \<longleftrightarrow> pool_ok (rpool s) \<and> length (response_queue s) \<le> RESPONSE_QUEUE_LEN \<and> distinct (response_queue s) \<and>
     (\<forall>h\<in>set (response_queue s). bufs (rpool s) h \<noteq> None)"

text \<open>The invariant relates the state to the histories.\<close>

definition response_inv :: "nat list \<Rightarrow> nat list \<Rightarrow> 'w response_state \<Rightarrow> bool" where
  "response_inv acc served s \<longleftrightarrow> response_ok s \<and> acc = served @ response_queue s \<and>
     (\<forall>h\<in>set served. h < nxt (rpool s) \<and> bufs (rpool s) h = None)"

lemma owned_below: "pool_ok p \<Longrightarrow> bufs p h \<noteq> None \<Longrightarrow> h < nxt p"
  by (meson not_le pool_ok_def)

lemma queued_owned:
  assumes "response_inv acc served s" "response_queue s = h # q"
  obtains p where "bufs (rpool s) h = Some p" "h < nxt (rpool s)"
  using assms owned_below [of "rpool s" h] by (auto simp: response_inv_def response_ok_def)

lemma inv_receive:
  assumes "response_inv acc served s" "in_pool (own p) s = Inr (h, s')"
  shows "response_inv acc served (s'\<lparr>packet_ids := ids\<rparr>)"
  using assms by (auto simp: response_inv_def response_ok_def in_pool_run own_def pool_ok_def)

lemma inv_release:
  assumes "response_inv acc served s" "h \<notin> set (response_queue s)" "in_pool (csp_buffer_free h) s = Inr ((), s')"
  shows "response_inv acc served s'"
  using assms by (auto simp: response_inv_def response_ok_def in_pool_run csp_buffer_free_def pool_ok_def split: option.splits)

lemma inv_accepted:
  assumes "response_inv acc served s" "bufs (rpool s) h \<noteq> None" "h \<notin> set (response_queue s)"
    "queue_response h s = Inr (SATR_OK, s')"
  shows "response_inv (acc @ [h]) served s'"
  using assms by (auto simp: response_inv_def response_ok_def queue_response_def split: if_splits)

lemma inv_served:
  assumes inv: "response_inv acc served s" and r: "service_response_round E s = Inr ((), s')"
  shows "response_inv acc (served @ take 1 (response_queue s)) s'"
proof (cases "response_queue s")
  case Nil
  with inv r show ?thesis by (simp add: round_empty)
next
  case (Cons h q)
  with inv obtain p where b: "bufs (rpool s) h = Some p" and n: "h < nxt (rpool s)" by (rule queued_owned)
  show ?thesis
    using n inv r Cons round_serves [OF Cons b, of E] by (auto simp: response_inv_def response_ok_def pool_ok_def)
qed

lemma response_run_inv:
  assumes "response_run E s0 acc served s" "response_ok s0" "response_queue s0 = []"
  shows "response_inv acc served s"
  using assms(1)
proof induction
  case begin_run
  then show ?case using assms(2,3) by (simp add: response_inv_def)
next
  case (receive acc served s p h s' ids' i)
  then show ?case by (blast intro: inv_receive)
next
  case (release acc served s h s')
  then show ?case by (blast intro: inv_release)
next
  case (accepted acc served s h s')
  then show ?case by (blast intro: inv_accepted)
next
  case (rejected acc served s h s')
  then show ?case by (simp add: queue_response_def split: if_splits)
next
  case (served acc served s s')
  then show ?case by (blast intro: inv_served)
qed

text \<open>From every state that the invariant holds in, as many rounds as items are queued empty the queue.\<close>

lemma rounds_drain:
  assumes "response_inv acc served s"
  shows "\<exists>s'. service_response_rounds E (length (response_queue s)) s = Inr ((), s') \<and> response_inv acc acc s'"
  using assms
proof (induction "response_queue s" arbitrary: served s)
  case Nil
  then show ?case by (simp add: response_inv_def prog_simps)
next
  case (Cons h q)
  obtain p where b: "bufs (rpool s) h = Some p" by (rule queued_owned [OF Cons.prems Cons.hyps(2) [symmetric]])
  from round_serves [OF Cons.hyps(2) [symmetric] b, of E] obtain s1 where
    1: "service_response_round E s = Inr ((), s1)" "response_queue s1 = q" by auto
  from Cons.hyps(1) [OF 1(2) [symmetric] inv_served [OF Cons.prems 1(1)]] obtain s' where
    "service_response_rounds E (length q) s1 = Inr ((), s')" "response_inv acc acc s'" using 1(2) by auto
  then show ?case by (simp add: Cons.hyps(2) [symmetric] prog_simps 1(1))
qed

text \<open>C37: Whatever the order in which tasks queue responses, release other buffers and receive packets:
  the responses leave the queue in the order in which they were accepted, at most three wait,
  every served buffer is given up, and as many rounds as responses wait empty the queue without a
  fault.\<close>

theorem responses_in_order:
  assumes "response_ok s0" "response_queue s0 = []" and run: "response_run E s0 acc served s"
  shows "acc = served @ response_queue s \<and> length (response_queue s) \<le> 3 \<and>
    (\<forall>h\<in>set served. bufs (rpool s) h = None) \<and>
    (\<exists>s'. service_response_rounds E (length (response_queue s)) s = Inr ((), s') \<and>
      response_queue s' = [] \<and> (\<forall>h\<in>set acc. bufs (rpool s') h = None))"
proof -
  have inv: "response_inv acc served s" by (rule response_run_inv [OF run assms(1,2)])
  with rounds_drain [OF inv, of E] show ?thesis by (auto simp: response_inv_def response_ok_def const_simps)
qed

end
