(* ===== verification/Cli.thy ===== *)
theory Cli
  imports Cli_Commands
begin

text \<open>
  \<^verbatim>\<open>Services/source/cli/cli.c\<close>, second half: the handler of the command line service, which
  sends one packet per call of the interpreter, and its task. The interpreter is a program over
  the world of the service; it gets the input line, the output buffer and its size. The number of
  its calls is not bounded by the code: the loop has fuel, and running out of it is a fault.
\<close>

subsection \<open>The handler\<close>

record 'w cli_app_env =
  cli_csp :: "'w csp_ops"
  MAX_INPUT_SIZE :: nat
  OUTPUT_SIZE :: nat
  FreeRTOS_CLIProcessCommand :: "bytes \<Rightarrow> bytes \<Rightarrow> nat \<Rightarrow> ('w, bool \<times> bytes) prog"

text \<open>Buffers behind a pointer that may be null. libcsp ignores a null pointer in both calls.\<close>

definition buffer_free :: "nat option \<Rightarrow> ('w pool, unit) prog" where
  "buffer_free h = (case h of None \<Rightarrow> ret () | Some k \<Rightarrow> csp_buffer_free k)"

definition buffer_clone :: "'w csp_ops \<Rightarrow> nat option \<Rightarrow> ('w pool, nat option) prog" where
  "buffer_clone ops h = (case h of None \<Rightarrow> ret None | Some k \<Rightarrow> csp_buffer_clone ops k)"

definition write_output :: "bytes \<Rightarrow> bool \<Rightarrow> ('w hst, unit) prog" where
  "write_output out follow =
     andthen (pkt_write (IN_DATA_BYTE + 1) out) (pkt_write STATUS_BYTE [if follow then 1 else 0])"

primrec cli_loop ::
  "'w cli_app_env \<Rightarrow> bytes \<Rightarrow> nat option \<Rightarrow> nat \<Rightarrow> nat option \<Rightarrow> ('w pool, SAT_returnState) prog" where
  "cli_loop E input original 0 ptr = fault OutOfFuel"
| "cli_loop E input original (Suc n) ptr =
     bnd (on_world (FreeRTOS_CLIProcessCommand E input (replicate (OUTPUT_SIZE E) 0) (OUTPUT_SIZE E))) (\<lambda>(follow, out).
     case ptr of
       None \<Rightarrow> fault NullDeref
     | Some h \<Rightarrow>
         andthen (on_packet h (write_output out follow))
        (bnd (csp_send (cli_csp E) h) (\<lambda>ok.
         if \<not> ok then andthen (buffer_free original) (andthen (csp_buffer_free h) (ret SATR_ERROR))
         else if follow then
           bnd (buffer_clone (cli_csp E) original) (\<lambda>ptr'. cli_loop E input original n ptr')
         else andthen (buffer_free original) (ret SATR_OK))))"

definition cli_app :: "'w cli_app_env \<Rightarrow> nat \<Rightarrow> nat \<Rightarrow> ('w pool, SAT_returnState) prog" where
  "cli_app E fuel h =
     bnd (on_packet h (pkt_byte IN_DATA_BYTE)) (\<lambda>size.
     bnd (on_packet h (pkt_read (IN_DATA_BYTE + 1) (unat size))) (\<lambda>bs.
     if length bs > MAX_INPUT_SIZE E then fault OutOfBounds
     else
       bnd (buffer_clone (cli_csp E) (Some h)) (\<lambda>original.
       cli_loop E (overlay 0 bs (replicate (MAX_INPUT_SIZE E) 0)) original fuel (Some h))))"

text \<open>The step of the task: a packet whose handler fails is released.\<close>

definition cli_step :: "'w cli_app_env \<Rightarrow> nat \<Rightarrow> nat \<Rightarrow> ('w pool, unit) prog" where
  "cli_step E fuel h = bnd (cli_app E fuel h) (\<lambda>status. if status \<noteq> SATR_OK then csp_buffer_free h else ret ())"

definition cli_kicks :: kicks where
  "cli_kicks = \<lparr>k_init = 1, k_iter = 1, k_timeout = 1, k_accept = 1\<rparr>"

definition cli_service :: "'w cli_app_env \<Rightarrow> nat \<Rightarrow> accept list \<Rightarrow> ('w pool, unit) prog" where
  "cli_service E fuel = service_task cli_kicks (cli_step E fuel)"

subsection \<open>The contract of a command\<close>

text \<open>
  What a command looks like from outside: a step on an abstract state \<open>'v\<close> that yields the
  output and whether more will follow. A command line answers with a list of outputs when its
  steps, from the first to the one that announces no more, yield them.
\<close>

type_synonym 'v cli_spec = "'v \<Rightarrow> (bool \<times> bytes) \<times> 'v"

inductive answers :: "'v cli_spec \<Rightarrow> 'v \<Rightarrow> bytes list \<Rightarrow> 'v \<Rightarrow> bool" for I where
  last: "I v = ((False, out), v') \<Longrightarrow> answers I v [out] v'"
| again: "I v = ((True, out), v') \<Longrightarrow> answers I v' outs v'' \<Longrightarrow> answers I v (out # outs) v''"

inductive_simps answers_Nil [simp]: "answers I v [] v'"
inductive_simps answers_Cons: "answers I v (out # outs) v'"

lemma answers_nonempty: "answers I v outs v' \<Longrightarrow> outs \<noteq> []"
  by (cases outs) auto

lemma answers_step:
  "answers I v (out # outs) v'' \<Longrightarrow> \<exists>v1. I v = ((outs \<noteq> [], out), v1) \<and> (if outs = [] then v1 = v'' else answers I v1 outs v'')"
  by (auto simp: answers_Cons dest: answers_nonempty)

text \<open>The packet that carries an output. Its length stays that of the request.\<close>

definition output_packet :: "csp_packet \<Rightarrow> bytes \<Rightarrow> bool \<Rightarrow> csp_packet" where
  "output_packet p out follow = p\<lparr>pkt_data := overlay 1 ((if follow then 1 else 0) # out) (pkt_data p)\<rparr>"

primrec output_packets :: "csp_packet \<Rightarrow> bytes list \<Rightarrow> csp_packet list" where
  "output_packets p [] = []"
| "output_packets p (out # outs) = output_packet p out (outs \<noteq> []) # output_packets p outs"

lemma write_output_run:
  assumes "length out + 2 \<le> length (data s)"
  shows "write_output out follow s = Inr ((), s\<lparr>packet := output_packet (packet s) out follow\<rparr>)"
proof -
  have "overlay 1 [b] (overlay 2 out (data s)) = overlay 1 (b # out) (data s)" for b
    using assms by (intro nth_equalityI) (auto simp: nth_overlay nth_Cons' numeral_2_eq_2)
  then show ?thesis
    using assms by (simp add: write_output_def prog_simps const_simps output_packet_def numeral_2_eq_2)
qed

text \<open>
  The interface between the handler and a command: \<open>env\<close> is the environment of the handler, \<open>line\<close>
  the input it passes on, \<open>inv\<close> and \<open>view\<close> relate the world to the abstract state, \<open>sent\<close> is
  what the network has accepted.
\<close>

locale cli_command =
  fixes wf :: "'e \<Rightarrow> bool"
    and env :: "'e \<Rightarrow> 'w cli_app_env"
    and line :: "'e \<Rightarrow> bytes"
    and inv :: "'e \<Rightarrow> 'w \<Rightarrow> bool"
    and view :: "'e \<Rightarrow> 'w \<Rightarrow> 'v"
    and sent :: "'e \<Rightarrow> 'w \<Rightarrow> csp_packet list"
    and spec :: "'e \<Rightarrow> 'v cli_spec"
  assumes process: "wf e \<Longrightarrow> inv e w \<Longrightarrow> spec e (view e w) = (r, v) \<Longrightarrow>
      \<exists>w'. FreeRTOS_CLIProcessCommand (env e) (line e) (replicate (OUTPUT_SIZE (env e)) 0) (OUTPUT_SIZE (env e)) w = Inr (r, w') \<and>
        inv e w' \<and> view e w' = v \<and> sent e w' = sent e w \<and> length (snd r) = OUTPUT_SIZE (env e)"
    and send: "wf e \<Longrightarrow> inv e w \<Longrightarrow> \<exists>w'. op_send (cli_csp (env e)) p w = (True, w') \<and>
        inv e w' \<and> view e w' = view e w \<and> sent e w' = sent e w @ [p]"
    and clone: "wf e \<Longrightarrow> inv e w \<Longrightarrow> \<exists>w'. op_buffer_clone (cli_csp (env e)) p w = (Some p, w') \<and>
        inv e w' \<and> view e w' = view e w \<and> sent e w' = sent e w"
begin

lemma loop_sends:
  assumes "answers (spec e) (view e (pworld s)) outs v" and "wf e" "inv e (pworld s)" and "length outs \<le> fuel"
    and "pool_ok s" "bufs s h = Some p" "bufs s k = Some p" "h \<noteq> k" and "OUTPUT_SIZE (env e) + 2 \<le> length (pkt_data p)"
  shows "\<exists>n w. cli_loop (env e) (line e) (Some k) fuel (Some h) s =
      Inr (SATR_OK, s\<lparr>bufs := (bufs s)(h := None, k := None), nxt := n, pworld := w\<rparr>) \<and>
    inv e w \<and> view e w = v \<and> sent e w = sent e (pworld s) @ output_packets p outs"
  using assms
proof (induction outs arbitrary: s h fuel)
  case Nil
  then show ?case by simp
next
  case (Cons out outs)
  let ?net = "cli_csp (env e)"
  obtain f where f: "fuel = Suc f" using Cons.prems(4) by (cases fuel) auto
  define follow where "follow \<longleftrightarrow> outs \<noteq> []"
  from answers_step [OF Cons.prems(1)] obtain v1 where
    st: "spec e (view e (pworld s)) = ((follow, out), v1)" "follow = (outs \<noteq> [])"
      "follow \<Longrightarrow> answers (spec e) v1 outs v" "\<not> follow \<Longrightarrow> v1 = v"
    by (auto simp: follow_def split: if_splits)
  from process [OF Cons.prems(2,3) st(1)] obtain w1 where
    w1: "FreeRTOS_CLIProcessCommand (env e) (line e) (replicate (OUTPUT_SIZE (env e)) 0) (OUTPUT_SIZE (env e)) (pworld s) =
      Inr ((follow, out), w1)" "inv e w1" "view e w1 = v1" "sent e w1 = sent e (pworld s)" "length out = OUTPUT_SIZE (env e)"
    by auto
  let ?q = "output_packet p out follow"
  from send [OF Cons.prems(2) w1(2), of ?q] obtain w2 where
    w2: "op_send ?net ?q w1 = (True, w2)" "inv e w2" "view e w2 = v1" "sent e w2 = sent e (pworld s) @ [?q]"
    using w1(3,4) by auto
  have wr: "write_output out b \<lparr>packet = p, world = w1\<rparr> = Inr ((), \<lparr>packet = output_packet p out b, world = w1\<rparr>)" for b
    using write_output_run [of out "\<lparr>packet = p, world = w1\<rparr>" b] w1(5) Cons.prems(9) by simp
  note run = f prog_simps pool_op_defs w1(1) w2(1) wr Cons.prems(6,7) buffer_free_def buffer_clone_def
  show ?case
  proof (cases follow)
    case False
    with st(2,4) w2 Cons.prems(8) show ?thesis
      by (intro exI [of _ "nxt s"] exI [of _ w2]) (simp add: run, rule pool.equality, auto)
  next
    case True
    from clone [OF Cons.prems(2) w2(2), of p] obtain w3 where
      w3: "op_buffer_clone ?net p w2 = (Some p, w3)" "inv e w3" "view e w3 = v1" "sent e w3 = sent e (pworld s) @ [?q]"
      using w2(3,4) by auto
    let ?h = "nxt s"
    let ?s = "s\<lparr>bufs := (bufs s)(h := None, ?h \<mapsto> p), nxt := Suc ?h, pworld := w3\<rparr>"
    have fresh: "bufs s ?h = None" "?h \<noteq> h" "?h \<noteq> k" using Cons.prems(5-7) by (auto simp: pool_ok_def)
    have "pool_ok ?s" "bufs ?s ?h = Some p" "bufs ?s k = Some p" "inv e (pworld ?s)" "length outs \<le> f"
      using Cons.prems(4,5,7,8) fresh w3(2) f by (auto simp: pool_ok_def)
    moreover have "answers (spec e) (view e (pworld ?s)) outs v" using st(3) True w3(3) by simp
    ultimately obtain n w where
      ih: "cli_loop (env e) (line e) (Some k) f (Some ?h) ?s =
        Inr (SATR_OK, ?s\<lparr>bufs := (bufs ?s)(?h := None, k := None), nxt := n, pworld := w\<rparr>)"
      "inv e w" "view e w = v" "sent e w = sent e (pworld ?s) @ output_packets p outs"
      using Cons.IH [of ?s f ?h] Cons.prems(2,9) fresh(3) by blast
    have "(bufs ?s)(?h := None, k := None) = (bufs s)(h := None, k := None)" using fresh by (auto simp: fun_eq_iff)
    with ih w2(1) w3(1,4) True st(2) fresh Cons.prems(7,8) show ?thesis
      by (intro exI [of _ n] exI [of _ w]) (simp add: run, rule pool.equality, auto)
  qed
qed

lemma app_sends:
  assumes e: "wf e" "inv e (pworld s)" and a: "answers (spec e) (view e (pworld s)) outs v" and f: "length outs \<le> fuel"
    and P: "pool_ok s" "bufs s h = Some p" and room: "OUTPUT_SIZE (env e) + 2 \<le> length (pkt_data p)"
    and size: "k = unat (pkt_data p ! 1)" "k + 2 \<le> length (pkt_data p)" "k \<le> MAX_INPUT_SIZE (env e)"
    and line: "line e = take k (drop 2 (pkt_data p)) @ replicate (MAX_INPUT_SIZE (env e) - k) 0"
  shows "\<exists>n w. cli_app (env e) fuel h s = Inr (SATR_OK, s\<lparr>bufs := (bufs s)(h := None), nxt := n, pworld := w\<rparr>) \<and>
    inv e w \<and> view e w = v \<and> sent e w = sent e (pworld s) @ output_packets p outs"
proof -
  let ?k = "nxt s"
  from clone [OF e, of p] obtain w where
    w: "op_buffer_clone (cli_csp (env e)) p (pworld s) = (Some p, w)" "inv e w" "view e w = view e (pworld s)"
      "sent e w = sent e (pworld s)" by blast
  have fresh: "bufs s ?k = None" "h \<noteq> ?k" using P by (auto simp: pool_ok_def)
  let ?s = "s\<lparr>bufs := (bufs s)(?k \<mapsto> p), nxt := Suc ?k, pworld := w\<rparr>"
  have "pool_ok ?s" "bufs ?s h = Some p" "bufs ?s ?k = Some p" "inv e (pworld ?s)"
    "answers (spec e) (view e (pworld ?s)) outs v"
    using P fresh w a by (auto simp: pool_ok_def)
  from loop_sends [OF this(5) e(1) this(4) f this(1,2,3) fresh(2) room] obtain n w' where
    l: "cli_loop (env e) (line e) (Some ?k) fuel (Some h) ?s =
      Inr (SATR_OK, ?s\<lparr>bufs := (bufs ?s)(h := None, ?k := None), nxt := n, pworld := w'\<rparr>)"
      "inv e w'" "view e w' = v" "sent e w' = sent e (pworld ?s) @ output_packets p outs" by blast
  have b: "(bufs ?s)(h := None, ?k := None) = (bufs s)(h := None)" using fresh by (auto simp: fun_eq_iff)
  have ln: "overlay 0 (take k (drop 2 (pkt_data p))) (replicate (MAX_INPUT_SIZE (env e)) 0) = line e"
    using size by (simp add: overlay_def line)
  have same: "(bufs s)(h \<mapsto> p) = bufs s" using P(2) by auto
  have sz: "unat (pkt_data p ! Suc 0) = k" using size(1) by simp
  have "1 < length (pkt_data p)" using room by simp
  then show ?thesis
    using size(2,3) l w(1,4) P(2) fresh same ln b
    by (intro exI [of _ n] exI [of _ w'])
      (simp add: cli_app_def prog_simps const_simps pool_op_defs buffer_clone_def numeral_2_eq_2 sz)
qed

end

subsection \<open>A reply that cannot be sent\<close>

text \<open>
  The handler releases the packet and reports an error; the task releases it once more.
\<close>

lemma buffer_free_None: "buffer_free h s = Inr (u, t) \<Longrightarrow> nxt t = nxt s \<and> (bufs s i = None \<longrightarrow> bufs t i = None)"
  by (auto simp: buffer_free_def csp_buffer_free_def prog_simps split: option.splits)

lemma buffer_clone_None:
  "buffer_clone ops h s = Inr (ptr, t) \<Longrightarrow> i < nxt s \<Longrightarrow> bufs s i = None \<Longrightarrow> i < nxt t \<and> bufs t i = None \<and> ptr \<noteq> Some i"
  by (auto simp: buffer_clone_def csp_buffer_clone_def take_buffer_def prog_simps split: option.splits prod.splits)

lemma cli_loop_error:
  "cli_loop E input original fuel ptr s = Inr (st, t) \<Longrightarrow> st \<noteq> SATR_OK \<Longrightarrow> h < nxt s \<Longrightarrow> bufs s h = None \<or> ptr = Some h \<Longrightarrow>
   bufs t h = None"
proof (induction fuel arbitrary: ptr s)
  case 0
  then show ?case by (simp add: prog_simps)
next
  case (Suc n)
  from Suc.prems(1) obtain follow out w g where
    a: "FreeRTOS_CLIProcessCommand E input (replicate (OUTPUT_SIZE E) 0) (OUTPUT_SIZE E) (pworld s) = Inr ((follow, out), w)"
      "ptr = Some g"
    by (auto simp: prog_simps on_world_def split: sum.splits option.splits)
  let ?s = "s\<lparr>pworld := w\<rparr>"
  from Suc.prems(1) a obtain s1 where 1: "on_packet g (write_output out follow) ?s = Inr ((), s1)"
    by (auto simp: prog_simps on_world_def split: sum.splits)
  then have s1: "nxt s1 = nxt s" "h \<noteq> g \<Longrightarrow> bufs s1 h = bufs s h"
    by (auto simp: on_packet_def split: option.splits sum.splits)
  from Suc.prems(1) a 1 obtain ok s2 where 2: "csp_send (cli_csp E) g s1 = Inr (ok, s2)"
    by (auto simp: prog_simps on_world_def split: sum.splits)
  then have s2: "nxt s2 = nxt s" "h \<noteq> g \<Longrightarrow> bufs s2 h = bufs s h" "ok \<Longrightarrow> bufs s2 g = None"
    using s1 by (auto simp: csp_send_def split: option.splits prod.splits)
  note run = Suc.prems(1) [simplified cli_loop.simps bnd_run on_world_def andthen_run a 1 2 fst_conv snd_conv sum.case prod.case option.case]
  show ?case
  proof (cases ok)
    case False
    with run obtain s3 where 3: "buffer_free original s2 = Inr ((), s3)" "csp_buffer_free g s3 = Inr ((), t)"
      by (auto simp: prog_simps split: sum.splits)
    then have "bufs t g = None" "h \<noteq> g \<Longrightarrow> bufs t h = bufs s3 h"
      by (auto simp: csp_buffer_free_def split: option.splits)
    with buffer_free_None [OF 3(1), of h] s2(2) Suc.prems(4) a(2) show ?thesis by (cases "h = g") auto
  next
    case True
    with run Suc.prems(2) obtain ptr' s3 where
      3: "buffer_clone (cli_csp E) original s2 = Inr (ptr', s3)" "cli_loop E input original n ptr' s3 = Inr (st, t)"
      by (auto simp: prog_simps split: sum.splits if_splits)
    have "bufs s2 h = None" "h < nxt s2" using True s2 Suc.prems(3,4) a(2) by (cases "h = g"; auto)+
    with buffer_clone_None [OF 3(1)] Suc.IH [OF 3(2) Suc.prems(2)] show ?thesis by blast
  qed
qed

text \<open>C35: Whenever the command line handler reports an error, at whichever of its packets, the task
  releases a buffer that has been given up before: a double free.\<close>

theorem cli_step_frees_twice:
  assumes a: "cli_app E fuel h s = Inr (st, t)" "st \<noteq> SATR_OK" and P: "pool_ok s"
  shows "cli_step E fuel h s = Inl DoubleFree"
proof -
  obtain p where p: "bufs s h = Some p" using a(1) by (auto simp: cli_app_def prog_simps on_packet_def split: option.splits)
  then have h: "h < nxt s" using P by (metis not_le option.distinct(1) pool_ok_def)
  from a(1) p obtain input original s1 where
    l: "cli_loop E input original fuel (Some h) s1 = Inr (st, t)" "nxt s \<le> nxt s1"
    by (auto simp: cli_app_def prog_simps on_packet_def buffer_clone_def csp_buffer_clone_def take_buffer_def
        split: option.splits sum.splits if_splits prod.splits)
  then have "bufs t h = None" using cli_loop_error [OF l(1) a(2)] h by simp
  then show ?thesis using a by (simp add: cli_step_def prog_simps csp_buffer_free_def)
qed

end
