(* ===== verification/Cli_Sessions.thy ===== *)
theory Cli_Sessions
  imports Cli
begin

text \<open>
  Two commands that answer with a sequence of packets, \<^verbatim>\<open>ls\<close> and \<^verbatim>\<open>echo\<close>, against what they
  promise: \<^verbatim>\<open>ls\<close> yields the entries of the working directory one by one, \<^verbatim>\<open>echo\<close> its parameters.
  Each is an interpretation of the contract of a command, which gives the packets of a whole
  session.
\<close>

subsection \<open>The interpreter\<close>

text \<open>
  For a line that names a registered command the interpreter calls its function, with the line up to
  its null byte. \<open>entries\<close> is the listing that is expected, \<open>params\<close> the parameters of the line. The other
  functions read the world: \<open>tree\<close> the entries of the directory at a path, if there is one, \<open>cwd\<close> the path of
  the working directory, \<open>dirs\<close> the entries that are left in each open directory, \<open>room\<close> how many more
  can be opened, \<open>out\<close> what was sent. \<open>name_max\<close> is \<^verbatim>\<open>REDCONF_NAME_MAX\<close>, the size of the buffer for a path.
\<close>

record 'x cli_setup =
  commands_env :: "'x cli_env"
  net :: "'x cli_state csp_ops"
  in_size :: nat
  out_size :: nat
  chosen :: command
  input_line :: bytes
  name_max :: nat
  tree :: "'x \<Rightarrow> string \<Rightarrow> string list option"
  cwd :: "'x \<Rightarrow> string"
  dirs :: "'x \<Rightarrow> nat \<Rightarrow> string list option"
  room :: "'x \<Rightarrow> nat"
  out :: "'x \<Rightarrow> csp_packet list"
  entries :: "string list"
  params :: "string list"

definition line_of :: "bytes \<Rightarrow> string" where
  "line_of bs = map (\<lambda>b. char_of (unat b)) (takeWhile (\<lambda>b. b \<noteq> 0) bs)"

definition app_env :: "'x cli_setup \<Rightarrow> 'x cli_state cli_app_env" where
  "app_env S = \<lparr>cli_csp = net S, MAX_INPUT_SIZE = in_size S, OUTPUT_SIZE = out_size S,
     FreeRTOS_CLIProcessCommand = (\<lambda>input buf n. run_command (commands_env S) (chosen S) n (line_of input) buf)\<rparr>"

text \<open>A buffer of zeros with a text in it.\<close>

definition text_output :: "nat \<Rightarrow> string \<Rightarrow> bytes" where
  "text_output n cs = overlay 0 (text_bytes (take (n - 1) cs) @ [0]) (replicate n 0)"

lemma length_text_output [simp]: "0 < n \<Longrightarrow> length (text_output n cs) = n"
  by (simp add: text_output_def)

lemma snprintf_output: "0 < n \<Longrightarrow> snprintf n cs (replicate n 0) s = Inr (text_output n cs, s)"
  by (auto simp: snprintf_def text_output_def prog_simps Let_def min_def)

text \<open>
  The network: a packet that is sent is added to what was sent; a clone is equal to its original. Neither
  touches the directories or the state of the commands.
\<close>

definition same_dirs :: "'x cli_setup \<Rightarrow> 'x \<Rightarrow> 'x \<Rightarrow> bool" where
  "same_dirs S x y \<longleftrightarrow> dirs S y = dirs S x \<and> room S y = room S x \<and> tree S y = tree S x \<and> cwd S y = cwd S x"

definition session_net_ok :: "'x cli_setup \<Rightarrow> bool" where
  "session_net_ok S \<longleftrightarrow>
     (\<forall>p w. \<exists>x. op_send (net S) p w = (True, w\<lparr>cworld := x\<rparr>) \<and> same_dirs S (cworld w) x \<and> out S x = out S (cworld w) @ [p]) \<and>
     (\<forall>p w. \<exists>x. op_buffer_clone (net S) p w = (Some p, w\<lparr>cworld := x\<rparr>) \<and> same_dirs S (cworld w) x \<and> out S x = out S (cworld w))"

subsection \<open>ls\<close>

text \<open>
  What POSIX documents of the directory operations. \<^verbatim>\<open>getcwd\<close> delivers the path of the working
  directory if it fits into the buffer. \<^verbatim>\<open>opendir\<close> opens the directory at the path that it is given, if there is one
  and a handle is left, and fails otherwise. \<^verbatim>\<open>readdir\<close> delivers the entries of an open directory one after the other, \<^verbatim>\<open>closedir\<close>
  gives its handle back. None of them changes a directory.
\<close>

definition kept_tree :: "'x cli_setup \<Rightarrow> 'x \<Rightarrow> 'x \<Rightarrow> bool" where
  "kept_tree S x y \<longleftrightarrow> tree S y = tree S x \<and> cwd S y = cwd S x \<and> out S y = out S x"

definition can_open :: "'x cli_setup \<Rightarrow> string \<Rightarrow> 'x \<Rightarrow> bool" where
  "can_open S d x \<longleftrightarrow> tree S x d \<noteq> None \<and> 0 < room S x"

definition dir_ops_ok :: "'x cli_setup \<Rightarrow> bool" where
  "dir_ops_ok S \<longleftrightarrow> (let C = commands_env S; R = cli_red C; same = (\<lambda>x y. same_dirs S x y \<and> out S y = out S x) in
     (\<forall>x. same x (set_red_errno R 0 x) \<and> red_errno R (set_red_errno R 0 x) = 0) \<and>
     (\<forall>x. \<exists>y. red_getcwd C x = (if length (cwd S x) < name_max S then Some (cwd S x) else None, y) \<and> same x y) \<and>
     (\<forall>d x. can_open S d x \<longrightarrow> (\<exists>h y. red_opendir C d x = (Some h, y) \<and> dirs S y = (dirs S x)(h := tree S x d) \<and>
        room S y + 1 = room S x \<and> kept_tree S x y)) \<and>
     (\<forall>d x. \<not> can_open S d x \<longrightarrow> (\<exists>y. red_opendir C d x = (None, y) \<and> same x y)) \<and>
     (\<forall>h x e es. dirs S x h = Some (e # es) \<longrightarrow> (\<exists>y. red_readdir C (Some h) x = (Some e, y) \<and>
        dirs S y = (dirs S x)(h \<mapsto> es) \<and> room S y = room S x \<and> kept_tree S x y)) \<and>
     (\<forall>h x. dirs S x h = Some [] \<longrightarrow> (\<exists>y. red_readdir C (Some h) x = (None, y) \<and> same x y \<and> red_errno R y = red_errno R x)) \<and>
     (\<forall>h x. dirs S x h \<noteq> None \<longrightarrow> dirs S (red_closedir C (Some h) x) = (dirs S x)(h := None) \<and>
        room S (red_closedir C (Some h) x) = room S x + 1 \<and> kept_tree S x (red_closedir C (Some h) x)))"

lemma dir_ops_okD:
  assumes "dir_ops_ok S"
  shows "same_dirs S x (set_red_errno (cli_red (commands_env S)) 0 x)"
    and "out S (set_red_errno (cli_red (commands_env S)) 0 x) = out S x"
    and "red_errno (cli_red (commands_env S)) (set_red_errno (cli_red (commands_env S)) 0 x) = 0"
    and "\<exists>y. red_getcwd (commands_env S) x = (if length (cwd S x) < name_max S then Some (cwd S x) else None, y) \<and>
        same_dirs S x y \<and> out S y = out S x"
    and "can_open S d x \<Longrightarrow> \<exists>h y. red_opendir (commands_env S) d x = (Some h, y) \<and> dirs S y = (dirs S x)(h := tree S x d) \<and>
        room S y + 1 = room S x \<and> kept_tree S x y"
    and "dirs S x h = Some (e # es) \<Longrightarrow> \<exists>y. red_readdir (commands_env S) (Some h) x = (Some e, y) \<and>
        dirs S y = (dirs S x)(h \<mapsto> es) \<and> room S y = room S x \<and> kept_tree S x y"
    and "dirs S x h = Some [] \<Longrightarrow> \<exists>y. red_readdir (commands_env S) (Some h) x = (None, y) \<and> same_dirs S x y \<and>
        out S y = out S x \<and> red_errno (cli_red (commands_env S)) y = red_errno (cli_red (commands_env S)) x"
    and "dirs S x h \<noteq> None \<Longrightarrow> dirs S (red_closedir (commands_env S) (Some h) x) = (dirs S x)(h := None) \<and>
        room S (red_closedir (commands_env S) (Some h) x) = room S x + 1 \<and>
        kept_tree S x (red_closedir (commands_env S) (Some h) x)"
  using assms unfolding dir_ops_ok_def Let_def by blast+

text \<open>The abstract session: what is left of the listing, if one is going on.\<close>

definition ls_next :: "nat \<Rightarrow> string list \<Rightarrow> (bool \<times> bytes) \<times> string list option" where
  "ls_next n es = (case es of
     [] \<Rightarrow> ((False, text_output n newline), None)
   | e # es' \<Rightarrow> ((True, text_output n (e @ newline)), Some es'))"

definition ls_spec :: "'x cli_setup \<Rightarrow> string list option cli_spec" where
  "ls_spec S v = (case v of None \<Rightarrow> ls_next (out_size S) (entries S) | Some es \<Rightarrow> ls_next (out_size S) es)"

definition ls_ok :: "'x cli_setup \<Rightarrow> bool" where
  "ls_ok S \<longleftrightarrow> chosen S = Ls \<and> 0 < out_size S \<and> session_net_ok S \<and> dir_ops_ok S"

text \<open>The working directory is there, with the expected entries, and its path fits into the buffer.\<close>

definition listing :: "'x cli_setup \<Rightarrow> 'x \<Rightarrow> bool" where
  "listing S x \<longleftrightarrow> tree S x (cwd S x) = Some (entries S) \<and> length (cwd S x) < name_max S"

definition ls_inv :: "'x cli_setup \<Rightarrow> 'x cli_state \<Rightarrow> bool" where
  "ls_inv S w \<longleftrightarrow> listing S (cworld w) \<and>
     (if ls_firstRun w then 0 < room S (cworld w) else (\<exists>h es. ls_dir w = Some h \<and> dirs S (cworld w) h = Some es))"

lemma listing_kept: "same_dirs S x y \<or> kept_tree S x y \<Longrightarrow> listing S y = listing S x"
  by (auto simp: listing_def same_dirs_def kept_tree_def)

definition ls_view :: "'x cli_setup \<Rightarrow> 'x cli_state \<Rightarrow> string list option" where
  "ls_view S w = (if ls_firstRun w then None else dirs S (cworld w) (the (ls_dir w)))"

lemma call_run [prog_simps]: "call f s = Inr (fst (f (cworld s)), s\<lparr>cworld := snd (f (cworld s))\<rparr>)"
  by (simp add: call_def split: prod.splits)

lemma errno_run [prog_simps]: "errno E s = Inr (red_errno (cli_red E) (cworld s), s)"
  by (simp add: errno_def prog_simps)

lemma clear_errno_run [prog_simps]: "clear_errno E s = Inr ((), s\<lparr>cworld := set_red_errno (cli_red E) 0 (cworld s)\<rparr>)"
  by (simp add: clear_errno_def prog_simps)

lemma list_entry_step:
  assumes ok: "dir_ops_ok S" "0 < out_size S" and w: "listing S (cworld w)" "ls_dir w = Some h"
    "dirs S (cworld w) h = Some es" and f: "\<not> ls_firstRun w" and n: "ls_next (out_size S) es = (r, v)"
  shows "\<exists>w'. list_entry (commands_env S) (out_size S) (replicate (out_size S) 0) w = Inr (r, w') \<and> ls_inv S w' \<and>
    ls_view S w' = v \<and> out S (cworld w') = out S (cworld w)"
proof -
  note D = dir_ops_okD [OF ok(1)]
  let ?x = "set_red_errno (cli_red (commands_env S)) 0 (cworld w)"
  have x: "dirs S ?x h = Some es" "listing S ?x" "out S ?x = out S (cworld w)"
    using D(1) [of "cworld w"] D(2) [of "cworld w"] w by (simp_all add: same_dirs_def listing_def)
  show ?thesis
  proof (cases es)
    case Nil
    from D(7) x(1) Nil obtain y where y: "red_readdir (commands_env S) (Some h) ?x = (None, y)" "same_dirs S ?x y"
      "out S y = out S ?x" "red_errno (cli_red (commands_env S)) y = 0"
      using D(3) [of "cworld w"] by metis
    have "dirs S y h \<noteq> None" using x(1) y(2) by (simp add: same_dirs_def)
    note c = D(8) [OF this]
    have "listing S (red_closedir (commands_env S) (Some h) y)"
      using x(2) listing_kept [of S ?x y] listing_kept [of S y] y(2) c by blast
    then show ?thesis
      using c x y n ok(2) f Nil w(2)
      by (auto simp: list_entry_def prog_simps snprintf_output kept_tree_def ls_inv_def ls_view_def ls_next_def
          simp del: snprintf_run)
  next
    case (Cons e es')
    from D(6) x(1) Cons obtain y where y: "red_readdir (commands_env S) (Some h) ?x = (Some e, y)"
      "dirs S y = (dirs S ?x)(h \<mapsto> es')" "kept_tree S ?x y" by metis
    then show ?thesis
      using w(2) x n ok(2) f Cons listing_kept [of S ?x y]
      by (auto simp: list_entry_def prog_simps snprintf_output ls_inv_def ls_view_def ls_next_def kept_tree_def
          simp del: snprintf_run)
  qed
qed

lemma ls_step:
  assumes ok: "ls_ok S" and w: "ls_inv S w" and n: "ls_spec S (ls_view S w) = (r, v)"
  shows "\<exists>w'. prvLSCommand (commands_env S) (out_size S) line (replicate (out_size S) 0) w = Inr (r, w') \<and> ls_inv S w' \<and>
    ls_view S w' = v \<and> out S (cworld w') = out S (cworld w)"
proof (cases "ls_firstRun w")
  case False
  then obtain h es where h: "ls_dir w = Some h" "dirs S (cworld w) h = Some es" using w by (auto simp: ls_inv_def)
  with False n have "ls_next (out_size S) es = (r, v)" by (simp add: ls_spec_def ls_view_def)
  from list_entry_step [OF _ _ _ h False this] ok w False show ?thesis
    by (simp add: ls_ok_def ls_inv_def prvLSCommand_def prog_simps)
next
  case True
  have d: "dir_ops_ok S" "0 < out_size S" using ok by (simp_all add: ls_ok_def)
  note D = dir_ops_okD [OF d(1)]
  let ?x = "set_red_errno (cli_red (commands_env S)) 0 (cworld w)" and ?d = "cwd S (cworld w)"
  have lx: "listing S (cworld w)" "0 < room S (cworld w)" using w True by (simp_all add: ls_inv_def)
  have x: "same_dirs S (cworld w) ?x" "out S ?x = out S (cworld w)" by (rule D(1), rule D(2))
  have "cwd S ?x = ?d" "length ?d < name_max S" using x(1) lx(1) by (simp_all add: same_dirs_def listing_def)
  with D(4) [of ?x] obtain y where y: "red_getcwd (commands_env S) ?x = (Some ?d, y)" "same_dirs S ?x y" "out S y = out S ?x"
    by auto
  have s: "same_dirs S (cworld w) y" using x(1) y(2) by (simp add: same_dirs_def)
  then have "can_open S ?d y" using lx by (simp add: can_open_def same_dirs_def listing_def)
  from D(5) [OF this] obtain h z where z: "red_opendir (commands_env S) ?d y = (Some h, z)"
    "dirs S z = (dirs S y)(h := tree S y ?d)" "kept_tree S y z" by blast
  let ?w = "w\<lparr>cworld := z, ls_dir := Some h, ls_firstRun := False\<rparr>"
  have "listing S y" using lx(1) s by (simp add: listing_def same_dirs_def)
  then have w': "listing S (cworld ?w)" "ls_dir ?w = Some h" "dirs S (cworld ?w) h = Some (entries S)" "\<not> ls_firstRun ?w"
    using z(2,3) s by (simp_all add: listing_def same_dirs_def kept_tree_def)
  have o: "out S (cworld ?w) = out S (cworld w)" using z(3) y(3) x(2) by (simp add: kept_tree_def)
  have "ls_next (out_size S) (entries S) = (r, v)" using n True by (simp add: ls_spec_def ls_view_def)
  from list_entry_step [OF d w' this] show ?thesis
    using True y(1) z(1) o by (simp add: prvLSCommand_def prog_simps)
qed

interpretation ls: cli_command ls_ok app_env input_line ls_inv ls_view "\<lambda>S w. out S (cworld w)" ls_spec
proof
  fix S :: "'x cli_setup" and w r v
  assume ok: "ls_ok S" and w: "ls_inv S w" and n: "ls_spec S (ls_view S w) = (r, v)"
  have "length (snd r) = out_size S"
    using n ok by (auto simp: ls_spec_def ls_next_def ls_ok_def split: option.splits list.splits)
  with ls_step [OF ok w n] ok show "\<exists>w'. FreeRTOS_CLIProcessCommand (app_env S) (input_line S)
      (replicate (OUTPUT_SIZE (app_env S)) 0) (OUTPUT_SIZE (app_env S)) w = Inr (r, w') \<and> ls_inv S w' \<and> ls_view S w' = v \<and>
      out S (cworld w') = out S (cworld w) \<and> length (snd r) = OUTPUT_SIZE (app_env S)"
    by (simp add: app_env_def run_command_def ls_ok_def)
next
  fix S :: "'x cli_setup" and w p
  assume ok: "ls_ok S" and w: "ls_inv S w"
  have N: "session_net_ok S" using ok by (simp add: ls_ok_def)
  from N obtain x where "op_send (net S) p w = (True, w\<lparr>cworld := x\<rparr>)" "same_dirs S (cworld w) x" "out S x = out S (cworld w) @ [p]"
    unfolding session_net_ok_def by blast
  with w show "\<exists>w'. op_send (cli_csp (app_env S)) p w = (True, w') \<and> ls_inv S w' \<and> ls_view S w' = ls_view S w \<and>
      out S (cworld w') = out S (cworld w) @ [p]"
    by (auto simp: app_env_def ls_inv_def ls_view_def same_dirs_def listing_def split: if_splits)
  from N obtain x where "op_buffer_clone (net S) p w = (Some p, w\<lparr>cworld := x\<rparr>)" "same_dirs S (cworld w) x" "out S x = out S (cworld w)"
    unfolding session_net_ok_def by blast
  with w show "\<exists>w'. op_buffer_clone (cli_csp (app_env S)) p w = (Some p, w') \<and> ls_inv S w' \<and> ls_view S w' = ls_view S w \<and>
      out S (cworld w') = out S (cworld w)"
    by (auto simp: app_env_def ls_inv_def ls_view_def same_dirs_def listing_def split: if_splits)
qed

lemma ls_answers:
  "answers (ls_spec S) None (map (\<lambda>e. text_output (out_size S) (e @ newline)) (entries S) @ [text_output (out_size S) newline]) None"
proof -
  have "answers (ls_spec S) v (map (\<lambda>e. text_output (out_size S) (e @ newline)) es @ [text_output (out_size S) newline]) None"
    if "ls_spec S v = ls_next (out_size S) es" for es v
    using that
  proof (induction es arbitrary: v)
    case Nil
    then show ?case by (auto simp: ls_next_def intro: answers.last)
  next
    case (Cons e es)
    have "ls_spec S (Some es) = ls_next (out_size S) es" by (simp add: ls_spec_def)
    from Cons.IH [OF this] Cons.prems show ?case by (auto simp: ls_next_def intro: answers.again)
  qed
  then show ?thesis by (simp add: ls_spec_def)
qed

subsection \<open>echo\<close>

text \<open>A word of the line: it ends before a space or at the end.\<close>

definition word_at :: "string \<Rightarrow> nat \<Rightarrow> nat \<Rightarrow> string \<Rightarrow> bool" where
  "word_at line off len w \<longleftrightarrow> take len (drop off line) = w \<and> length w = len \<and>
     (off + len = length line \<or> off + len < length line \<and> line ! (off + len) = CHR '' '')"

text \<open>What FreeRTOS+CLI documents: the parameters are the words of the line.\<close>

definition parameters_ok :: "'x cli_setup \<Rightarrow> bool" where
  "parameters_ok S \<longleftrightarrow>
     (\<forall>k. 0 < k \<longrightarrow> (case FreeRTOS_CLIGetParameter (commands_env S) (line_of (input_line S)) k of
        None \<Rightarrow> length (params S) < k
      | Some (off, len) \<Rightarrow> k \<le> length (params S) \<and> word_at (line_of (input_line S)) off len (params S ! (k - 1))))"

definition echo_spec :: "'x cli_setup \<Rightarrow> nat cli_spec" where
  "echo_spec S k =
     (if k = 0 then ((True, replicate (out_size S) 0), 1)
      else if k \<le> length (params S) then ((True, text_output (out_size S) (params S ! (k - 1) @ '' '')), k + 1)
      else ((False, text_output (out_size S) crlf), 0))"

definition echo_ok :: "'x cli_setup \<Rightarrow> bool" where
  "echo_ok S \<longleftrightarrow> chosen S = Echo \<and> 3 \<le> out_size S \<and> session_net_ok S \<and> parameters_ok S \<and>
     (\<forall>w\<in>set (params S). length w + 2 \<le> out_size S)"

lemma word_output:
  assumes "word_at line off len w" and "len + 2 \<le> n"
  shows "snprintf (len + 2) (drop off line @ '' '') (replicate n 0) s = Inr (text_output n (w @ '' ''), s)"
proof -
  have "take (len + 1) (drop off line @ '' '') = w @ '' ''"
    using assms(1) by (auto simp: word_at_def take_Suc_conv_app_nth)
  then show ?thesis
    using assms by (auto simp: snprintf_def text_output_def prog_simps Let_def word_at_def)
qed

lemma crlf_output: "3 \<le> n \<Longrightarrow> snprintf 3 crlf (replicate n 0) s = Inr (text_output n crlf, s)"
  by (simp add: snprintf_def text_output_def prog_simps Let_def crlf_def)

lemma echo_step:
  assumes ok: "echo_ok S" and n: "echo_spec S (parameter_num w) = (r, v)"
  shows "prvEchoCommand (commands_env S) (out_size S) (line_of (input_line S)) (replicate (out_size S) 0) w =
    Inr (r, w\<lparr>parameter_num := v\<rparr>)"
proof (cases "parameter_num w = 0")
  case True
  then show ?thesis using n by (auto simp: prvEchoCommand_def prog_simps echo_spec_def)
next
  case False
  let ?k = "parameter_num w" and ?g = "FreeRTOS_CLIGetParameter (commands_env S) (line_of (input_line S))"
  have p: "case ?g ?k of None \<Rightarrow> length (params S) < ?k
      | Some (off, len) \<Rightarrow> ?k \<le> length (params S) \<and> word_at (line_of (input_line S)) off len (params S ! (?k - 1))"
    using ok False by (simp add: echo_ok_def parameters_ok_def)
  show ?thesis
  proof (cases "?g ?k")
    case None
    with p n False ok show ?thesis
      by (auto simp: prvEchoCommand_def prog_simps echo_spec_def echo_ok_def crlf_output simp del: snprintf_run)
  next
    case (Some ol)
    obtain off len where ol: "ol = (off, len)" by force
    with p Some have w: "?k \<le> length (params S)" "word_at (line_of (input_line S)) off len (params S ! (?k - 1))" by simp_all
    have "params S ! (?k - 1) \<in> set (params S)" using w(1) False by simp
    with ok w(2) have "len + 2 \<le> out_size S" by (auto simp: echo_ok_def word_at_def)
    from word_output [OF w(2) this, of w] w(1) Some ol n False show ?thesis
      by (auto simp: prvEchoCommand_def prog_simps echo_spec_def simp del: snprintf_run)
  qed
qed

interpretation echo: cli_command echo_ok app_env input_line "\<lambda>S w. True" "\<lambda>S w. parameter_num w" "\<lambda>S w. out S (cworld w)" echo_spec
proof
  fix S :: "'x cli_setup" and w :: "'x cli_state" and r v
  assume ok: "echo_ok S" and n: "echo_spec S (parameter_num w) = (r, v)"
  have "length (snd r) = out_size S"
    using n ok by (auto simp: echo_spec_def echo_ok_def split: if_splits)
  with echo_step [OF ok n] ok show "\<exists>w'. FreeRTOS_CLIProcessCommand (app_env S) (input_line S)
      (replicate (OUTPUT_SIZE (app_env S)) 0) (OUTPUT_SIZE (app_env S)) w = Inr (r, w') \<and> True \<and> parameter_num w' = v \<and>
      out S (cworld w') = out S (cworld w) \<and> length (snd r) = OUTPUT_SIZE (app_env S)"
    by (simp add: app_env_def run_command_def echo_ok_def)
next
  fix S :: "'x cli_setup" and w :: "'x cli_state" and p
  assume ok: "echo_ok S"
  have N: "session_net_ok S" using ok by (simp add: echo_ok_def)
  from N obtain x where "op_send (net S) p w = (True, w\<lparr>cworld := x\<rparr>)" "out S x = out S (cworld w) @ [p]"
    unfolding session_net_ok_def by blast
  then show "\<exists>w'. op_send (cli_csp (app_env S)) p w = (True, w') \<and> True \<and> parameter_num w' = parameter_num w \<and>
      out S (cworld w') = out S (cworld w) @ [p]"
    by (simp add: app_env_def)
  from N obtain x where "op_buffer_clone (net S) p w = (Some p, w\<lparr>cworld := x\<rparr>)" "out S x = out S (cworld w)"
    unfolding session_net_ok_def by blast
  then show "\<exists>w'. op_buffer_clone (cli_csp (app_env S)) p w = (Some p, w') \<and> True \<and> parameter_num w' = parameter_num w \<and>
      out S (cworld w') = out S (cworld w)"
    by (simp add: app_env_def)
qed

lemma echo_answers:
  "answers (echo_spec S) 0 (replicate (out_size S) 0 # map (\<lambda>w. text_output (out_size S) (w @ '' '')) (params S) @
     [text_output (out_size S) crlf]) 0"
proof -
  have "answers (echo_spec S) (Suc k) (map (\<lambda>w. text_output (out_size S) (w @ '' '')) (drop k (params S)) @
      [text_output (out_size S) crlf]) 0" if "k \<le> length (params S)" for k
    using that
  proof (induction "length (params S) - k" arbitrary: k)
    case 0
    then show ?case by (auto simp: echo_spec_def intro: answers.last)
  next
    case (Suc n)
    then have k: "k < length (params S)" by simp
    with Suc have "answers (echo_spec S) (Suc (Suc k)) (map (\<lambda>w. text_output (out_size S) (w @ '' '')) (drop (Suc k) (params S)) @
      [text_output (out_size S) crlf]) 0" by simp
    with k show ?case by (simp add: Cons_nth_drop_Suc [symmetric]) (auto simp: echo_spec_def intro: answers.again)
  qed
  from this [of 0] show ?thesis by (auto simp: echo_spec_def intro: answers.again)
qed

subsection \<open>Sessions\<close>

text \<open>The request: a size byte behind the subservice byte and a line of that size, which is passed on.\<close>

definition cli_request :: "'x cli_setup \<Rightarrow> csp_packet \<Rightarrow> bool" where
  "cli_request S p \<longleftrightarrow> (let k = unat (pkt_data p ! 1) in
     k \<le> in_size S \<and> k + 2 \<le> length (pkt_data p) \<and> out_size S + 2 \<le> length (pkt_data p) \<and>
     input_line S = take k (drop 2 (pkt_data p)) @ replicate (in_size S - k) 0)"

text \<open>C34: With a working directory whose path fits into the buffer of the command, a directory handle that
  is left, and a network that takes every packet and has a buffer for every copy: an ls request is
  answered by one packet per entry of the directory at the path that getcwd delivers, in order,
  each marked to be followed by more, and a last packet with an empty line; the request buffer is
  gone and the command is ready for the next listing.\<close>

theorem listing_sent:
  assumes ok: "ls_ok S" and w: "ls_firstRun (pworld s)" "listing S (cworld (pworld s))" "0 < room S (cworld (pworld s))"
    and s: "pool_ok s" "bufs s h = Some p" "cli_request S p" and f: "length (entries S) < fuel"
  shows "\<exists>n w. cli_app (app_env S) fuel h s = Inr (SATR_OK, s\<lparr>bufs := (bufs s)(h := None), nxt := n, pworld := w\<rparr>) \<and>
    ls_view S w = None \<and> out S (cworld w) = out S (cworld (pworld s)) @
      output_packets p (map (\<lambda>e. text_output (out_size S) (e @ newline)) (entries S) @ [text_output (out_size S) newline])"
proof -
  have "ls_inv S (pworld s)" "ls_view S (pworld s) = None" using w by (simp_all add: ls_inv_def ls_view_def)
  with ls.app_sends [OF ok this(1) _ _ s(1,2), of _ None fuel] ls_answers [of S] s(3) f show ?thesis
    by (fastforce simp: cli_request_def app_env_def Let_def)
qed

text \<open>An echo request is answered by an empty packet, one packet per parameter that holds just that
  parameter and a space, and a last packet with a line break.\<close>

theorem echo_sent:
  assumes ok: "echo_ok S" and w: "parameter_num (pworld s) = 0"
    and s: "pool_ok s" "bufs s h = Some p" "cli_request S p" and f: "length (params S) + 2 \<le> fuel"
  shows "\<exists>n w. cli_app (app_env S) fuel h s = Inr (SATR_OK, s\<lparr>bufs := (bufs s)(h := None), nxt := n, pworld := w\<rparr>) \<and>
    parameter_num w = 0 \<and> out S (cworld w) = out S (cworld (pworld s)) @ output_packets p
      (replicate (out_size S) 0 # map (\<lambda>w. text_output (out_size S) (w @ '' '')) (params S) @ [text_output (out_size S) crlf])"
  using echo.app_sends [OF ok TrueI _ _ s(1,2), of _ 0 fuel] echo_answers [of S] s(3) f w
  by (fastforce simp: cli_request_def app_env_def Let_def)

end
