(* ===== verification/Cli_Properties.thy ===== *)
theory Cli_Properties
  imports Response Cli_Sessions Startup Service_Properties
begin

text \<open>
  Properties of single commands, a small directory with a network to run sessions on, and the
  instances of the properties of the command line and of the start.
\<close>

subsection \<open>Creating and examining files\<close>

lemma parameter_text_word:
  "FreeRTOS_CLIGetParameter E line 1 = Some (off, len) \<Longrightarrow> parameter_text E line 1 = Some (drop off line)"
  by (simp add: parameter_text_def)

lemma fail_with_error_run:
  "0 < n \<Longrightarrow> fail_with_error E n (replicate n 0) w =
    Inr ((False, text_output n (errorMsg (red_errno (cli_red E) (cworld w)) @ newline)),
      w\<lparr>cworld := set_red_errno (cli_red E) 0 (cworld w)\<rparr>)"
  by (simp add: fail_with_error_def createErrorOutput_def prog_simps snprintf_output del: snprintf_run)

text \<open>
  \<^verbatim>\<open>mk\<close> creates an empty file and closes it, or reports that the file exists.
\<close>

theorem mk_creates:
  assumes R: "red_reliable (cli_red E) view" and n: "0 < n" and p: "FreeRTOS_CLIGetParameter E line 1 = Some (off, len)"
    and nm: "nm = drop off line" and ok: "fs_ok (view (cworld w))"
  shows "\<exists>out w'. prvMKCommand E n line (replicate n 0) w = Inr ((False, out), w') \<and>
    handles (view (cworld w')) = handles (view (cworld w)) \<and>
    (case files (view (cworld w)) nm of
       None \<Rightarrow> files (view (cworld w')) = (files (view (cworld w)))(nm \<mapsto> []) \<and> out = replicate n 0
     | Some _ \<Rightarrow> files (view (cworld w')) = files (view (cworld w)) \<and> out = text_output n (''RED_EEXIST'' @ newline) \<and>
         verrno (view (cworld w')) = 0)"
proof -
  note C = reliable_posix [OF R]
  obtain fd x where o: "red_open (cli_red E) nm RED_CREAT_EXCL_RDWR (cworld w) = (fd, x)" by force
  have os: "open_spec nm RED_CREAT_EXCL_RDWR (view (cworld w)) fd (view x)"
    using red_posixD(3) [OF C, of nm RED_CREAT_EXCL_RDWR "cworld w"] by (simp add: o)
  note run = prvMKCommand_def open_path_def parameter_text_word [OF p, simplified] prog_simps nm [symmetric] o
  show ?thesis
  proof (cases "files (view (cworld w)) nm")
    case None
    have fd: "fd \<noteq> -1" using reliable_open_fail [OF R, of nm RED_CREAT_EXCL_RDWR "cworld w"] o None by auto
    with os None have v: "0 \<le> fd" "handles (view (cworld w)) fd = None"
      "handles (view x) = (handles (view (cworld w)))(fd \<mapsto> (nm, 0))" "files (view x) = (files (view (cworld w)))(nm \<mapsto> [])"
      by (auto simp: open_spec_def)
    have "close_spec fd (view x) (view (red_close (cli_red E) fd x))" by (rule red_posixD(4) [OF C])
    with v None show ?thesis
      by (intro exI [of _ "replicate n 0"] exI [of _ "w\<lparr>cworld := red_close (cli_red E) fd x\<rparr>"])
        (auto simp: run close_spec_def fun_upd_idem)
  next
    case (Some c)
    with os have fd: "fd = -1" by (auto simp: open_spec_def split: if_splits)
    with os reliable_open_fail [OF R, of nm RED_CREAT_EXCL_RDWR "cworld w"] o
    have "files (view x) = files (view (cworld w))" "handles (view x) = handles (view (cworld w))"
      "red_errno (cli_red E) x = 17"
      by (auto simp: open_spec_def red_posixD(1) [OF C] const_simps)
    then show ?thesis
      using fd Some n red_posixD(2) [OF C, of 0 x]
      by (simp add: run fail_with_error_run errorMsg_def error_messages_def del: snprintf_run)
  qed
qed

lemma zero_texts: "decimal 0 = ''0''" "hex_nat 0 = ''0''"
  by (simp_all add: decimal_def decimal_nat.simps hex_nat.simps hex_digit_def char_of_def bit_0)

text \<open>
  The first \<^verbatim>\<open>stat\<close> after the start does not look at the file: it prints zeros. The next one
  opens the file, prints what \<^verbatim>\<open>red_fstat\<close> delivers and leaves the file open.
\<close>

text \<open>C36: The first stat after the start prints six zeros without looking at the file. The second one
  opens the file and prints the structure that red_fstat delivers, each member as the 32-bit
  number that its conversion reads, and does not close the file. (Which 32 bits of a wider member
  a conversion reads is left to the platform; those of a structure of zeros are zero.)\<close>

theorem stat_first_zeros:
  assumes n: "0 < n" and o: "open_path E (parameter_text E line 1) RED_RDONLY x = (fd, y)" "0 \<le> fd"
    and f: "red_fstat E fd y = ((err, p), z)" "0 \<le> err" and a: "stat_args E no_stat = (0, 0, 0, 0, 0, 0)"
  shows "\<exists>w. prvSTATCommand E n line (replicate n 0) (cli_start x) = Inr ((False, text_output n
      (''dev 0'' @ newline @ ''ino 0'' @ newline @ ''mode 0'' @ newline @ ''nlink 0'' @ newline @ ''size 0'' @ newline @
       ''blocks 0'' @ newline)), w) \<and> cworld w = x \<and>
    (\<exists>w'. prvSTATCommand E n line (replicate n 0) w = Inr ((False, text_output n (stat_text (stat_args E p))), w') \<and> cworld w' = z)"
proof -
  have "stat_text (stat_args E no_stat) = ''dev 0'' @ newline @ ''ino 0'' @ newline @ ''mode 0'' @ newline @ ''nlink 0'' @ newline @
      ''size 0'' @ newline @ ''blocks 0'' @ newline"
    by (simp add: a stat_text_def zero_texts)
  then show ?thesis
    using n o f by (simp add: prvSTATCommand_def print_stat_def prog_simps cli_start_def snprintf_output del: snprintf_run)
qed

subsection \<open>A directory and a network\<close>

text \<open>Two directories, of which two can be open at a time.\<close>

record shelf =
  open_dirs :: "nat \<Rightarrow> string list option"
  free_dirs :: nat
  folders :: "(string \<times> string list) list"
  cwd_path :: string
  sent_out :: "csp_packet list"

definition plain_cli :: "'w red_ops \<Rightarrow> 'w cli_env" where
  "plain_cli R = \<lparr>cli_red = R, cli_rtc = \<lparr>RTCMK_SetUnix = (\<lambda>t w. (0, w)), RTCMK_GetUnix = (\<lambda>w. ((0, 7), w))\<rparr>,
     MAX_OUTPUT_SIZE = 16, prvGetNumberOfParameters = (\<lambda>_. 2),
     FreeRTOS_CLIGetParameter = (\<lambda>_ k. if k = 1 then Some (5, 2) else if k = 2 then Some (8, 3) else None),
     red_getcwd = (\<lambda>x. (Some ''/'', x)), red_chdir = (\<lambda>_ x. (0, x)), red_opendir = (\<lambda>_ x. (None, x)),
     red_readdir = (\<lambda>h x. (None, x)), red_closedir = (\<lambda>h x. x), red_mkdir = (\<lambda>_ x. (0, x)), red_rmdir = (\<lambda>_ x. (0, x)),
     red_unlink_result = (\<lambda>_ x. (0, x)), red_fstat = (\<lambda>_ x. ((0, no_stat\<lparr>st_size := 4294967298\<rparr>), x)), red_transact = (\<lambda>_ x. (0, x)),
     stat_args = (\<lambda>p. (word_of_int (st_dev p), word_of_int (st_ino p), of_nat (st_mode p), word_of_int (st_nlink p),
       word_of_int (st_size p), word_of_int (st_blocks p)))\<rparr>"

definition shelf_env :: "shelf cli_env" where
  "shelf_env = (plain_cli (no_files\<lparr>red_errno := (\<lambda>_. 0), set_red_errno := (\<lambda>_ x. x)\<rparr>))\<lparr>
     red_getcwd := (\<lambda>x. (if length (cwd_path x) < 16 then Some (cwd_path x) else None, x)),
     red_opendir := (\<lambda>d x. case map_of (folders x) d of
         None \<Rightarrow> (None, x)
       | Some es \<Rightarrow> (if free_dirs x = 0 then (None, x)
           else (Some (free_dirs x - 1), x\<lparr>open_dirs := (open_dirs x)(free_dirs x - 1 \<mapsto> es), free_dirs := free_dirs x - 1\<rparr>))),
     red_readdir := (\<lambda>h x. case open_dirs x (the h) of
         Some (e # es) \<Rightarrow> (Some e, x\<lparr>open_dirs := (open_dirs x)(the h \<mapsto> es)\<rparr>) | _ \<Rightarrow> (None, x)),
     red_closedir := (\<lambda>h x. x\<lparr>open_dirs := (open_dirs x)(the h := None), free_dirs := free_dirs x + 1\<rparr>)\<rparr>"

definition shelf_net :: "shelf cli_state csp_ops" where
  "shelf_net = \<lparr>op_send = (\<lambda>p w. (True, w\<lparr>cworld := (cworld w)\<lparr>sent_out := sent_out (cworld w) @ [p]\<rparr>\<rparr>)),
     op_buffer_get = (\<lambda>n w. (None, w)), op_buffer_clone = (\<lambda>p w. (Some p, w))\<rparr>"

definition shelf_setup :: "command \<Rightarrow> bytes \<Rightarrow> shelf cli_setup" where
  "shelf_setup c l = \<lparr>commands_env = shelf_env, net = shelf_net, in_size = 16, out_size = 16, chosen = c, input_line = l,
     name_max = 16, tree = (\<lambda>x. map_of (folders x)), cwd = cwd_path, dirs = open_dirs, room = free_dirs, out = sent_out,
     entries = [''a'', ''b''], params = [''hi'', ''you'']\<rparr>"

definition shelf_start :: "shelf cli_state" where
  "shelf_start = cli_start \<lparr>open_dirs = (\<lambda>_. None), free_dirs = 2,
     folders = [(''/'', [''log'', ''hk'']), (''/log'', [''a'', ''b''])], cwd_path = ''/log'', sent_out = []\<rparr>"

definition ls_packet :: csp_packet where
  "ls_packet = packet_of ([0, 2] @ text_bytes ''ls'' @ replicate 16 0)"

definition echo_packet :: csp_packet where
  "echo_packet = packet_of ([0, 11] @ text_bytes ''echo hi you'' @ replicate 16 0)"

definition ls_line :: bytes where "ls_line = text_bytes ''ls'' @ replicate 14 0"
definition echo_line :: bytes where "echo_line = text_bytes ''echo hi you'' @ replicate 5 0"

lemma shelf_net_ok: "session_net_ok (shelf_setup c l)"
proof -
  let ?S = "shelf_setup c l"
  have sel: "net ?S = shelf_net" "out ?S = sent_out" "dirs ?S = open_dirs" "room ?S = free_dirs"
    "tree ?S = (\<lambda>x. map_of (folders x))" "cwd ?S = cwd_path"
    by (simp_all add: shelf_setup_def)
  have "\<exists>x. op_send shelf_net p w = (True, w\<lparr>cworld := x\<rparr>) \<and> same_dirs ?S (cworld w) x \<and> sent_out x = sent_out (cworld w) @ [p]" for p w
    by (rule exI [of _ "(cworld w)\<lparr>sent_out := sent_out (cworld w) @ [p]\<rparr>"]) (simp add: sel same_dirs_def shelf_net_def)
  moreover have "\<exists>x. op_buffer_clone shelf_net p w = (Some p, w\<lparr>cworld := x\<rparr>) \<and> same_dirs ?S (cworld w) x \<and> sent_out x = sent_out (cworld w)" for p w
    by (rule exI [of _ "cworld w"]) (simp add: sel same_dirs_def shelf_net_def)
  ultimately show ?thesis unfolding session_net_ok_def sel by blast
qed

lemma shelf_dir_ops_ok: "dir_ops_ok (shelf_setup Ls l)"
  unfolding dir_ops_ok_def Let_def
  by (intro conjI allI impI)
    (auto simp: shelf_setup_def shelf_env_def plain_cli_def no_files_def same_dirs_def kept_tree_def can_open_def split: option.splits)

lemma shelf_ls_ok: "ls_ok (shelf_setup Ls l)"
  using shelf_net_ok shelf_dir_ops_ok by (simp add: ls_ok_def) (simp add: shelf_setup_def)

lemma shelf_echo_ok: "echo_ok (shelf_setup Echo echo_line)"
proof -
  have l: "line_of echo_line = ''echo hi you''" by (simp add: line_of_def echo_line_def text_bytes_def char_of_def bit_0)
  have "parameters_ok (shelf_setup Echo echo_line)"
    by (auto simp: parameters_ok_def shelf_setup_def shelf_env_def plain_cli_def l word_at_def numeral_2_eq_2)
  then show ?thesis using shelf_net_ok by (simp add: echo_ok_def) (simp add: shelf_setup_def)
qed

theorem listing_sent_instance:
  "\<exists>n w. cli_app (app_env (shelf_setup Ls ls_line)) 5 0 ((pool_with shelf_start)\<lparr>bufs := [0 \<mapsto> ls_packet], nxt := 1\<rparr>) =
      Inr (SATR_OK, (pool_with shelf_start)\<lparr>nxt := n, pworld := w\<rparr>) \<and>
    sent_out (cworld w) = output_packets ls_packet [text_output 16 (''a'' @ newline), text_output 16 (''b'' @ newline),
      text_output 16 newline]"
  using listing_sent [OF shelf_ls_ok, of "(pool_with shelf_start)\<lparr>bufs := [0 \<mapsto> ls_packet], nxt := 1\<rparr>" ls_line 0 ls_packet 5]
  by (simp add: pool_with_def pool_ok_def shelf_start_def cli_start_def listing_def shelf_setup_def cli_request_def ls_packet_def ls_line_def
      packet_of_def text_bytes_def, blast)

theorem echo_sent_instance:
  "\<exists>n w. cli_app (app_env (shelf_setup Echo echo_line)) 4 0 ((pool_with shelf_start)\<lparr>bufs := [0 \<mapsto> echo_packet], nxt := 1\<rparr>) =
      Inr (SATR_OK, (pool_with shelf_start)\<lparr>nxt := n, pworld := w\<rparr>) \<and>
    sent_out (cworld w) = output_packets echo_packet [replicate 16 0, text_output 16 ''hi '', text_output 16 ''you '',
      text_output 16 crlf]"
  using echo_sent [OF shelf_echo_ok, of "(pool_with shelf_start)\<lparr>bufs := [0 \<mapsto> echo_packet], nxt := 1\<rparr>" 0 echo_packet 4]
  by (simp add: pool_with_def pool_ok_def shelf_start_def cli_start_def shelf_setup_def cli_request_def echo_packet_def
      echo_line_def packet_of_def text_bytes_def, blast)

subsection \<open>Further instances\<close>

theorem mk_creates_instance:
  "\<exists>out w'. prvMKCommand (plain_cli ram_ops) 16 ''mk   ab'' (replicate 16 0) (cli_start empty_ram) = Inr ((False, out), w') \<and>
    files (ram_view (cworld w')) = (files (ram_view empty_ram))(''ab'' \<mapsto> []) \<and> out = replicate 16 0"
proof -
  have s: "red_reliable (cli_red (plain_cli ram_ops)) ram_view" using ram_reliable by (simp add: plain_cli_def)
  have ok: "fs_ok (ram_view (cworld (cli_start empty_ram)))" "files (ram_view (cworld (cli_start empty_ram))) ''ab'' = None"
    by (simp_all add: cli_start_def fs_ok_def ram_view_def empty_ram_def)
  have p: "FreeRTOS_CLIGetParameter (plain_cli ram_ops) ''mk   ab'' 1 = Some (5, 2)" by (simp add: plain_cli_def)
  show ?thesis
    using mk_creates [OF s _ p _ ok(1), of 16] ok(2) by (auto simp: cli_start_def)
qed

text \<open>The size of the file has 33 bits; the conversion reads the lower 32.\<close>

theorem stat_first_zeros_instance:
  "\<exists>w. prvSTATCommand (plain_cli (no_files\<lparr>red_open := (\<lambda>nm fl w. (3, w))\<rparr>)) 64 ''stat ab'' (replicate 64 0) (cli_start ()) =
      Inr ((False, text_output 64 (''dev 0'' @ newline @ ''ino 0'' @ newline @ ''mode 0'' @ newline @ ''nlink 0'' @ newline @
        ''size 0'' @ newline @ ''blocks 0'' @ newline)), w) \<and> cworld w = () \<and>
    (\<exists>w'. prvSTATCommand (plain_cli (no_files\<lparr>red_open := (\<lambda>nm fl w. (3, w))\<rparr>)) 64 ''stat ab'' (replicate 64 0) w =
      Inr ((False, text_output 64 (stat_text (0, 0, 0, 0, 2, 0))), w') \<and> cworld w' = ())"
proof -
  let ?E = "plain_cli (no_files\<lparr>red_open := (\<lambda>nm fl (w :: unit). (3, w))\<rparr>)"
  have o: "open_path ?E (parameter_text ?E ''stat ab'' 1) RED_RDONLY () = (3, ())"
    by (simp add: open_path_def parameter_text_def plain_cli_def)
  have f: "red_fstat ?E 3 () = ((0, no_stat\<lparr>st_size := 4294967298\<rparr>), ())" by (simp add: plain_cli_def)
  have a: "stat_args ?E no_stat = (0, 0, 0, 0, 0, 0)" "stat_args ?E (no_stat\<lparr>st_size := 4294967298\<rparr>) = (0, 0, 0, 0, 2, 0)"
    by (simp_all add: plain_cli_def no_stat_def)
  show ?thesis
    using stat_first_zeros [OF _ o _ f _ a(1), of 64] by (simp add: a(2))
qed

definition dead_net :: "unit cli_app_env" where
  "dead_net = \<lparr>cli_csp = \<lparr>op_send = (\<lambda>p w. (False, w)), op_buffer_get = (\<lambda>n w. (None, w)), op_buffer_clone = (\<lambda>p w. (Some p, w))\<rparr>,
     MAX_INPUT_SIZE = 16, OUTPUT_SIZE = 16, FreeRTOS_CLIProcessCommand = (\<lambda>input buf n w. Inr ((False, buf), w))\<rparr>"

theorem cli_step_frees_twice_instance:
  "cli_step dead_net 3 0 ((pool_with ())\<lparr>bufs := [0 \<mapsto> ls_packet], nxt := 1\<rparr>) = Inl DoubleFree"
proof -
  let ?s = "(pool_with ())\<lparr>bufs := [0 \<mapsto> ls_packet], nxt := 1\<rparr>"
  have P: "pool_ok ?s" by (simp add: pool_ok_def pool_with_def)
  have "\<exists>t. cli_app dead_net 3 0 ?s = Inr (SATR_ERROR, t)"
    by (simp add: cli_app_def dead_net_def prog_simps const_simps pool_op_defs buffer_clone_def buffer_free_def pool_with_def
        ls_packet_def packet_of_def text_bytes_def write_output_def numeral_3_eq_3)
  then show ?thesis using cli_step_frees_twice [OF _ _ P, of dead_net 3 0 SATR_ERROR] by auto
qed

theorem start_service_server_tasks_instance:
  "\<exists>new w'. start_service_server small_os ([], []) = Inr (SATR_ERROR, w') \<and>
    map fst new = [Csp_server, Cli_service, Communication_service, Time_management_service, RTC_service, NMEA_service,
      Housekeeping_service, General_service] \<and> fst w' = new \<and> snd w' = tl new"
  using start_service_server_tasks [OF small_os_ok, of "([], [])"] by (simp add: service_tasks_def)

subsection \<open>Responses\<close>

definition board_response :: "unit response_env" where
  "board_response = \<lparr>csp_connect = (\<lambda>src port w. (Some (unat src), w)), conn_ops = (\<lambda>conn. sink), csp_close = (\<lambda>conn w. w)\<rparr>"

definition idle_response :: "unit response_state" where
  "idle_response = \<lparr>response_queue = [], packet_ids = (\<lambda>h. \<lparr>id_src = 0, id_dport = 0\<rparr>), rpool = pool_with ()\<rparr>"

definition queued_response :: "unit response_state" where
  "queued_response = \<lparr>response_queue = [0], packet_ids = (packet_ids idle_response)(0 := \<lparr>id_src = 16, id_dport = 8\<rparr>),
     rpool = (pool_with ())\<lparr>bufs := [0 \<mapsto> packet_of [7]], nxt := 1\<rparr>\<rparr>"

lemma queued_response_reachable: "response_run board_response idle_response [0] [] queued_response"
proof -
  let ?s = "queued_response\<lparr>response_queue := []\<rparr>"
  have "in_pool (own (packet_of [7])) idle_response = Inr (0, idle_response\<lparr>rpool := rpool queued_response\<rparr>)"
    by (simp add: in_pool_run own_def idle_response_def queued_response_def pool_with_def)
  from response_run.receive [OF response_run.begin_run this, of "packet_ids queued_response" "\<lparr>id_src = 16, id_dport = 8\<rparr>"]
  have "response_run board_response idle_response [] [] ?s" by (simp add: idle_response_def queued_response_def)
  then have "response_run board_response idle_response ([] @ [0]) [] queued_response"
    by (rule response_run.accepted) (simp_all add: queued_response_def queue_response_def const_simps)
  then show ?thesis by simp
qed

lemma responses_in_order_instance:
  "response_queue queued_response = [0] \<and> (\<exists>s'. service_response_rounds board_response 1 queued_response = Inr ((), s') \<and>
    response_queue s' = [] \<and> bufs (rpool s') 0 = None)"
proof -
  have ok: "response_ok idle_response" "response_queue idle_response = []"
    by (simp_all add: response_ok_def idle_response_def pool_with_def pool_ok_def)
  show ?thesis
    using responses_in_order [OF ok queued_response_reachable] by (simp add: queued_response_def)
qed

end
