(* ===== verification/Spec2Isabelle.thy ===== *)
theory Spec2Isabelle
  imports Hk_Lookup Hk_Pages Hk_Lock Hk_Mock Hal Demo Service_Properties Comm_Properties Adcs_Properties Cli_Properties
begin

text \<open>
  \<^bold>\<open>The services of the Ex-Alta 2 on-board software.\<close>

  The program is a set of FreeRTOS tasks. Each service task binds a port of libcsp, accepts connections and hands every packet
  to its handler; a handler decodes the subservice byte and the parameters, calls drivers of other
  repositories, and writes its reply into the packet. The housekeeping service also collects records from all
  subsystems, keeps them in a ring of numbered records in one file, with an index of their
  times in memory and in a configuration file, and sends pages of them. The command line service
  runs the file commands through an interpreter and sends its output in packets. The services
  meet in the packet buffers, the file system, the real-time clock and the start-up. This development
  models all of them; each definition is written from the function or type that it is named after.

  \<^bold>\<open>How the code is represented.\<close> A C function is a program of the state monad of \<^verbatim>\<open>Prelude\<close>: it maps a state
  to a fault or to a result and a new state. A fault is an execution without a defined result (a copy out
  of bounds, a use after free, a double free, a null pointer, a deadlock, an overflow of an integer, no value
  returned); that there is none, or exactly when there is one, is always a theorem. Integers are words of the width of the code, structures are
  records, enumerations datatypes. Floating-point numbers are bit patterns that are only passed
  on. Globals and static variables are fields of the state of their file: \<open>hk_state\<close>,
  \<open>cli_state\<close>, \<open>response_state\<close>, and the watchdog counter in \<open>pool\<close>.

  \<^bold>\<open>What is a parameter.\<close> libcsp, FreeRTOS and FreeRTOS+CLI, the Reliance Edge file system, the
  drivers of the subsystems and the layout of their structures are not in the repository. They
  enter as records of functions over a world of any type (\<open>csp_ops\<close>, \<open>red_ops\<close>, \<open>os_ops\<close>, \<open>hk_devices\<close>,
  \<open>cli_env\<close>, \<open>adcs_env\<close>, \<open>boot_env\<close>, \<open>demo_env\<close> and the other environments). What a theorem needs of
  them is a named predicate on these records that states documented behaviour only (\<open>red_reliable\<close>,
  \<open>net_ok\<close>, \<open>os_ok\<close>, \<open>devices_ok\<close>, \<open>csp_endian_ok\<close>, \<open>boot_ok\<close>, \<open>rtc_ok\<close>, \<open>dir_ops_ok\<close>) or the sizes of their
  structures (\<open>comm_env_ok\<close>, \<open>lg_env_ok\<close>, \<open>adcs_env_ok\<close>), and every property with
  hypotheses comes with an instance on concrete environments that satisfy them. What a driver reports, and
  whether an allocation succeeds, is not restricted where a handler does not check it:
  \<open>log_fault\<close> and \<open>comm_fault\<close> give the faults that follow. Which bits of a wide structure member a conversion of \<^verbatim>\<open>printf\<close>
  reads is a parameter too (\<open>stat_args\<close>).
  The input of a task is a list of what the network delivers, so that
  "for all lists" stands for the endless loop.

  \<^bold>\<open>The theories, and the files of the repository that they model.\<close>
  \<^item> \<^verbatim>\<open>Prelude\<close>: machine types, the monad and its triples, checked copies, object representations; the hint
    collections \<^verbatim>\<open>prog_simps\<close> (running programs) and \<^verbatim>\<open>const_simps\<close> (\<^verbatim>\<open>#define\<close>s).
  \<^item> \<^verbatim>\<open>Csp\<close>, \<^verbatim>\<open>Service_Loop\<close>: packets and the reply idioms of the handlers; buffers by handle with their
    ownership, the task loop that all services share, and what a run of it leaves in the
    buffers (\<^verbatim>\<open>include/services.h\<close>, the \<^verbatim>\<open>*_service\<close> tasks, \<^verbatim>\<open>scheduler.c\<close>).
  \<^item> \<^verbatim>\<open>Utilities\<close>: byte order and packing (\<^verbatim>\<open>util/service_utilities.c\<close>). \<^verbatim>\<open>Strings\<close>: \<^verbatim>\<open>printf\<close> conversions,
    \<^verbatim>\<open>snprintf\<close>, \<^verbatim>\<open>atoi\<close>. \<^verbatim>\<open>Hex_Dump\<close>: \<^verbatim>\<open>hex_dump\<close> of \<^verbatim>\<open>services.c\<close>.
  \<^item> \<^verbatim>\<open>Reliance\<close>: the interface of the file system, a specification of it and a file system in memory.
  \<^item> \<^verbatim>\<open>housekeeping/housekeeping_service.c\<close>: \<^verbatim>\<open>Hk_Timestamps\<close> (the index and its search), \<^verbatim>\<open>Hk_Storage\<close> (data and configuration
    file), \<^verbatim>\<open>Hk_Service\<close> (sampling, paging, requests, task), \<^verbatim>\<open>Hk_Mock\<close> (the test records); on them
    \<^verbatim>\<open>Hk_Records\<close> and \<^verbatim>\<open>Hk_Config\<close> (the files as stores), \<^verbatim>\<open>Hk_Sampling\<close> (runs of samples),
    \<^verbatim>\<open>Hk_Requests\<close> (numbers of files, pages), \<^verbatim>\<open>Hk_Lookup\<close> (a run of samples searched by time and paged),
    \<^verbatim>\<open>Hk_History\<close> (samples, numbers of files and restarts in any order, against a state machine),
    \<^verbatim>\<open>Hk_Pages\<close> (the task that answers requests after any history, from bytes to bytes),
    \<^verbatim>\<open>Hk_Lock\<close> (the lock as several tasks use it, step by step),
    \<^verbatim>\<open>Hk_Environment\<close> and \<^verbatim>\<open>Hk_Properties\<close> (a concrete environment and the instances).
  \<^item> \<^verbatim>\<open>Time_Management\<close>, \<^verbatim>\<open>General\<close>, \<^verbatim>\<open>Dfgm\<close>, \<^verbatim>\<open>Updater\<close>, \<^verbatim>\<open>Logger\<close>: the files of these names, with
    \<^verbatim>\<open>Service_Properties\<close> for their instances on a small board.
  \<^item> \<^verbatim>\<open>Communication\<close>, \<^verbatim>\<open>Comm_Properties\<close>: the two radios. \<^verbatim>\<open>Adcs\<close>, \<^verbatim>\<open>Adcs_Properties\<close>: the attitude control
    requests, a table of 108 cases in the order of the switch.
  \<^item> \<^verbatim>\<open>Cli_Commands\<close> (\<^verbatim>\<open>cli/fs_utils.c\<close> and the commands of \<^verbatim>\<open>cli/cli.c\<close>), \<^verbatim>\<open>Cli\<close> (handler and task), \<^verbatim>\<open>Cli_Sessions\<close>
    (whole answers of a command), \<^verbatim>\<open>Cli_Properties\<close>.
  \<^item> \<^verbatim>\<open>Startup\<close>: \<^verbatim>\<open>services.c\<close>, the \<^verbatim>\<open>start_*\<close> functions, the ports. \<^verbatim>\<open>Response\<close>: \<^verbatim>\<open>response/service_response.c\<close>.
    \<^verbatim>\<open>Demo\<close>, \<^verbatim>\<open>Hal\<close>: \<^verbatim>\<open>ex2_demo_software/main.c\<close> and \<^verbatim>\<open>hal.c\<close>.
  \<^item> This theory: properties of several components together.

  \<^bold>\<open>Interfaces.\<close> \<^verbatim>\<open>byte_codec\<close> and \<^verbatim>\<open>net_order\<close> (conversions, interpreted by those of \<^verbatim>\<open>Utilities\<close>);
  \<^verbatim>\<open>packet_app_but\<close> (a handler on a packet with enough room is safe but for faults that its state tells; interpreted by the
  logger and the radios) and \<^verbatim>\<open>packet_app\<close>, its case of a handler without faults (interpreted by the four other services whose
  handlers only rewrite their packet), which give the runs of each task; \<^verbatim>\<open>record_store\<close> (a store of
  records by number; interpreted by the housekeeping file); \<^verbatim>\<open>simulation\<close> (operations that follow a
  step relation; interpreted by the housekeeping service); \<^verbatim>\<open>serving\<close> (a step that answers the request in
  its packet, which gives the runs of its task; interpreted by the housekeeping handler); \<^verbatim>\<open>cli_command\<close> (a command that
  refines a sequence of outputs; interpreted by \<^verbatim>\<open>ls\<close> and \<^verbatim>\<open>echo\<close>).

  \<^bold>\<open>What the lemmas show.\<close> Housekeeping: the search is sound, complete on ordered indices that have
  not wrapped around, and misses all samples of one side of a ring that has; the files refine a map from numbers to records and a triple of settings;
  sampling keeps the invariant \<open>hk_ready\<close>, and samples are stored, found by time and
  sent back as they were taken; through any history of samples, numbers of files and restarts (between
  two operations) the service follows a ring of records, whose rules also tell which settings get lost, and
  its task answers requests with the records that this ring keeps; its lock admits one task at a time, except
  at its first use. Packet services: every branch of every handler that the
  instances name, safety of the handlers up to the faults that they have, the runs of the tasks, who owns which
  buffer after any run.
  Command line: whole sessions, and the double free after a failed send. Responses: any
  interleaving of producers and the task keeps the queue a queue. Start-up: exactly which tasks run. Demo: a FIFO as a
  stream of bytes, on which packets arrive when each write is followed by a read, and merge or are torn otherwise.
  Where the code fails to do what it means to, the failure is a theorem; the names end in
  what goes wrong (\<open>_overruns\<close>, \<open>_leaks\<close>, \<open>_uses_freed\<close>, \<open>_misses_newest\<close> and so on).

  \<^bold>\<open>Bounds and fuel.\<close> The search halves its interval and has fuel for every position in it; the loop that
  clears new items has fuel for every 16-bit value up to the new size, which stays below 20161; the
  delay loop of the clock task sleeps 10000 units in at most 10001 steps when its delay is not zero. For all
  three the fuel is part of the definition and proved to be enough. The command line
  calls the interpreter as long as it asks for it; its fuel is an argument, and the theorems
  on sessions say how much is enough.

  \<^bold>\<open>Not modelled.\<close> Text sent to \<^verbatim>\<open>ex2_log\<close> or the console and the help texts, which have no effect on the
  services; sizes of task stacks beyond their value; preemption inside a handler, except for the
  response queue and the lock of the housekeeping service, whose steps are interleaved. Between
  \<^verbatim>\<open>prv_get_lock\<close> and \<^verbatim>\<open>prv_give_lock\<close> a sequential run is what the lock justifies; the accesses outside it
  (\<^verbatim>\<open>current_file\<close> in a request, the records of a page) are modelled as undisturbed.
  \<^verbatim>\<open>pthread\<close> variables of the demo are not used by it.
\<close>

subsection \<open>Watchdog and buffers\<close>

lemma sum_const: "(\<And>a. f a = (c :: nat)) \<Longrightarrow> sum_list (map f as) = c * length as"
  by (induction as) simp_all

lemma kicks_per_round:
  "kicks_of time_kicks a = 2" "kicks_of dfgm_kicks a = 1" "kicks_of updater_kicks a = 2" "kicks_of logger_kicks a = 1"
  "kicks_of communication_kicks a = 1" "kicks_of adcs_kicks a = 2"
  by (cases a; simp add: kicks_of_def time_kicks_def dfgm_kicks_def updater_kicks_def logger_kicks_def communication_kicks_def
      adcs_kicks_def)+

lemma kicks_at_start:
  "k_init time_kicks = 1" "k_init dfgm_kicks = 1" "k_init updater_kicks = 1" "k_init logger_kicks = 1"
  "k_init communication_kicks = 1" "k_init adcs_kicks = 0"
  by (simp_all add: time_kicks_def dfgm_kicks_def updater_kicks_def logger_kicks_def communication_kicks_def adcs_kicks_def)

text \<open>C18: On any packet with room for its largest reply the handlers of the time, magnetometer, updater
  and attitude control services return a result without a fault, and leave the capacity of the
  packet and its subservice byte as they were. So do those of the logger and of the communication
  service, but for exactly these faults: a request for a log copies from a null pointer when the
  allocation fails, and leaves its block when the size limit is below 500 bytes; a request for a
  radio text (UHF_GET_MORSE, UHF_GET_MIDI, UHF_GET_BEACON_MSG) leaves its array when the radio
  reports a longer text.\<close>

theorem apps_keep_packet:
  assumes "dfgm_env_ok D" "upd_env_ok U" "lg_env_ok L" "comm_env_ok C" "adcs_env_ok A"
  shows "safe 6 (time_management_app T) \<and> safe (dfgm_sizeof D + 5) (dfgm_service_app D) \<and>
    safe (info_sizeof U + 20) (updater_app U) \<and> safe (largest A + 14) (adcs_service_app A) \<and>
    safe_but 502 (log_fault L) (logger_service_app L) \<and> safe_but 202 (comm_fault C) (communication_service_app C)"
  using assms by (intro conjI time.app_safe TrueI dfgm.app_safe updater.app_safe adcs.app_safe logger.app_safe_but communication.app_safe_but)

lemma apps_keep_packet_instance:
  "safe 6 (time_management_app board_time) \<and> safe 7 (dfgm_service_app board_dfgm) \<and> safe 24 (updater_app (board_updater True)) \<and>
    safe 20 (adcs_service_app board_adcs) \<and> safe_but 502 (log_fault small_logger) (logger_service_app small_logger) \<and>
    safe_but 202 (comm_fault (board_comm 40)) (communication_service_app (board_comm 40))"
  using apps_keep_packet [OF board_envs_ok(1) board_envs_ok(2) [of True] board_envs_ok(3) board_comm_ok [of 40] board_adcs_ok,
      where T = board_time]
  by (simp add: board_dfgm_def board_updater_def board_adcs_sel)

text \<open>Some packet of the run satisfies \<open>P\<close>.\<close>

definition requested :: "(csp_packet \<Rightarrow> bool) \<Rightarrow> accept list \<Rightarrow> bool" where
  "requested P as \<longleftrightarrow> (\<exists>a\<in>set as. \<exists>p\<in>set (packets_of a). P p)"



text \<open>C3: Samples taken one after the other, as many as there are files, are all stored; a request for the
  history that follows transmits exactly these records, newest first, each but the last marked to
  be followed by more.\<close>

theorem samples_then_page:
  assumes R: "red_reliable (hk_fs E) view" and N: "net_ok (hk_net E) view sent" and Q: "quiet (hk_fs E) sent"
    and os: "os_ok (hk_os E) view" and mute: "\<forall>f. sent (snd (xSemaphoreCreateMutex (hk_os E) f)) = sent f"
    and D: "devices_ok view D" and cv: "cv_ok (hk_cv E)"
    and ls: "sizes_ok ls" "sum_list ls < 65534" "sized ls shape"
    and w: "hk_ready (host (hk_ce E)) view w"
    and js: "\<forall>j\<in>set js. sized ls j" "length js \<le> unat (MAX_FILES w)"
  shows "\<exists>hks w'. take_samples (hk_fs E) (hk_os E) (host (hk_ce E)) D js w =
      Inr (replicate (length js) SUCCESS, w') \<and>
    length hks = length js \<and> (\<forall>i<length js. hk_timeorder (hks ! i) = hk_timeorder (js ! i)) \<and>
    (\<forall>s. pool_ok s \<and> pworld s = w' \<longrightarrow>
      (\<exists>t d ps. fetch_historic_hk_and_transmit E shape (of_nat (length js)) 0 0 s = Inr (SUCCESS, t) \<and>
        dev (pworld t) = d \<and> sent d = sent (dev w') @ ps \<and>
        list_all2 (carries (host (hk_ce E))) (replies (hk_ce E) (hk_cv E)
          (rev (map (\<lambda>i. numbered (ring (MAX_FILES w) (current_file w) i) (hks ! i)) [0..<length js]))) ps))"
proof -
  obtain hks w' where s: "take_samples (hk_fs E) (hk_os E) (host (hk_ce E)) D js w = Inr (replicate (length js) SUCCESS, w')"
      "hk_ready (host (hk_ce E)) view w'" "MAX_FILES w' = MAX_FILES w"
      "current_file w' = ring (MAX_FILES w) (current_file w) (length js)" "length hks = length js"
      "\<forall>i<length js. hk_timeorder (hks ! i) = hk_timeorder (js ! i)"
    and page: "\<And>m k bid s. m \<le> k \<Longrightarrow> k \<le> length js \<Longrightarrow>
      ring (MAX_FILES w) (current_file w) k = (if bid = 0 \<or> MAX_FILES w < bid then current_file w' else bid) \<Longrightarrow>
      pool_ok s \<Longrightarrow> pworld s = w' \<Longrightarrow>
      \<exists>t d ps. fetch_historic_hk_and_transmit E shape (of_nat m) bid 0 s = Inr (SUCCESS, t) \<and>
        dev (pworld t) = d \<and> sent d = sent (dev w') @ ps \<and>
        list_all2 (carries (host (hk_ce E))) (replies (hk_ce E) (hk_cv E)
          (rev (map (\<lambda>i. numbered (ring (MAX_FILES w) (current_file w) i) (hks ! i)) [k - m..<k]))) ps"
    by (rule page_of_samples [OF R N Q os mute D cv ls w js]; rule that; assumption)
  have "\<exists>t d ps. fetch_historic_hk_and_transmit E shape (of_nat (length js)) 0 0 p = Inr (SUCCESS, t) \<and>
        dev (pworld t) = d \<and> sent d = sent (dev w') @ ps \<and>
        list_all2 (carries (host (hk_ce E))) (replies (hk_ce E) (hk_cv E)
          (rev (map (\<lambda>i. numbered (ring (MAX_FILES w) (current_file w) i) (hks ! i)) [0..<length js]))) ps"
    if "pool_ok p" "pworld p = w'" for p
    using page [OF order_refl order_refl _ that, of 0] s(4) by simp
  with s(1,5,6) show ?thesis by (intro exI [of _ hks] exI [of _ w']) blast
qed

theorem samples_then_page_instance:
  "\<exists>hks w' t ps. take_samples ram_ops ram_os SYS_LITTLE_ENDIAN no_devices [small_hk, small_hk] (hk_init empty_ram) =
      Inr ([SUCCESS, SUCCESS], w') \<and>
    fetch_historic_hk_and_transmit ram_env small_hk 2 0 0 (pool_with w') = Inr (SUCCESS, t) \<and>
    mout (dev (pworld t)) = mout (dev w') @ ps \<and>
    list_all2 (carries SYS_LITTLE_ENDIAN) (replies le_host plain_cv [numbered 2 (hks ! 1), numbered 1 (hks ! 0)]) ps"
proof -
  have sel: "hk_fs ram_env = ram_ops" "hk_os ram_env = ram_os" "hk_net ram_env = ram_net" "hk_cv ram_env = plain_cv"
    "hk_ce ram_env = le_host" "host le_host = SYS_LITTLE_ENDIAN"
    by (simp_all add: ram_env_def le_host_def)
  have mute: "\<forall>f. mout (snd (xSemaphoreCreateMutex ram_os f)) = mout f" by (simp add: ram_os_def)
  have ls: "sum_list small_sizes < 65534" by (simp add: small_sizes_def)
  have js: "\<forall>j\<in>set [small_hk, small_hk]. sized small_sizes j" "length [small_hk, small_hk] \<le> unat (20160 :: u16)"
    by (simp_all add: small_sized)
  have two: "length [small_hk, small_hk] = 2" "replicate 2 SUCCESS = [SUCCESS, SUCCESS]" "of_nat 2 = (2 :: u16)"
    by (simp_all add: numeral_2_eq_2)
  have rv: "rev (map f [0..<2]) = [f 1, f 0]" for f :: "nat \<Rightarrow> All_systems_housekeeping" by (simp add: numeral_2_eq_2)
  have pw: "pool_ok (pool_with w) \<and> pworld (pool_with w) = w" for w :: "ramfs hk_state" by (simp add: pool_with_def pool_ok_def)
  from samples_then_page [of ram_env ram_view mout no_devices small_sizes small_hk "hk_init empty_ram" "[small_hk, small_hk]",
      unfolded sel hk_init_sel two,
      OF ram_reliable ram_net_ok ram_quiet ram_os_ok mute no_devices_ok plain_cv_ok small_sized(2) ls small_sized(1)
        fresh_ready js(1) js(2) [unfolded two]]
  obtain hks w' where h: "take_samples ram_ops ram_os SYS_LITTLE_ENDIAN no_devices [small_hk, small_hk] (hk_init empty_ram) =
      Inr ([SUCCESS, SUCCESS], w')"
    "\<forall>s. pool_ok s \<and> pworld s = w' \<longrightarrow> (\<exists>t d ps. fetch_historic_hk_and_transmit ram_env small_hk 2 0 0 s = Inr (SUCCESS, t) \<and>
        dev (pworld t) = d \<and> mout d = mout (dev w') @ ps \<and> list_all2 (carries SYS_LITTLE_ENDIAN) (replies le_host plain_cv
          [numbered (ring 20160 1 1) (hks ! 1), numbered (ring 20160 1 0) (hks ! 0)]) ps)"
    unfolding rv by blast
  from h(2) [rule_format, OF pw] h(1) show ?thesis unfolding ring_start by blast
qed

subsection \<open>One clock behind two interfaces\<close>

text \<open>A clock that can be set and read.\<close>

definition rtc_ok :: "'w rtc_ops \<Rightarrow> ('w \<Rightarrow> u32) \<Rightarrow> bool" where
  "rtc_ok R clock \<longleftrightarrow> (\<forall>t w. fst (RTCMK_SetUnix R t w) = 0 \<and> clock (snd (RTCMK_SetUnix R t w)) = t) \<and>
     (\<forall>w. RTCMK_GetUnix R w = ((0, clock w), w))"

lemma rtc_okD:
  assumes "rtc_ok R clock"
  obtains v where "RTCMK_SetUnix R t w = (0, v)" "clock v = t"
  using assms that [of "snd (RTCMK_SetUnix R t w)"] unfolding rtc_ok_def by (metis prod.collapse)

lemma ISOK_sint: "TIMESTAMP_ISOK t \<Longrightarrow> sint t = int (unat t)"
  by (rule sint_small) (simp add: TIMESTAMP_ISOK_def const_simps word_less_nat_alt)

lemma decimal_nat_length: "n < 10 ^ Suc k \<Longrightarrow> length (decimal_nat n) \<le> Suc k"
  by (induction k arbitrary: n) (simp_all add: decimal_nat.simps)

lemma decimal_int: "decimal (int n) = decimal_nat n"
  by (simp add: decimal_def)

lemma text_time_length:
  assumes "TIMESTAMP_ISOK t"
  shows "length (decimal (sint t) @ crlf) \<le> 12"
proof -
  have "unat t < 10 ^ Suc 9" using assms by (simp add: TIMESTAMP_ISOK_def const_simps word_less_nat_alt)
  from decimal_nat_length [OF this] show ?thesis unfolding ISOK_sint [OF assms] decimal_int by (simp add: crlf_def)
qed

text \<open>C21: The time service and the time command of the command line share a clock: the time that SET_TIME
  sets is printed in decimal by the command, and the time that the command sets is replied by
  GET_TIME.\<close>

theorem clock_shared:
  assumes rtc: "tm_rtc T = cli_rtc C" "rtc_ok (cli_rtc C) clock" and ce: "csp_endian_ok (tm_ce T)"
    and t: "t = of_bytes SYS_BIG_ENDIAN bs" "TIMESTAMP_ISOK t" and bs: "length bs = 4"
    and p: "pkt_data p = SET_TIME # bs @ rest" and q: "pkt_data q ! 0 = GET_TIME" "6 \<le> length (pkt_data q)"
    and get: "prvGetNumberOfParameters C line = 0"
    and set: "prvGetNumberOfParameters C line' = 1" "parameter_text C line' 1 = Some arg" "atoi arg = int (unat t)"
    and room: "13 \<le> length buf" "13 \<le> MAX_OUTPUT_SIZE C"
  shows "(\<exists>w1. time_management_app T \<lparr>packet = p, world = cworld s\<rparr> = Inr (SATR_OK, \<lparr>packet = status_packet 0 p, world = w1\<rparr>) \<and>
      prvTimeCommand C n line buf (s\<lparr>cworld := w1\<rparr>) =
        Inr ((False, overlay 0 (text_bytes (decimal (int (unat t)) @ crlf) @ [0]) buf), s\<lparr>cworld := w1\<rparr>)) \<and>
    (\<exists>w2. prvTimeCommand C n line' buf s = Inr ((False, buf), s\<lparr>cworld := w2\<rparr>) \<and>
      time_management_app T \<lparr>packet = q, world = w2\<rparr> = Inr (SATR_OK, \<lparr>packet = data_packet 0 bs q, world = w2\<rparr>))"
proof -
  obtain v where v: "RTCMK_SetUnix (cli_rtc C) t (cworld s) = (0, v)" "clock v = t" by (rule rtc_okD [OF rtc(2)])
  have g: "RTCMK_GetUnix (cli_rtc C) v = ((0, t), v)" using rtc(2) v(2) by (simp add: rtc_ok_def)
  have len: "length (decimal (sint t) @ crlf) \<le> 12" by (rule text_time_length [OF t(2)])
  have w: "word_of_int (atoi arg) = t" unfolding set(3) by simp
  have one: "time_management_app T \<lparr>packet = p, world = cworld s\<rparr> = Inr (SATR_OK, \<lparr>packet = status_packet 0 p, world = v\<rparr>)"
    by (rule set_time_run [OF ce bs t p]) (simp add: rtc(1) v(1))
  have printed: "prvTimeCommand C n line buf (s\<lparr>cworld := v\<rparr>) =
      Inr ((False, overlay 0 (text_bytes (decimal (int (unat t)) @ crlf) @ [0]) buf), s\<lparr>cworld := v\<rparr>)"
    using len room g get unfolding ISOK_sint [OF t(2), symmetric]
    by (simp add: prvTimeCommand_def call_def prog_simps)
  have returned: "prvTimeCommand C n line' buf s = Inr ((False, buf), s\<lparr>cworld := v\<rparr>)"
    using set v(1) w by (simp add: prvTimeCommand_def call_def prog_simps)
  have "time_management_app T \<lparr>packet = q, world = v\<rparr> = Inr (SATR_OK, \<lparr>packet = data_packet 0 bs q, world = v\<rparr>)"
    by (rule get_time_run [OF ce bs t(1) q]) (simp add: rtc(1) g)
  with one printed returned show ?thesis by blast
qed

definition clock_cli :: "u32 cli_env" where
  "clock_cli = (plain_cli no_files)\<lparr>cli_rtc := tm_rtc board_time,
     prvGetNumberOfParameters := (\<lambda>l. if l = ''time'' then 0 else 1)\<rparr>"

theorem clock_shared_instance:
  "(\<exists>w1. time_management_app board_time \<lparr>packet = packet_of [SET_TIME, 0x60, 0, 0, 1, 0, 0], world = 0\<rparr> =
      Inr (SATR_OK, \<lparr>packet = status_packet 0 (packet_of [SET_TIME, 0x60, 0, 0, 1, 0, 0]), world = w1\<rparr>) \<and>
      prvTimeCommand clock_cli 16 ''time'' (replicate 16 0) (cli_start w1) =
        Inr ((False, overlay 0 (text_bytes (decimal 1610612737 @ crlf) @ [0]) (replicate 16 0)), cli_start w1)) \<and>
    (\<exists>w2. prvTimeCommand clock_cli 16 (''time '' @ decimal 1610612737) (replicate 16 0) (cli_start 0) =
        Inr ((False, replicate 16 0), cli_start w2) \<and>
      time_management_app board_time \<lparr>packet = packet_of [GET_TIME, 0, 0, 0, 0, 0], world = w2\<rparr> =
        Inr (SATR_OK, \<lparr>packet = data_packet 0 [0x60, 0, 0, 1] (packet_of [GET_TIME, 0, 0, 0, 0, 0]), world = w2\<rparr>))"
proof -
  have sel: "cli_rtc clock_cli = tm_rtc board_time" "MAX_OUTPUT_SIZE clock_cli = 16" "tm_ce board_time = le_host"
    "prvGetNumberOfParameters clock_cli ''time'' = 0" "prvGetNumberOfParameters clock_cli (''time '' @ decimal 1610612737) = 1"
    "parameter_text clock_cli (''time '' @ decimal 1610612737) 1 = Some (decimal 1610612737)"
    by (simp_all add: clock_cli_def plain_cli_def board_time_def parameter_text_def)
  have rtc: "rtc_ok (cli_rtc clock_cli) id" by (simp add: rtc_ok_def sel(1) board_time_def)
  have t: "0x60000001 = (of_bytes SYS_BIG_ENDIAN [0x60, 0, 0, 1] :: u32)" by (simp add: of_bytes_def push_bit_eq_mult)
  have ok: "TIMESTAMP_ISOK 0x60000001" by (simp add: TIMESTAMP_ISOK_def const_simps)
  have ce: "csp_endian_ok (tm_ce board_time)" using le_host_ok by (simp add: sel)
  have n: "int (unat (0x60000001 :: u32)) = 1610612737" by simp
  have at: "atoi (decimal 1610612737) = int (unat (0x60000001 :: u32))" unfolding n by (rule atoi_decimal)
  have st: "cworld (cli_start w) = w" "(cli_start 0)\<lparr>cworld := w\<rparr> = cli_start w" for w :: u32
    by (simp_all add: cli_start_def)
  have pk: "pkt_data (packet_of [SET_TIME, 0x60, 0, 0, 1, 0, 0]) = SET_TIME # [0x60, 0, 0, 1] @ [0, 0]"
    "pkt_data (packet_of [GET_TIME, 0, 0, 0, 0, 0]) ! 0 = GET_TIME" "6 \<le> length (pkt_data (packet_of [GET_TIME, 0, 0, 0, 0, 0]))"
    by (simp_all add: packet_of_def)
  from clock_shared [OF sel(1) [symmetric] rtc ce t ok _ pk sel(4,5,6) at, of "replicate 16 0" "cli_start 0" 16] show ?thesis
    unfolding st n by (simp add: sel(2))
qed

end
